(* ===== verification/Prelude.thy ===== *)
theory Prelude
  imports Main "HOL-Library.Word"
begin

section \<open>Shared vocabulary of the development\<close>

text \<open>
  What every component uses: the names of the machine types, the saturating and wrapping
  arithmetic of the Rust integers that occur in the sources, decimal rendering of numbers
  (the \<open>{}\<close> of \<open>format!\<close>), and generic facts on lists (searching for the first element
  that satisfies a predicate, joining and splitting on a separator). The collection
  \<open>rust_defs\<close> gathers the defining equations a proof unfolds when it computes with the
  small library functions.
\<close>

named_theorems rust_defs \<open>definitions of the modelled Rust library functions\<close>

subsection \<open>Machine integers\<close>

type_synonym u32 = "32 word"
type_synonym u64 = "64 word"

text \<open>
  A signed 64-bit integer is kept as an \<^typ>\<open>int\<close> with the wrap-around written out, because
  the only arithmetic done on it is one addition and one cast. A \<open>usize\<close> is a \<^typ>\<open>nat\<close>
  that saturates at \<open>usize_max\<close> where the source asks for saturation.
\<close>

type_synonym i64 = int
type_synonym usize = nat

definition wrap_i64 :: "int \<Rightarrow> i64" where
  "wrap_i64 x = (x + 2 ^ 63) mod 2 ^ 64 - 2 ^ 63"

definition i64_max :: i64 where
  "i64_max = 2 ^ 63 - 1"

definition is_i64 :: "int \<Rightarrow> bool" where
  "is_i64 x \<longleftrightarrow> - (2 ^ 63) \<le> x \<and> x < 2 ^ 63"

definition usize_max :: usize where
  "usize_max = 2 ^ 64 - 1"

definition usize_saturating_add :: "usize \<Rightarrow> usize \<Rightarrow> usize" where
  "usize_saturating_add a b = min (a + b) usize_max"

definition usize_saturating_sub :: "usize \<Rightarrow> usize \<Rightarrow> usize" where
  "usize_saturating_sub a b = a - b"

definition saturating_mul :: "u64 \<Rightarrow> u64 \<Rightarrow> u64" where
  "saturating_mul a b = (if 2 ^ 64 \<le> unat a * unat b then - 1 else a * b)"

definition saturating_pow :: "u64 \<Rightarrow> nat \<Rightarrow> u64" where
  "saturating_pow a n = (if 2 ^ 64 \<le> unat a ^ n then - 1 else a ^ n)"

lemma wrap_i64_id [simp]: "is_i64 x \<Longrightarrow> wrap_i64 x = x"
  by (simp add: wrap_i64_def is_i64_def)

lemma wrap_i64_range [simp]: "is_i64 (wrap_i64 x)"
proof -
  have "0 \<le> (x + 2 ^ 63) mod 2 ^ 64" and "(x + 2 ^ 63) mod 2 ^ 64 < (2 ^ 64 :: int)"
    by simp_all
  then show ?thesis by (simp add: wrap_i64_def is_i64_def)
qed

lemma unat_max_u64: "unat (- 1 :: u64) = 2 ^ 64 - 1"
  by (simp add: unsigned_minus_1_eq_mask mask_eq_exp_minus_1)

lemma unat_max_u32: "unat (- 1 :: u32) = 2 ^ 32 - 1"
  by (simp add: unsigned_minus_1_eq_mask mask_eq_exp_minus_1)

lemma unat_less_u32: "unat (x :: u32) < 2 ^ 32"
  using unsigned_less [of x] by simp

lemma u32_less_max: "(x :: u32) \<noteq> - 1 \<Longrightarrow> unat x < 2 ^ 32 - 1"
proof -
  assume "x \<noteq> - 1"
  then have "unat x \<noteq> unat (- 1 :: u32)" by (metis word_unat_eq_iff)
  with unat_less_u32 [of x] show ?thesis unfolding unat_max_u32 by linarith
qed

lemma unat_less_u64: "unat (x :: u64) < 2 ^ 64"
  using unsigned_less [of x] by simp

lemma unat_saturating_mul: "unat (saturating_mul a b) = min (unat a * unat b) (2 ^ 64 - 1)"
proof (cases "2 ^ 64 \<le> unat a * unat b")
  case True
  then show ?thesis by (simp add: saturating_mul_def unat_max_u64)
next
  case False
  then have "unat (a * b) = unat a * unat b"
    by (simp add: unat_word_ariths)
  with False show ?thesis by (simp add: saturating_mul_def)
qed

lemma unat_saturating_pow: "unat (saturating_pow a n) = min (unat a ^ n) (2 ^ 64 - 1)"
proof (cases "2 ^ 64 \<le> unat a ^ n")
  case True
  then show ?thesis by (simp add: saturating_pow_def unat_max_u64)
next
  case False
  then have "unat (a ^ n) = unat a ^ n"
    using unat_of_nat [where 'a = 64, of "unat a ^ n"] by (simp add: of_nat_power)
  with False show ?thesis by (simp add: saturating_pow_def)
qed

subsection \<open>Decimal rendering\<close>

definition digit_char :: "nat \<Rightarrow> char" where
  "digit_char d = char_of (48 + d)"

fun nat_str :: "nat \<Rightarrow> string" where
  "nat_str n = (if n < 10 then [digit_char n] else nat_str (n div 10) @ [digit_char (n mod 10)])"

declare nat_str.simps [simp del]

definition int_str :: "int \<Rightarrow> string" where
  "int_str x = (if x < 0 then CHR ''-'' # nat_str (nat (- x)) else nat_str (nat x))"

fun digits_val :: "nat \<Rightarrow> string \<Rightarrow> nat" where
  "digits_val acc [] = acc"
| "digits_val acc (c # s) = digits_val (10 * acc + (of_char c - 48)) s"

lemma digits_val_append: "digits_val acc (s @ t) = digits_val (digits_val acc s) t"
  by (induction acc s rule: digits_val.induct) simp_all

lemma of_digit_char [simp]: "d < 10 \<Longrightarrow> of_char (digit_char d) = (48 + d :: nat)"
  by (simp add: digit_char_def)

lemma digits_val_nat_str [simp]: "digits_val 0 (nat_str n) = n"
proof (induction n rule: nat_str.induct)
  case (1 n)
  show ?case
  proof (cases "n < 10")
    case True
    then show ?thesis by (simp add: nat_str.simps [of n])
  next
    case False
    with "1.IH" show ?thesis
      by (simp add: nat_str.simps [of n] digits_val_append)
  qed
qed

lemma nat_str_inject [simp]: "nat_str m = nat_str n \<longleftrightarrow> m = n"
  by (metis digits_val_nat_str)

lemma nat_str_digits: "c \<in> set (nat_str n) \<Longrightarrow> 48 \<le> (of_char c :: nat) \<and> (of_char c :: nat) < 58"
proof (induction n rule: nat_str.induct)
  case (1 n)
  then show ?case
    by (cases "n < 10") (auto simp: nat_str.simps [of n])
qed

lemma nat_str_no_minus: "nat_str n \<noteq> CHR ''-'' # s"
proof
  assume "nat_str n = CHR ''-'' # s"
  then have "CHR ''-'' \<in> set (nat_str n)" by simp
  from nat_str_digits [OF this] show False by simp
qed

lemma int_str_inject [simp]: "int_str x = int_str y \<longleftrightarrow> x = y"
  using nat_str_no_minus nat_str_no_minus [symmetric]
  by (auto simp: int_str_def)

subsection \<open>Searching and splitting lists\<close>

text \<open>\<open>Iterator::position\<close>: the index of the first element that satisfies the predicate.\<close>

fun position :: "('a \<Rightarrow> bool) \<Rightarrow> 'a list \<Rightarrow> nat option" where
  "position P [] = None"
| "position P (x # xs) = (if P x then Some 0 else map_option Suc (position P xs))"

lemma position_None: "position P xs = None \<longleftrightarrow> (\<forall>x\<in>set xs. \<not> P x)"
  by (induction xs) auto

lemma position_Some: "position P xs = Some i \<longleftrightarrow>
    i < length xs \<and> P (xs ! i) \<and> (\<forall>x\<in>set (take i xs). \<not> P x)"
proof (induction xs arbitrary: i)
  case Nil
  show ?case by simp
next
  case (Cons x xs)
  show ?case
    by (cases i) (auto simp: Cons.IH)
qed

lemma position_append:
  "position P (xs @ ys) =
     (case position P xs of Some i \<Rightarrow> Some i | None \<Rightarrow> map_option ((+) (length xs)) (position P ys))"
proof (induction xs)
  case Nil
  show ?case by (cases "position P ys") simp_all
next
  case (Cons x xs)
  then show ?case
    by (cases "position P xs"; cases "position P ys") simp_all
qed

text \<open>\<open>strip_prefix\<close>: what follows a given prefix.\<close>

fun strip_prefix :: "'a list \<Rightarrow> 'a list \<Rightarrow> 'a list option" where
  "strip_prefix [] s = Some s"
| "strip_prefix (x # p) [] = None"
| "strip_prefix (x # p) (y # s) = (if x = y then strip_prefix p s else None)"

definition starts_with :: "'a list \<Rightarrow> 'a list \<Rightarrow> bool" where
  "starts_with s p \<longleftrightarrow> strip_prefix p s \<noteq> None"

lemma strip_prefix_iff: "strip_prefix p s = Some r \<longleftrightarrow> s = p @ r"
  by (induction p s rule: strip_prefix.induct) auto

lemma starts_with_iff: "starts_with s p \<longleftrightarrow> (\<exists>r. s = p @ r)"
  by (auto simp: starts_with_def strip_prefix_iff)

text \<open>\<open>str::find\<close> with a string pattern: the offset of the first occurrence.\<close>

fun find_sub :: "'a list \<Rightarrow> 'a list \<Rightarrow> nat option" where
  "find_sub p [] = (if p = [] then Some 0 else None)"
| "find_sub p (x # s) = (if starts_with (x # s) p then Some 0 else map_option Suc (find_sub p s))"

lemma find_sub_Some: "find_sub p s = Some i \<Longrightarrow> i \<le> length s \<and> starts_with (drop i s) p"
proof (induction p s arbitrary: i rule: find_sub.induct)
  case (1 p)
  then show ?case by (auto simp: starts_with_def split: if_splits)
next
  case (2 p x s)
  then show ?case by (auto split: if_splits)
qed

lemma find_sub_len: "find_sub p s = Some i \<Longrightarrow> i + length p \<le> length s"
  using find_sub_Some [of p s i] by (fastforce simp: starts_with_iff dest: arg_cong [where f = length])

definition contains :: "'a list \<Rightarrow> 'a list \<Rightarrow> bool" where
  "contains s p \<longleftrightarrow> find_sub p s \<noteq> None"

lemma contains_iff: "contains s p \<longleftrightarrow> (\<exists>a b. s = a @ p @ b)"
proof (induction p s rule: find_sub.induct)
  case (1 p)
  then show ?case by (auto simp: contains_def)
next
  case (2 p x s)
  show ?case
  proof (cases "starts_with (x # s) p")
    case True
    then show ?thesis by (auto simp: contains_def starts_with_iff) (metis append_Nil)
  next
    case False
    then have "contains (x # s) p = contains s p" by (simp add: contains_def)
    moreover have "(\<exists>a b. x # s = a @ p @ b) \<longleftrightarrow> (\<exists>a b. s = a @ p @ b)"
      using False by (auto simp: starts_with_iff Cons_eq_append_conv)
    ultimately show ?thesis using "2.IH" False by simp
  qed
qed

text \<open>\<open>[String]::join\<close> and \<open>str::split\<close> with a single character.\<close>

fun join :: "'a list \<Rightarrow> 'a list list \<Rightarrow> 'a list" where
  "join sep [] = []"
| "join sep [x] = x"
| "join sep (x # y # xs) = x @ sep @ join sep (y # xs)"

fun split_on :: "'a \<Rightarrow> 'a list \<Rightarrow> 'a list list" where
  "split_on c [] = [[]]"
| "split_on c (x # xs) =
     (if x = c then [] # split_on c xs
      else (case split_on c xs of [] \<Rightarrow> [[x]] | y # ys \<Rightarrow> (x # y) # ys))"

lemma split_on_no_sep: "c \<notin> set x \<Longrightarrow> split_on c x = [x]"
  by (induction x) auto

lemma split_on_append_sep:
  "c \<notin> set x \<Longrightarrow> split_on c (x @ c # s) = x # split_on c s"
  by (induction x) auto

lemma split_on_join:
  "xs \<noteq> [] \<Longrightarrow> (\<And>x. x \<in> set xs \<Longrightarrow> c \<notin> set x) \<Longrightarrow> split_on c (join [c] xs) = xs"
proof (induction "[c]" xs rule: join.induct)
  case 1
  then show ?case by simp
next
  case (2 x)
  then show ?case by (simp add: split_on_no_sep)
next
  case (3 x y xs)
  then show ?case by (simp add: split_on_append_sep)
qed

lemma join_eq_Nil: "sep \<noteq> [] \<Longrightarrow> join sep xs = [] \<longleftrightarrow> xs = [] \<or> xs = [[]]"
  by (induction sep xs rule: join.induct) auto

lemma set_join: "set (join sep xs) \<subseteq> set sep \<union> (\<Union>x\<in>set xs. set x)"
  by (induction sep xs rule: join.induct) auto

lemma find_sub_absent: "x \<notin> set s \<Longrightarrow> find_sub (x # p) s = None"
  by (induction s) (auto simp: starts_with_iff)

lemma find_sub_shift:
  "\<not> contains x (c # q) \<Longrightarrow> c \<notin> set q \<Longrightarrow> find_sub (c # q) (x @ c # q @ y) = Some (length x)"
proof (induction x)
  case Nil
  then show ?case by (simp add: starts_with_iff)
next
  case (Cons a x)
  have 1: "\<not> contains x (c # q)" using Cons.prems(1) by (simp add: contains_def split: if_splits)
  have "\<not> starts_with (a # x @ c # q @ y) (c # q)"
  proof
    assume "starts_with (a # x @ c # q @ y) (c # q)"
    then obtain r where a: "a = c" and r: "x @ c # q @ y = q @ r" by (auto simp: starts_with_iff)
    from r consider u where "x = q @ u" | u where "q = x @ u" "c # q @ y = u @ r" "u \<noteq> []"
      unfolding append_eq_append_conv2 by (metis append_Nil2)
    then show False
    proof cases
      case 1
      with a have "a # x = [] @ (c # q) @ u" by simp
      with Cons.prems(1) show False unfolding contains_iff by blast
    next
      case 2
      with Cons.prems(2) show False by (cases u) auto
    qed
  qed
  then show ?case using Cons 1 by simp
qed

lemma position_less: "position P xs = Some i \<Longrightarrow> i < length xs"
  by (simp add: position_Some)

lemma find_sub_skip: "c \<notin> set n \<Longrightarrow> find_sub (c # q) (n @ s) = map_option ((+) (length n)) (find_sub (c # q) s)"
proof (induction n)
  case Nil
  then show ?case by (cases "find_sub (c # q) s") simp_all
next
  case (Cons x n)
  then show ?case by (cases "find_sub (c # q) s") (auto simp: starts_with_iff)
qed

lemma position_skip: "x \<notin> set n \<Longrightarrow> position (\<lambda>c. c = x) (n @ x # s) = Some (length n)"
  by (induction n) auto

end
