(* ===== verification/Rust_Text.thy ===== *)
theory Rust_Text
  imports Prelude
begin

section \<open>Rust strings and byte strings\<close>

text \<open>
  A Rust \<open>String\<close> is a byte vector whose content is well-formed UTF-8, and this is how it is
  modelled: \<^typ>\<open>string\<close>, a list of 8-bit characters, holds the UTF-8 encoding. Every offset
  and length the sources compute (\<open>find\<close>, slices, \<open>len\<close>) is a byte offset, so it is the list
  position here. The functions of the standard library that look at Unicode characters
  (\<open>trim\<close>, \<open>split_whitespace\<close>, \<open>to_uppercase\<close>, \<open>char::from_u32\<close>) work on the encodings of
  those characters.

  The theory holds UTF-8 validation and lossy decoding (\<open>String::from_utf8\<close>,
  \<open>String::from_utf8_lossy\<close>), white space and trimming, \<open>lines\<close>, the two kinds of case
  conversion, and number parsing.
\<close>

type_synonym bytes = "char list"

abbreviation byte :: "char \<Rightarrow> nat" where
  "byte c \<equiv> of_char c"

abbreviation (input) CR :: char where "CR \<equiv> CHR 0x0D"
abbreviation (input) LF :: char where "LF \<equiv> CHR 0x0A"
abbreviation (input) TAB :: char where "TAB \<equiv> CHR 0x09"

abbreviation (input) crlf :: string where "crlf \<equiv> [CHR 0x0D, CHR 0x0A]"

subsection \<open>UTF-8\<close>

text \<open>
  One step of the decoder of \<open>core::str\<close>: whether the bytes at the head of the input form an
  encoded character, and how many bytes the character, or the ill-formed sequence that is
  replaced as a unit, takes. A byte beyond the end of the input reads as 0.
\<close>

definition byte_at :: "bytes \<Rightarrow> nat \<Rightarrow> nat" where
  "byte_at s i = (if i < length s then byte (s ! i) else 0)"

definition is_cont :: "nat \<Rightarrow> bool" where
  "is_cont x \<longleftrightarrow> 0x80 \<le> x \<and> x \<le> 0xBF"

definition second_of_three :: "nat \<Rightarrow> nat \<Rightarrow> bool" where
  "second_of_three x y \<longleftrightarrow>
     (if x = 0xE0 then 0xA0 \<le> y \<and> y \<le> 0xBF
      else if x = 0xED then 0x80 \<le> y \<and> y \<le> 0x9F
      else is_cont y)"

definition second_of_four :: "nat \<Rightarrow> nat \<Rightarrow> bool" where
  "second_of_four x y \<longleftrightarrow>
     (if x = 0xF0 then 0x90 \<le> y \<and> y \<le> 0xBF
      else if x = 0xF4 then 0x80 \<le> y \<and> y \<le> 0x8F
      else is_cont y)"

definition utf8_head :: "char \<Rightarrow> bytes \<Rightarrow> bool \<times> nat" where
  "utf8_head c s =
     (let x = byte c; y = byte_at s 0; z = byte_at s 1; w = byte_at s 2 in
      if x < 0x80 then (True, 1)
      else if 0xC2 \<le> x \<and> x \<le> 0xDF then
        (if \<not> is_cont y then (False, 1) else (True, 2))
      else if 0xE0 \<le> x \<and> x \<le> 0xEF then
        (if \<not> second_of_three x y then (False, 1)
         else if \<not> is_cont z then (False, 2)
         else (True, 3))
      else if 0xF0 \<le> x \<and> x \<le> 0xF4 then
        (if \<not> second_of_four x y then (False, 1)
         else if \<not> is_cont z then (False, 2)
         else if \<not> is_cont w then (False, 3)
         else (True, 4))
      else (False, 1))"

function utf8_valid :: "bytes \<Rightarrow> bool" where
  "utf8_valid [] = True"
| "utf8_valid (c # s) =
     (case utf8_head c s of (ok, n) \<Rightarrow> ok \<and> utf8_valid (drop (n - 1) s))"
  by pat_completeness auto
termination
  by (relation "measure length") auto

definition replacement_char :: string where
  "replacement_char = [CHR 0xEF, CHR 0xBF, CHR 0xBD]"

function from_utf8_lossy :: "bytes \<Rightarrow> string" where
  "from_utf8_lossy [] = []"
| "from_utf8_lossy (c # s) =
     (case utf8_head c s of (ok, n) \<Rightarrow>
        (if ok then take n (c # s) else replacement_char) @ from_utf8_lossy (drop (n - 1) s))"
  by pat_completeness auto
termination
  by (relation "measure length") auto

definition from_utf8 :: "bytes \<Rightarrow> string option" where
  "from_utf8 s = (if utf8_valid s then Some s else None)"

text \<open>The encoding of a Unicode scalar value; \<open>None\<close> for a surrogate or an out-of-range code.\<close>

definition char_from_u32 :: "nat \<Rightarrow> string option" where
  "char_from_u32 n =
     (if n < 0x80 then Some [char_of n]
      else if n < 0x800 then Some [char_of (0xC0 + n div 64), char_of (0x80 + n mod 64)]
      else if 0xD800 \<le> n \<and> n \<le> 0xDFFF then None
      else if n < 0x10000 then
        Some [char_of (0xE0 + n div 4096), char_of (0x80 + n div 64 mod 64), char_of (0x80 + n mod 64)]
      else if n < 0x110000 then
        Some [char_of (0xF0 + n div 262144), char_of (0x80 + n div 4096 mod 64),
              char_of (0x80 + n div 64 mod 64), char_of (0x80 + n mod 64)]
      else None)"

lemma utf8_head_pos: "utf8_head c s = (ok, n) \<Longrightarrow> 1 \<le> n \<and> n \<le> 4"
  by (auto simp: utf8_head_def Let_def split: if_splits)

lemma byte_at_pos: "0 < byte_at s i \<Longrightarrow> i < length s"
  by (auto simp: byte_at_def split: if_splits)

lemma byte_at_append: "i < length s \<Longrightarrow> byte_at (s @ t) i = byte_at s i"
  by (simp add: byte_at_def nth_append)

lemma second_of_three_pos: "second_of_three x y \<Longrightarrow> 0 < y"
  by (auto simp: second_of_three_def is_cont_def split: if_splits)

lemma second_of_four_pos: "second_of_four x y \<Longrightarrow> 0 < y"
  by (auto simp: second_of_four_def is_cont_def split: if_splits)

lemma is_cont_pos: "is_cont y \<Longrightarrow> 0 < y"
  by (simp add: is_cont_def)

lemmas utf8_pos = second_of_three_pos second_of_four_pos is_cont_pos

text \<open>An accepted head lies inside the input and depends on its own bytes only.\<close>

lemma utf8_head_True: "utf8_head c s = (True, n) \<longleftrightarrow>
    byte c < 0x80 \<and> n = 1 \<or>
    0xC2 \<le> byte c \<and> byte c \<le> 0xDF \<and> is_cont (byte_at s 0) \<and> n = 2 \<or>
    0xE0 \<le> byte c \<and> byte c \<le> 0xEF \<and> second_of_three (byte c) (byte_at s 0) \<and>
      is_cont (byte_at s 1) \<and> n = 3 \<or>
    0xF0 \<le> byte c \<and> byte c \<le> 0xF4 \<and> second_of_four (byte c) (byte_at s 0) \<and>
      is_cont (byte_at s 1) \<and> is_cont (byte_at s 2) \<and> n = 4"
  unfolding utf8_head_def Let_def by (auto split: if_splits)

lemma utf8_head_len: "utf8_head c s = (True, n) \<Longrightarrow> n \<le> Suc (length s)"
  unfolding utf8_head_True by (elim disjE conjE) (auto simp: Suc_le_eq dest!: utf8_pos byte_at_pos)

lemma utf8_head_cong:
  assumes "utf8_head c s = (True, n)" and "\<And>i. Suc i < n \<Longrightarrow> byte_at s' i = byte_at s i"
  shows "utf8_head c s' = (True, n)"
  using assms(1) assms(2) [of 0] assms(2) [of 1] assms(2) [of 2]
  unfolding utf8_head_True by (elim disjE conjE) simp_all

lemma utf8_head_append: "utf8_head c s = (True, n) \<Longrightarrow> utf8_head c (s @ t) = (True, n)"
  by (frule utf8_head_len, erule utf8_head_cong, rule byte_at_append) simp

lemma utf8_valid_append: "utf8_valid a \<Longrightarrow> utf8_valid (a @ b) = utf8_valid b"
proof (induction a rule: utf8_valid.induct)
  case 1
  show ?case by simp
next
  case (2 c s)
  obtain ok n where h: "utf8_head c s = (ok, n)" by fastforce
  with "2.prems" have ok: "utf8_head c s = (True, n)" and v: "utf8_valid (drop (n - 1) s)"
    by simp_all
  have "drop (n - 1) (s @ b) = drop (n - 1) s @ b"
    using utf8_head_len [OF ok] by simp
  with "2.IH" [OF h [symmetric]] v show ?case
    by (simp add: utf8_head_append [OF ok])
qed

lemma utf8_valid_head: "utf8_head c s = (True, n) \<Longrightarrow> utf8_valid (take n (c # s))"
proof -
  assume h: "utf8_head c s = (True, n)"
  have n: "1 \<le> n" "n \<le> Suc (length s)"
    using utf8_head_pos [OF h] utf8_head_len [OF h] by simp_all
  then obtain m where m: "n = Suc m" by (cases n) auto
  from h have "utf8_head c (take m s) = (True, n)"
    by (rule utf8_head_cong) (use n m in \<open>auto simp: byte_at_def\<close>)
  then show ?thesis by (simp add: m)
qed

lemma utf8_valid_replacement [simp]: "utf8_valid replacement_char"
  by (simp add: replacement_char_def utf8_head_def Let_def byte_at_def is_cont_def second_of_three_def)

text \<open>A list of two, three or four bytes is valid when its head is accepted with that length.\<close>

lemma utf8_valid_whole: "utf8_head c s = (True, Suc (length s)) \<Longrightarrow> utf8_valid (c # s)"
  by simp

lemma from_utf8_lossy_valid: "utf8_valid (from_utf8_lossy s)"
proof (induction s rule: from_utf8_lossy.induct)
  case 1
  show ?case by simp
next
  case (2 c s)
  obtain ok n where h: "utf8_head c s = (ok, n)" by fastforce
  have "utf8_valid (if ok then take n (c # s) else replacement_char)"
    using h utf8_valid_head by auto
  with "2.IH" [OF h [symmetric]] show ?case
    by (simp add: h utf8_valid_append)
qed

lemma from_utf8_lossy_id: "utf8_valid s \<Longrightarrow> from_utf8_lossy s = s"
proof (induction s rule: from_utf8_lossy.induct)
  case 1
  show ?case by simp
next
  case (2 c s)
  obtain ok n where h: "utf8_head c s = (ok, n)" by fastforce
  with "2.prems" have ok: ok and v: "utf8_valid (drop (n - 1) s)" by simp_all
  from h have "1 \<le> n" by (blast dest: utf8_head_pos)
  then have "take n (c # s) @ drop (n - 1) s = c # s"
    by (cases n) simp_all
  with "2.IH" [OF h [symmetric] v] ok show ?case
    by (simp add: h)
qed

lemma byte_char_of: "byte (char_of n) = n mod 256"
  by simp

lemma utf8_valid_three:
  fixes a b d :: nat
  shows "a < 16 \<Longrightarrow> b < 64 \<Longrightarrow> d < 64 \<Longrightarrow> (a = 0 \<Longrightarrow> 32 \<le> b) \<Longrightarrow> (a = 13 \<Longrightarrow> b < 32) \<Longrightarrow>
   utf8_valid [char_of (0xE0 + a), char_of (0x80 + b), char_of (0x80 + d)]"
  by (rule utf8_valid_whole)
    (auto simp: utf8_head_True byte_at_def is_cont_def second_of_three_def)

lemma utf8_valid_four:
  fixes a b d e :: nat
  shows "a < 5 \<Longrightarrow> b < 64 \<Longrightarrow> d < 64 \<Longrightarrow> e < 64 \<Longrightarrow> (a = 0 \<Longrightarrow> 16 \<le> b) \<Longrightarrow> (a = 4 \<Longrightarrow> b < 16) \<Longrightarrow>
   utf8_valid [char_of (0xF0 + a), char_of (0x80 + b), char_of (0x80 + d), char_of (0x80 + e)]"
  by (rule utf8_valid_whole)
    (auto simp: utf8_head_True byte_at_def is_cont_def second_of_four_def)

lemma char_from_u32_valid:
  assumes u: "char_from_u32 n = Some u"
  shows "utf8_valid u"
proof -
  have s: "\<not> (0xD800 \<le> n \<and> n \<le> 0xDFFF)"
    using u by (auto simp: char_from_u32_def split: if_splits)
  have m: "n div 4096 mod 64 < 64" "n div 64 mod 64 < 64" "n mod 64 < 64" by simp_all
  consider "n < 0x80" | "0x80 \<le> n" "n < 0x800" | "0x800 \<le> n" "n < 0x10000" | "0x10000 \<le> n" "n < 0x110000"
    using u by (auto simp: char_from_u32_def split: if_splits)
  then show ?thesis
  proof cases
    case 1
    with u have "u = [char_of n]" by (simp add: char_from_u32_def)
    with 1 show ?thesis
      by (simp del: utf8_valid.simps add: utf8_valid_whole utf8_head_True)
  next
    case 2
    then have d: "n div 64 < 32" "2 \<le> n div 64" by linarith+
    from 2 u have "u = [char_of (0xC0 + n div 64), char_of (0x80 + n mod 64)]"
      by (simp add: char_from_u32_def)
    with d m show ?thesis
      by (simp del: utf8_valid.simps add: utf8_valid_whole utf8_head_True byte_at_def is_cont_def)
  next
    case 3
    then have d: "n div 4096 < 16" by linarith
    have k: "n div 4096 = n div 64 div 64" by (simp flip: div_mult2_eq)
    have q: "n div 4096 = 0 \<Longrightarrow> 32 \<le> n div 64 mod 64" "n div 4096 = 13 \<Longrightarrow> n div 64 mod 64 < 32"
      using 3 s div_mult_mod_eq [of "n div 64" 64] div_mult_mod_eq [of n 64] m
      by (simp_all add: k)
    from 3 u have "u = [char_of (0xE0 + n div 4096), char_of (0x80 + n div 64 mod 64), char_of (0x80 + n mod 64)]"
      by (simp add: char_from_u32_def split: if_splits)
    then show ?thesis by (simp only:) (rule utf8_valid_three; use d m q in blast)
  next
    case 4
    then have d: "n div 262144 < 5" by linarith
    have l: "n div 262144 = n div 4096 div 64" by (simp flip: div_mult2_eq)
    have q: "n div 262144 = 0 \<Longrightarrow> 16 \<le> n div 4096 mod 64" "n div 262144 = 4 \<Longrightarrow> n div 4096 mod 64 < 16"
      using 4 div_mult_mod_eq [of "n div 4096" 64] div_mult_mod_eq [of n 4096] m
      by (simp_all add: l)
    from 4 u have "u = [char_of (0xF0 + n div 262144), char_of (0x80 + n div 4096 mod 64),
        char_of (0x80 + n div 64 mod 64), char_of (0x80 + n mod 64)]"
      by (simp add: char_from_u32_def)
    then show ?thesis by (simp only:) (rule utf8_valid_four; use d m q in blast)
  qed
qed

subsection \<open>White space\<close>

text \<open>
  The characters with the Unicode property \<open>White_Space\<close>, which is what \<open>char::is_whitespace\<close>
  tests: six ASCII ones, and nineteen with a longer encoding. \<open>ws_len s\<close> is the length of the
  white-space character at the head of \<open>s\<close>, 0 when there is none.
\<close>

definition ascii_ws :: "char list" where
  "ascii_ws = [CHR 0x09, CHR 0x0A, CHR 0x0B, CHR 0x0C, CHR 0x0D, CHR 0x20]"

definition wide_ws :: "string list" where
  "wide_ws = [[CHR 0xC2, CHR 0x85], [CHR 0xC2, CHR 0xA0], [CHR 0xE1, CHR 0x9A, CHR 0x80]] @
     map (\<lambda>b. [CHR 0xE2, CHR 0x80, b])
       [CHR 0x80, CHR 0x81, CHR 0x82, CHR 0x83, CHR 0x84, CHR 0x85, CHR 0x86, CHR 0x87, CHR 0x88,
        CHR 0x89, CHR 0x8A, CHR 0xA8, CHR 0xA9, CHR 0xAF] @
     [[CHR 0xE2, CHR 0x81, CHR 0x9F], [CHR 0xE3, CHR 0x80, CHR 0x80]]"

definition head_len :: "char list \<Rightarrow> string list \<Rightarrow> string \<Rightarrow> nat" where
  "head_len narrow wide s =
     (case s of [] \<Rightarrow> 0
      | c # _ \<Rightarrow>
          if c \<in> set narrow then 1
          else if byte c < 0x80 then 0
          else (case find (starts_with s) wide of None \<Rightarrow> 0 | Some w \<Rightarrow> length w))"

definition ws_len :: "string \<Rightarrow> nat" where
  "ws_len = head_len ascii_ws wide_ws"

definition ws_len_rev :: "string \<Rightarrow> nat" where
  "ws_len_rev = head_len ascii_ws (map rev wide_ws)"

text \<open>Dropping characters from the head as long as \<open>len\<close> finds one to drop.\<close>

function drop_while_len :: "(string \<Rightarrow> nat) \<Rightarrow> string \<Rightarrow> string" where
  "drop_while_len len s =
     (if s = [] \<or> len s = 0 then s else drop_while_len len (drop (len s) s))"
  by pat_completeness auto
termination
  by (relation "measure (\<lambda>(len, s). length s)") auto

declare drop_while_len.simps [simp del]

definition trim_start :: "string \<Rightarrow> string" where
  "trim_start s = drop_while_len ws_len s"

definition trim_end :: "string \<Rightarrow> string" where
  "trim_end s = rev (drop_while_len ws_len_rev (rev s))"

definition trim :: "string \<Rightarrow> string" where
  "trim s = trim_end (trim_start s)"

text \<open>\<open>split_whitespace\<close>: the maximal runs of characters that are not white space.\<close>

function split_ws :: "string \<Rightarrow> string \<Rightarrow> string list" where
  "split_ws cur [] = (if cur = [] then [] else [cur])"
| "split_ws cur (c # s) =
     (if ws_len (c # s) = 0 then split_ws (cur @ [c]) s
      else (if cur = [] then [] else [cur]) @ split_ws [] (drop (ws_len (c # s) - 1) s))"
  by pat_completeness auto
termination
  by (relation "measure (\<lambda>(cur, s). length s)") auto

definition split_whitespace :: "string \<Rightarrow> string list" where
  "split_whitespace s = split_ws [] s"

text \<open>\<open>str::lines\<close>: a line ends at a line feed; a carriage return directly before it goes too.\<close>

definition strip_cr :: "string \<Rightarrow> string" where
  "strip_cr s = (if s \<noteq> [] \<and> last s = CHR 0x0D then butlast s else s)"

fun lines_from :: "string \<Rightarrow> string \<Rightarrow> string list" where
  "lines_from cur [] = (if cur = [] then [] else [cur])"
| "lines_from cur (c # s) =
     (if c = CHR 0x0A then strip_cr cur # lines_from [] s else lines_from (cur @ [c]) s)"

definition lines :: "string \<Rightarrow> string list" where
  "lines s = lines_from [] s"

definition trim_end_matches :: "char list \<Rightarrow> string \<Rightarrow> string" where
  "trim_end_matches cs s = rev (dropWhile (\<lambda>c. c \<in> set cs) (rev s))"

subsection \<open>Case conversion\<close>

definition ascii_lower :: "char \<Rightarrow> char" where
  "ascii_lower c = (if 65 \<le> byte c \<and> byte c \<le> 90 then char_of (byte c + 32) else c)"

definition ascii_upper :: "char \<Rightarrow> char" where
  "ascii_upper c = (if 97 \<le> byte c \<and> byte c \<le> 122 then char_of (byte c - 32) else c)"

definition to_ascii_lowercase :: "string \<Rightarrow> string" where
  "to_ascii_lowercase = map ascii_lower"

definition eq_ignore_ascii_case :: "string \<Rightarrow> string \<Rightarrow> bool" where
  "eq_ignore_ascii_case a b \<longleftrightarrow> to_ascii_lowercase a = to_ascii_lowercase b"

text \<open>
  \<open>str::to_uppercase\<close> follows the Unicode tables. The sources compare its result with ASCII
  text only, so what matters of a non-ASCII character is whether its upper case contains ASCII
  letters; the table lists all seventeen characters for which it does (dotless i, long s,
  sharp s, the Latin ligatures, and the letters whose upper case is a letter and a combining
  mark). Any other non-ASCII character has an upper case without ASCII bytes, and is kept as
  it is here.
\<close>

definition special_upper :: "(string \<times> string) list" where
  "special_upper =
    [([CHR 0xC3, CHR 0x9F], ''SS''),
     ([CHR 0xC4, CHR 0xB1], ''I''),
     ([CHR 0xC5, CHR 0x89], [CHR 0xCA, CHR 0xBC] @ ''N''),
     ([CHR 0xC5, CHR 0xBF], ''S''),
     ([CHR 0xC7, CHR 0xB0], ''J'' @ [CHR 0xCC, CHR 0x8C]),
     ([CHR 0xE1, CHR 0xBA, CHR 0x96], ''H'' @ [CHR 0xCC, CHR 0xB1]),
     ([CHR 0xE1, CHR 0xBA, CHR 0x97], ''T'' @ [CHR 0xCC, CHR 0x88]),
     ([CHR 0xE1, CHR 0xBA, CHR 0x98], ''W'' @ [CHR 0xCC, CHR 0x8A]),
     ([CHR 0xE1, CHR 0xBA, CHR 0x99], ''Y'' @ [CHR 0xCC, CHR 0x8A]),
     ([CHR 0xE1, CHR 0xBA, CHR 0x9A], ''A'' @ [CHR 0xCA, CHR 0xBE]),
     ([CHR 0xEF, CHR 0xAC, CHR 0x80], ''FF''),
     ([CHR 0xEF, CHR 0xAC, CHR 0x81], ''FI''),
     ([CHR 0xEF, CHR 0xAC, CHR 0x82], ''FL''),
     ([CHR 0xEF, CHR 0xAC, CHR 0x83], ''FFI''),
     ([CHR 0xEF, CHR 0xAC, CHR 0x84], ''FFL''),
     ([CHR 0xEF, CHR 0xAC, CHR 0x85], ''ST''),
     ([CHR 0xEF, CHR 0xAC, CHR 0x86], ''ST'')]"

function to_uppercase :: "string \<Rightarrow> string" where
  "to_uppercase [] = []"
| "to_uppercase (c # s) =
     (if byte c < 0x80 then ascii_upper c # to_uppercase s
      else (case find (\<lambda>(k, v). starts_with (c # s) k) special_upper of
              None \<Rightarrow> c # to_uppercase s
            | Some (k, v) \<Rightarrow> v @ to_uppercase (drop (length k - 1) s)))"
  by pat_completeness auto
termination
  by (relation "measure length") auto

subsection \<open>Numbers\<close>

text \<open>
  \<open>u32::from_str_radix\<close> and \<open>str::parse::<u32>\<close>: an optional plus sign, at least one digit,
  no overflow.
\<close>

definition digit_value :: "nat \<Rightarrow> char \<Rightarrow> nat option" where
  "digit_value radix c =
     (let x = byte c;
          v = (if 48 \<le> x \<and> x \<le> 57 then x - 48
               else if 97 \<le> x \<and> x \<le> 122 then x - 87
               else if 65 \<le> x \<and> x \<le> 90 then x - 55
               else radix)
      in if v < radix then Some v else None)"

fun parse_digits :: "nat \<Rightarrow> nat \<Rightarrow> nat \<Rightarrow> string \<Rightarrow> nat option" where
  "parse_digits radix bound acc [] = Some acc"
| "parse_digits radix bound acc (c # s) =
     (case digit_value radix c of
        None \<Rightarrow> None
      | Some d \<Rightarrow>
          if bound < radix * acc + d then None
          else parse_digits radix bound (radix * acc + d) s)"

definition u32_from_str_radix :: "nat \<Rightarrow> string \<Rightarrow> nat option" where
  "u32_from_str_radix radix s =
     (let digits = (case s of c # t \<Rightarrow> if c = CHR ''+'' then t else s | [] \<Rightarrow> s)
      in if digits = [] then None else parse_digits radix (2 ^ 32 - 1) 0 digits)"

subsection \<open>Words\<close>

definition ws_chars :: "string list" where
  "ws_chars = map (\<lambda>c. [c]) ascii_ws @ wide_ws"

definition ws_tail :: "char \<Rightarrow> bool" where
  "ws_tail c \<longleftrightarrow> 0x80 \<le> byte c \<and> byte c \<le> 0xBF"

lemma find_Some_in: "find P xs = Some x \<Longrightarrow> P x \<and> x \<in> set xs"
  by (auto simp: find_Some_iff)

lemma head_len_pos:
  assumes "head_len narrow wide s \<noteq> 0"
  shows "\<exists>w\<in>set (map (\<lambda>c. [c]) narrow @ wide). starts_with s w \<and> length w = head_len narrow wide s"
proof (cases s)
  case Nil
  with assms show ?thesis by (simp add: head_len_def)
next
  case (Cons c t)
  show ?thesis
  proof (cases "c \<in> set narrow")
    case True
    with Cons show ?thesis by (intro bexI [of _ "[c]"]) (auto simp: head_len_def starts_with_iff)
  next
    case False
    with assms Cons obtain w where w: "find (starts_with s) wide = Some w" "head_len narrow wide s = length w"
      by (auto simp: head_len_def split: if_splits option.splits)
    with find_Some_in [OF w(1)] show ?thesis by auto
  qed
qed

lemma ws_len_pos: "ws_len s \<noteq> 0 \<Longrightarrow> \<exists>w\<in>set ws_chars. starts_with s w \<and> length w = ws_len s"
  using head_len_pos [of ascii_ws wide_ws s] by (simp add: ws_len_def ws_chars_def)

lemma ws_len_rev_pos:
  "ws_len_rev s \<noteq> 0 \<Longrightarrow> \<exists>w\<in>set ws_chars. starts_with s (rev w) \<and> length w = ws_len_rev s"
proof -
  assume "ws_len_rev s \<noteq> 0"
  then obtain v where v: "v \<in> set (map (\<lambda>c. [c]) ascii_ws @ map rev wide_ws)" "starts_with s v" "length v = ws_len_rev s"
    using head_len_pos [of ascii_ws "map rev wide_ws" s] unfolding ws_len_rev_def by blast
  from v(1) have "rev v \<in> set ws_chars" by (auto simp: ws_chars_def)
  with v(2,3) show ?thesis by (intro bexI [of _ "rev v"]) simp_all
qed

lemma ws_chars_shape: "w \<in> set ws_chars \<Longrightarrow> w \<noteq> [] \<and> \<not> ws_tail (hd w) \<and> (\<forall>c\<in>set (tl w). ws_tail c)"
  by (auto simp: ws_chars_def ascii_ws_def wide_ws_def ws_tail_def)

lemma wide_ws_tail: "w \<in> set wide_ws \<Longrightarrow> w \<noteq> [] \<and> (\<forall>c\<in>set (tl w). ws_tail c)"
  using ws_chars_shape [of w] by (simp add: ws_chars_def)

text \<open>A white-space character does not reach across the start of another character.\<close>

lemma starts_with_append_clean:
  assumes "a \<noteq> []" and "r = [] \<or> \<not> ws_tail (hd r)" and "\<forall>c\<in>set (tl w). ws_tail c"
  shows "starts_with (a @ r) w = starts_with a w"
proof
  assume "starts_with (a @ r) w"
  then obtain t where t: "a @ r = w @ t" by (auto simp: starts_with_iff)
  then consider u where "a = w @ u" | u where "w = a @ u" "r = u @ t" "u \<noteq> []"
    unfolding append_eq_append_conv2 by (metis append_Nil2)
  then show "starts_with a w"
  proof cases
    case 1
    then show ?thesis by (auto simp: starts_with_iff)
  next
    case 2
    with assms(1) have "hd u \<in> set (tl w)" by (cases a) auto
    with 2 assms(2,3) show ?thesis by (cases u) auto
  qed
qed (auto simp: starts_with_iff)

lemma ws_len_append:
  assumes "a \<noteq> []" and "r = [] \<or> \<not> ws_tail (hd r)"
  shows "ws_len (a @ r) = ws_len a"
proof -
  have "find (starts_with (a @ r)) wide_ws = find (starts_with a) wide_ws"
    using starts_with_append_clean [OF assms] wide_ws_tail by (intro find_cong) auto
  with assms(1) show ?thesis by (cases a) (simp_all add: ws_len_def head_len_def)
qed

lemma ws_len_prefix: "ws_len (a @ r) = 0 \<Longrightarrow> ws_len a = 0"
proof (rule ccontr)
  assume 0: "ws_len (a @ r) = 0" and n: "ws_len a \<noteq> 0"
  then obtain c t where a: "a = c # t" by (cases a) (auto simp: ws_len_def head_len_def)
  with 0 have c: "c \<notin> set ascii_ws" by (auto simp: ws_len_def head_len_def)
  with n a obtain w where w: "find (starts_with a) wide_ws = Some w" "\<not> byte c < 0x80"
    by (auto simp: ws_len_def head_len_def split: if_splits option.splits)
  with find_Some_in [OF w(1)] have "starts_with (a @ r) w" "w \<in> set wide_ws"
    by (auto simp: starts_with_iff)
  then obtain v where v: "find (starts_with (a @ r)) wide_ws = Some v"
    by (cases "find (starts_with (a @ r)) wide_ws") (auto simp: find_None_iff)
  with find_Some_in [OF v] wide_ws_tail [of v] c w(2) 0 a show False
    by (simp add: ws_len_def head_len_def)
qed

definition no_ws :: "string \<Rightarrow> bool" where
  "no_ws w \<longleftrightarrow> (\<forall>i<length w. ws_len (drop i w) = 0)"

lemma no_ws_Cons: "no_ws (c # w) \<longleftrightarrow> ws_len (c # w) = 0 \<and> no_ws w"
  unfolding no_ws_def by (simp add: All_less_Suc2)

lemma split_ws_word:
  "no_ws x \<Longrightarrow> r = [] \<or> \<not> ws_tail (hd r) \<Longrightarrow> split_ws cur (x @ r) = split_ws (cur @ x) r"
proof (induction x arbitrary: cur)
  case Nil
  then show ?case by simp
next
  case (Cons c x)
  then show ?case using ws_len_append [of "c # x" r] by (simp add: no_ws_Cons)
qed

lemma split_ws_no_ws:
  "(\<forall>i<length cur. ws_len (drop i cur @ s) = 0) \<Longrightarrow> \<forall>w\<in>set (split_ws cur s). w \<noteq> [] \<and> no_ws w"
proof (induction cur s rule: split_ws.induct)
  case (1 cur)
  then show ?case by (simp add: no_ws_def)
next
  case (2 cur c s)
  show ?case
  proof (cases "ws_len (c # s) = 0")
    case True
    have "\<forall>i<Suc (length cur). ws_len (drop i (cur @ [c]) @ s) = 0"
      using "2.prems" True by (simp add: All_less_Suc)
    then show ?thesis using "2.IH"(1) [OF True] True by simp
  next
    case False
    have "no_ws cur" using "2.prems" ws_len_prefix by (auto simp: no_ws_def)
    then show ?thesis using "2.IH"(2) [OF False] False by simp
  qed
qed

lemma split_whitespace_words: "w \<in> set (split_whitespace s) \<Longrightarrow> w \<noteq> [] \<and> no_ws w"
  using split_ws_no_ws [of "[]" s] by (simp add: split_whitespace_def)

lemma split_ws_space: "split_ws cur (CHR 0x20 # s) = (if cur = [] then [] else [cur]) @ split_ws [] s"
proof -
  have "ws_len (CHR 0x20 # s) = 1" by (simp add: ws_len_def head_len_def ascii_ws_def)
  then show ?thesis by simp
qed

lemma split_whitespace_join:
  "(\<forall>w\<in>set ws. w \<noteq> [] \<and> no_ws w) \<Longrightarrow> split_whitespace (join '' '' ws) = ws"
proof (induction "'' ''" ws rule: join.induct)
  case 1
  then show ?case by (simp add: split_whitespace_def)
next
  case (2 x)
  then show ?case using split_ws_word [of x "[]" "[]"] by (simp add: split_whitespace_def)
next
  case (3 x y xs)
  then show ?case
    using split_ws_word [of x "CHR 0x20 # join '' '' (y # xs)" "[]"]
    by (simp add: split_whitespace_def split_ws_space ws_tail_def del: split_ws.simps)
qed

lemma ws_len_ws: "w \<in> set ws_chars \<Longrightarrow> ws_len w = length w"
  by (auto simp: ws_chars_def ascii_ws_def wide_ws_def ws_len_def head_len_def starts_with_def)

lemma split_ws_end: "w \<in> set ws_chars \<Longrightarrow> split_ws cur (s @ w) = split_ws cur s"
proof (induction cur s rule: split_ws.induct)
  case (1 cur)
  then have "ws_len w = length w" "w \<noteq> []" using ws_len_ws ws_chars_shape by auto
  then show ?case by (cases w) auto
next
  case (2 cur c s)
  have l: "ws_len (c # s @ w) = ws_len (c # s)"
    using ws_len_append [of "c # s" w] ws_chars_shape [OF "2.prems"] by simp
  show ?case
  proof (cases "ws_len (c # s) = 0")
    case True
    with l "2.IH"(1) "2.prems" show ?thesis by simp
  next
    case False
    then obtain u where "starts_with (c # s) u" "length u = ws_len (c # s)"
      using ws_len_pos by blast
    then have "ws_len (c # s) - 1 \<le> length s"
      by (auto simp: starts_with_iff Cons_eq_append_conv dest!: arg_cong [where f = length])
    with l False "2.IH"(2) "2.prems" show ?thesis by simp
  qed
qed

lemma split_whitespace_trim_start: "split_whitespace (trim_start s) = split_whitespace s"
  unfolding split_whitespace_def trim_start_def
proof (induction ws_len s rule: drop_while_len.induct)
  case (1 s)
  show ?case
  proof (cases "s = [] \<or> ws_len s = 0")
    case True
    then show ?thesis by (simp add: drop_while_len.simps [of ws_len s])
  next
    case False
    then have "split_ws [] (drop (ws_len s) s) = split_ws [] s"
      by (cases s; cases "ws_len s") auto
    with False 1 show ?thesis by (simp add: drop_while_len.simps [of ws_len s])
  qed
qed

lemma split_whitespace_trim_end: "split_whitespace (trim_end s) = split_whitespace s"
proof -
  have "split_ws [] (rev (drop_while_len ws_len_rev s)) = split_ws [] (rev s)" for s
  proof (induction ws_len_rev s rule: drop_while_len.induct)
    case (1 s)
    show ?case
    proof (cases "s = [] \<or> ws_len_rev s = 0")
      case True
      then show ?thesis by (simp add: drop_while_len.simps [of ws_len_rev s])
    next
      case False
      then obtain w where w: "w \<in> set ws_chars" "starts_with s (rev w)" "length w = ws_len_rev s"
        using ws_len_rev_pos by blast
      then obtain t where t: "s = rev w @ t" by (auto simp: starts_with_iff)
      have "split_ws [] (rev (drop (ws_len_rev s) s)) = split_ws [] (rev s)"
        using split_ws_end [OF w(1), of "[]" "rev t"] w(3) by (simp add: t)
      with False 1 show ?thesis by (simp add: drop_while_len.simps [of ws_len_rev s])
    qed
  qed
  from this [of "rev s"] show ?thesis by (simp add: split_whitespace_def trim_end_def)
qed

lemma split_whitespace_trim [simp]: "split_whitespace (trim s) = split_whitespace s"
  by (simp add: trim_def split_whitespace_trim_start split_whitespace_trim_end)

lemma split_whitespace_Nil: "split_whitespace [] = []"
  by (simp add: split_whitespace_def)

lemma ascii_lower_other:
  "\<not> (97 \<le> byte d \<and> byte d \<le> 122) \<Longrightarrow> \<not> (65 \<le> byte d \<and> byte d \<le> 90) \<Longrightarrow> ascii_lower c = d \<longleftrightarrow> c = d"
proof
  assume d: "\<not> (97 \<le> byte d \<and> byte d \<le> 122)" "\<not> (65 \<le> byte d \<and> byte d \<le> 90)" and "ascii_lower c = d"
  then have "byte c = byte d" by (auto simp: ascii_lower_def split: if_splits)
  then show "c = d" by (simp only: of_char_eq_iff)
qed (auto simp: ascii_lower_def)

lemma ascii_lower_lt: "ascii_lower c = CHR ''<'' \<longleftrightarrow> c = CHR ''<''"
  by (rule ascii_lower_other) simp_all

lemma ascii_lower_gt: "ascii_lower c = CHR ''>'' \<longleftrightarrow> c = CHR ''>''"
  by (rule ascii_lower_other) simp_all

lemma to_ascii_lowercase_append [simp]:
  "to_ascii_lowercase (a @ b) = to_ascii_lowercase a @ to_ascii_lowercase b"
  by (simp add: to_ascii_lowercase_def)

lemma trim_blank: "split_whitespace l = [] \<Longrightarrow> trim l = []"
proof -
  assume "split_whitespace l = []"
  then have "split_ws [] (trim_start l) = []"
    using split_whitespace_trim_start [of l] by (simp add: split_whitespace_def)
  moreover have "s = [] \<or> ws_len s \<noteq> 0 \<or> split_ws cur s \<noteq> []" for s cur
  proof (cases s)
    case (Cons c t)
    have "split_ws (x # xs) t \<noteq> []" for x xs
      by (induction "x # xs" t arbitrary: xs rule: split_ws.induct) auto
    with Cons show ?thesis by (cases cur) auto
  qed simp
  moreover have "trim_start l = [] \<or> ws_len (trim_start l) = 0"
    unfolding trim_start_def
  proof (induction ws_len l rule: drop_while_len.induct)
    case (1 l)
    then show ?case by (auto simp: drop_while_len.simps [of ws_len l])
  qed
  ultimately have "trim_start l = []" by blast
  then show ?thesis by (simp add: trim_def trim_end_def drop_while_len.simps)
qed

subsection \<open>Paths\<close>

text \<open>\<open>Path::join\<close> with a file name.\<close>

definition path_join :: "string \<Rightarrow> string \<Rightarrow> string" where
  "path_join dir file =
     (if dir = [] then file else if last dir = CHR ''/'' then dir @ file else dir @ ''/'' @ file)"

text \<open>
  \<open>Path::parent\<close> on Unix. The segments between slashes that are empty or a dot are no components,
  except for the first one: an empty first segment is the root, a dot there the current
  directory. The parent is the path up to the last component, without the empty segments that
  then end it; a root or an empty path has none.
\<close>

fun trim_segments :: "string list \<Rightarrow> string list" where
  "trim_segments (s # t # rest) =
     (if s = [] \<or> s = ''.'' then trim_segments (t # rest) else s # t # rest)"
| "trim_segments segs = segs"

definition path_parent :: "string \<Rightarrow> string option" where
  "path_parent path =
     (if path = [] then None
      else
        (case trim_segments (rev (split_on (CHR ''/'') path)) of
           s # t # rest \<Rightarrow>
             (case trim_segments (t # rest) of
                [[]] \<Rightarrow> Some ''/''
              | segs \<Rightarrow> Some (join ''/'' (rev segs)))
         | [s] \<Rightarrow> if s = [] then None else Some []
         | [] \<Rightarrow> None))"

lemma path_parent_examples:
  "path_parent ''data/queue.db'' = Some ''data''" "path_parent ''queue.db'' = Some []"
  "path_parent ''/var/lib/x/queue.db'' = Some ''/var/lib/x''" "path_parent ''/queue.db'' = Some ''/''"
  "path_parent ''./queue.db'' = Some ''.''" "path_parent ''a//./b/'' = Some ''a''"
  "path_parent ''/'' = None" "path_parent [] = None"
  by (simp_all add: path_parent_def)

end
