(* ===== verification/Errors.thy ===== *)
theory Errors
  imports Rust_Text
begin

section \<open>The error type\<close>

text \<open>
  The enum of \<^verbatim>\<open>src/error.rs\<close> and its \<open>Display\<close> text. An error of another crate or of the
  operating system that a variant wraps (\<open>std::io::Error\<close>, \<open>toml::de::Error\<close>,
  \<open>rusqlite::Error\<close>) is represented by its message.
\<close>

datatype chimney_error =
    Smtp string
  | SmtpSizeExceeded
  | SmtpLineTooLong
  | SmtpDataIncomplete
  | Matrix string
  | Config string
  | Template string
  | Io string
  | Toml string
  | Queue string
  | QueueFull
  | Storage string

type_synonym 'a result = "chimney_error + 'a"

fun error_to_string :: "chimney_error \<Rightarrow> string" where
  "error_to_string (Smtp e) = ''SMTP error: '' @ e"
| "error_to_string SmtpSizeExceeded = ''SMTP message size exceeded''"
| "error_to_string SmtpLineTooLong = ''SMTP line exceeded the maximum length''"
| "error_to_string SmtpDataIncomplete = ''SMTP DATA ended before the terminator''"
| "error_to_string (Matrix e) = ''Matrix error: '' @ e"
| "error_to_string (Config e) = ''Configuration error: '' @ e"
| "error_to_string (Template e) = ''Template error: '' @ e"
| "error_to_string (Io e) = ''IO error: '' @ e"
| "error_to_string (Toml e) = ''TOML error: '' @ e"
| "error_to_string (Queue e) = ''Queue error: '' @ e"
| "error_to_string QueueFull = ''queue is full''"
| "error_to_string (Storage e) = ''Storage error: '' @ e"

fun is_ok :: "'a result \<Rightarrow> bool" where
  "is_ok (Inr _) = True"
| "is_ok (Inl _) = False"

lemma is_ok_iff: "is_ok r \<longleftrightarrow> (\<exists>a. r = Inr a)"
  by (cases r) simp_all

end
