(* ===== verification/Settings.thy ===== *)
theory Settings
  imports Errors
begin

section \<open>The configuration data (src/config.rs, structs and defaults)\<close>

text \<open>
  The configuration records, with the fields of the source, and the default functions named in
  the \<open>serde\<close> attributes. Further: the parser of the standard library for socket addresses,
  which the validation and the SMTP listener use.
\<close>

record smtp_config =
  smtp_bind :: string
  max_message_size :: usize
  smtp_timeout :: u64
  max_connections :: usize
  max_session_seconds :: u64

record route_config =
  rt_to :: "string option"
  rt_from :: "string option"
  rt_room_id :: string

record matrix_credentials =
  password :: "string option"
  access_token :: "string option"
  device_id :: "string option"

record matrix_config =
  homeserver :: string
  user_id :: string
  device_name :: string
  room_id :: string
  store_path :: string
  require_e2ee :: bool
  message_template :: string
  mx_routes :: "route_config list"
  credentials :: matrix_credentials

record logging_config =
  log_level :: string
  log_format :: string

record queue_config =
  q_max_retries :: u32
  q_retry_backoff :: u64
  db_path :: string
  q_max_len :: usize

record config =
  cfg_smtp :: smtp_config
  cfg_matrix :: matrix_config
  cfg_logging :: logging_config
  cfg_queue :: queue_config

subsection \<open>Defaults\<close>

definition default_max_connections :: usize where "default_max_connections = 100"

definition default_max_session_seconds :: u64 where "default_max_session_seconds = 300"

definition default_require_e2ee :: bool where "default_require_e2ee = True"

definition default_queue_db_path :: string where
  "default_queue_db_path = ''/var/lib/chimney-post/queue.db''"

definition default_queue_max_len :: usize where "default_queue_max_len = 10000"

definition default_message_template :: string where
  "default_message_template =
     ''{%- if from %}From: {{ from }}'' @ [LF] @ ''{% endif %}'' @
     ''{%- if to %}To: {{ to }}'' @ [LF] @ ''{% endif %}'' @
     ''{%- if subject %}Subject: {{ subject }}{% else %}Subject: (none){% endif %}'' @ [LF, LF] @
     ''{%- if body and body is string and body | trim %}'' @ [LF] @ ''{{ body }}'' @
     ''{% else %}'' @ [LF] @ ''(empty message body)'' @ ''{% endif %}''"

text \<open>What the derived deserializer puts in for a key that the file does not have.\<close>

record serde_defaults =
  d_max_connections :: usize
  d_max_session_seconds :: u64
  d_require_e2ee :: bool
  d_message_template :: string
  d_routes :: "route_config list"
  d_rt_to :: "string option"
  d_rt_from :: "string option"
  d_db_path :: string
  d_max_len :: usize

definition config_defaults :: serde_defaults where
  "config_defaults =
     \<lparr>d_max_connections = default_max_connections,
      d_max_session_seconds = default_max_session_seconds,
      d_require_e2ee = default_require_e2ee,
      d_message_template = default_message_template,
      d_routes = [], d_rt_to = None, d_rt_from = None,
      d_db_path = default_queue_db_path,
      d_max_len = default_queue_max_len\<rparr>"

subsection \<open>Socket addresses\<close>

text \<open>
  The recursive-descent parser of \<open>core::net\<close>: each reader takes the text that is left and
  gives back a value and what is left behind it, or \<open>None\<close>, in which case nothing is consumed.
\<close>

type_synonym 'a reading = "('a \<times> string) option"

datatype ip_addr = V4 "nat list" | V6 "nat list"

definition read_given_char :: "char \<Rightarrow> string \<Rightarrow> unit reading" where
  "read_given_char c s = (case s of x # t \<Rightarrow> if x = c then Some ((), t) else None | [] \<Rightarrow> None)"

fun read_digits :: "nat \<Rightarrow> nat option \<Rightarrow> nat \<Rightarrow> nat \<Rightarrow> string \<Rightarrow> (nat \<times> nat) reading" where
  "read_digits radix max_digits acc count [] = Some ((acc, count), [])"
| "read_digits radix max_digits acc count (c # s) =
     (case digit_value radix c of
        None \<Rightarrow> Some ((acc, count), c # s)
      | Some d \<Rightarrow>
          if (case max_digits of Some m \<Rightarrow> m < count + 1 | None \<Rightarrow> False) then None
          else read_digits radix max_digits (radix * acc + d) (count + 1) s)"

definition read_number :: "nat \<Rightarrow> nat option \<Rightarrow> bool \<Rightarrow> nat \<Rightarrow> string \<Rightarrow> nat reading" where
  "read_number radix max_digits allow_zero_prefix bound s =
     (case read_digits radix max_digits 0 0 s of
        None \<Rightarrow> None
      | Some ((v, count), t) \<Rightarrow>
          if count = 0 then None
          else if \<not> allow_zero_prefix \<and> hd s = CHR ''0'' \<and> 1 < count then None
          else if bound < v then None
          else Some (v, t))"

definition read_separator :: "char \<Rightarrow> nat \<Rightarrow> (string \<Rightarrow> 'a reading) \<Rightarrow> string \<Rightarrow> 'a reading" where
  "read_separator sep i inner s =
     (if 0 < i then (case read_given_char sep s of None \<Rightarrow> None | Some (_, t) \<Rightarrow> inner t) else inner s)"

fun read_octets :: "nat list \<Rightarrow> string \<Rightarrow> nat list reading" where
  "read_octets [] s = Some ([], s)"
| "read_octets (i # slots) s =
     (case read_separator (CHR ''.'') i (read_number 10 (Some 3) False 255) s of
        None \<Rightarrow> None
      | Some (x, t) \<Rightarrow> map_option (\<lambda>(xs, u). (x # xs, u)) (read_octets slots t))"

definition read_ipv4_addr :: "string \<Rightarrow> nat list reading" where
  "read_ipv4_addr s = read_octets [0, 1, 2, 3] s"

text \<open>The groups for the given slots; an IPv4 tail takes two, so it needs a further slot.\<close>

fun read_groups :: "nat list \<Rightarrow> string \<Rightarrow> (nat list \<times> bool) \<times> string" where
  "read_groups [] s = (([], False), s)"
| "read_groups (i # slots) s =
     (case (if slots \<noteq> [] then read_separator (CHR '':'') i read_ipv4_addr s else None) of
        Some (o4, t) \<Rightarrow> (([o4 ! 0 * 256 + o4 ! 1, o4 ! 2 * 256 + o4 ! 3], True), t)
      | None \<Rightarrow>
          (case read_separator (CHR '':'') i (read_number 16 (Some 4) True 65535) s of
             None \<Rightarrow> (([], False), s)
           | Some (g, t) \<Rightarrow>
               (case read_groups slots t of ((gs, v4), u) \<Rightarrow> ((g # gs, v4), u))))"

definition read_ipv6_addr :: "string \<Rightarrow> nat list reading" where
  "read_ipv6_addr s =
     (case read_groups [0, 1, 2, 3, 4, 5, 6, 7] s of
        ((head, head_ipv4), t) \<Rightarrow>
          if length head = 8 then Some (head, t)
          else if head_ipv4 then None
          else
            (case read_given_char (CHR '':'') t of
               None \<Rightarrow> None
             | Some (_, t) \<Rightarrow>
                 (case read_given_char (CHR '':'') t of
                    None \<Rightarrow> None
                  | Some (_, t) \<Rightarrow>
                      (case read_groups (take (8 - (length head + 1)) [0, 1, 2, 3, 4, 5, 6]) t of
                         ((tail, _), t) \<Rightarrow>
                           Some (head @ replicate (8 - length head - length tail) 0 @ tail, t)))))"

definition read_port :: "string \<Rightarrow> nat reading" where
  "read_port s =
     (case read_given_char (CHR '':'') s of
        None \<Rightarrow> None
      | Some (_, t) \<Rightarrow> read_number 10 None True 65535 t)"

definition read_scope_id :: "string \<Rightarrow> nat reading" where
  "read_scope_id s =
     (case read_given_char (CHR ''%'') s of
        None \<Rightarrow> None
      | Some (_, t) \<Rightarrow> read_number 10 None True (2 ^ 32 - 1) t)"

definition read_socket_addr_v4 :: "string \<Rightarrow> (ip_addr \<times> nat) reading" where
  "read_socket_addr_v4 s =
     (case read_ipv4_addr s of
        None \<Rightarrow> None
      | Some (a, t) \<Rightarrow> map_option (\<lambda>(p, u). ((V4 a, p), u)) (read_port t))"

definition read_socket_addr_v6 :: "string \<Rightarrow> (ip_addr \<times> nat) reading" where
  "read_socket_addr_v6 s =
     (case read_given_char (CHR ''['') s of
        None \<Rightarrow> None
      | Some (_, t) \<Rightarrow>
          (case read_ipv6_addr t of
             None \<Rightarrow> None
           | Some (a, t) \<Rightarrow>
               (case read_given_char (CHR '']'') (case read_scope_id t of Some (_, u) \<Rightarrow> u | None \<Rightarrow> t) of
                  None \<Rightarrow> None
                | Some (_, t) \<Rightarrow> map_option (\<lambda>(p, u). ((V6 a, p), u)) (read_port t))))"

definition parse_socket_addr :: "string \<Rightarrow> (ip_addr \<times> nat) option" where
  "parse_socket_addr s =
     (case (case read_socket_addr_v4 s of Some r \<Rightarrow> Some r | None \<Rightarrow> read_socket_addr_v6 s) of
        Some (a, []) \<Rightarrow> Some a
      | _ \<Rightarrow> None)"

lemmas socket_addr_defs = parse_socket_addr_def read_socket_addr_v4_def read_socket_addr_v6_def read_scope_id_def
  read_port_def read_ipv6_addr_def read_ipv4_addr_def read_separator_def read_number_def read_given_char_def
  digit_value_def Let_def

lemma parse_socket_addr_examples:
  "parse_socket_addr ''127.0.0.1:2525'' = Some (V4 [127, 0, 0, 1], 2525)"
  "parse_socket_addr ''[::1]:25'' = Some (V6 [0, 0, 0, 0, 0, 0, 0, 1], 25)"
  "parse_socket_addr ''127.0.0.01:25'' = None"
  "parse_socket_addr ''localhost:25'' = None"
  "parse_socket_addr ''127.0.0.1:65536'' = None"
  by (simp_all add: socket_addr_defs) (simp add: eval_nat_numeral)

end
