(* ===== verification/Interfaces.thy ===== *)
theory Interfaces
  imports Errors
begin

section \<open>The interfaces between the components\<close>

text \<open>
  The contracts one component relies on and another provides, each as a locale with the
  lemmas its clients share: \<open>durable_queue\<close> (what the SMTP session and the delivery worker
  rely on in the outbox), \<open>delivery_sink\<close> (what the worker relies on in the trait \<open>MessageSink\<close>),
  \<open>step_invariant\<close> (the induction principle of the state machines) and \<open>simulation\<close> (refinement
  of one by another). Every locale is interpreted on the model in the theory of the component
  that provides it.
\<close>

subsection \<open>Invariants of transition systems\<close>

inductive reach :: "('s \<Rightarrow> bool) \<Rightarrow> ('s \<Rightarrow> 's \<Rightarrow> bool) \<Rightarrow> 's \<Rightarrow> bool"
  for init :: "'s \<Rightarrow> bool" and step :: "'s \<Rightarrow> 's \<Rightarrow> bool" where
  start: "init s \<Longrightarrow> reach init step s"
| move: "reach init step s \<Longrightarrow> step s t \<Longrightarrow> reach init step t"

locale step_invariant =
  fixes init :: "'s \<Rightarrow> bool" and step :: "'s \<Rightarrow> 's \<Rightarrow> bool" and inv :: "'s \<Rightarrow> bool"
  assumes inv_init: "init s \<Longrightarrow> inv s"
    and inv_step: "inv s \<Longrightarrow> step s t \<Longrightarrow> inv t"
begin

lemma reach_inv: "reach init step s \<Longrightarrow> inv s"
  by (induction rule: reach.induct) (auto intro: inv_init inv_step)

text \<open>What every step keeps is kept along a run from any reachable state.\<close>

lemma rtranclp_inv: "step\<^sup>*\<^sup>* s t \<Longrightarrow> inv s \<Longrightarrow> inv t"
  by (induction rule: rtranclp_induct) (auto intro: inv_step)

lemma rtranclp_stable:
  assumes "step\<^sup>*\<^sup>* s t" and "inv s" and "P s"
    and "\<And>a b. inv a \<Longrightarrow> step a b \<Longrightarrow> P a \<Longrightarrow> P b"
  shows "P t"
  using assms(1-3)
proof (induction rule: rtranclp_induct)
  case base
  then show ?case by simp
next
  case (step t u)
  then show ?case using assms(4) rtranclp_inv by blast
qed

end

subsection \<open>Refinement between transition systems\<close>

text \<open>
  A forward simulation on the states an invariant describes. Steps of the detailed system may
  be invisible in the abstract one.
\<close>

locale simulation = step_invariant init step inv
  for init :: "'s \<Rightarrow> bool" and step :: "'s \<Rightarrow> 's \<Rightarrow> bool" and inv :: "'s \<Rightarrow> bool" +
  fixes ainit :: "'a \<Rightarrow> bool" and astep :: "'a \<Rightarrow> 'a \<Rightarrow> bool" and abs :: "'s \<Rightarrow> 'a"
  assumes sim_init: "init s \<Longrightarrow> ainit (abs s)"
    and sim_step: "inv s \<Longrightarrow> step s t \<Longrightarrow> astep\<^sup>*\<^sup>* (abs s) (abs t)"
begin

lemma sim_run: "step\<^sup>*\<^sup>* s t \<Longrightarrow> inv s \<Longrightarrow> astep\<^sup>*\<^sup>* (abs s) (abs t)"
proof (induction rule: rtranclp_induct)
  case base
  show ?case by simp
next
  case (step t u)
  then have "astep\<^sup>*\<^sup>* (abs s) (abs t)" "astep\<^sup>*\<^sup>* (abs t) (abs u)"
    using sim_step rtranclp_inv by blast+
  then show ?case by (rule rtranclp_trans)
qed

lemma sim_reach: "reach init step s \<Longrightarrow> reach ainit astep (abs s)"
proof (induction rule: reach.induct)
  case (start s)
  then show ?case by (intro reach.start sim_init)
next
  case (move s t)
  have "astep\<^sup>*\<^sup>* (abs s) (abs t)" by (rule sim_step [OF reach_inv [OF move(1)] move(2)])
  then show ?case using move(3) by (induction rule: rtranclp_induct) (auto intro: reach.move)
qed

text \<open>An invariant of the abstract system holds of the detailed one.\<close>

lemma sim_invariant:
  assumes "step_invariant ainit astep ainv" and "reach init step s"
  shows "ainv (abs s)"
  using step_invariant.reach_inv [OF assms(1) sim_reach [OF assms(2)]] .

end

subsection \<open>The durable queue\<close>

datatype 'm queue_call = Enqueue_call 'm | Ack_call i64 | Retry_call i64 u32 i64 | Bury_call i64 string

fun queue_step ::
  "('m \<Rightarrow> 's \<Rightarrow> i64 result \<times> 's) \<Rightarrow> (i64 \<Rightarrow> 's \<Rightarrow> unit result \<times> 's) \<Rightarrow>
   (i64 \<Rightarrow> u32 \<Rightarrow> i64 \<Rightarrow> 's \<Rightarrow> unit result \<times> 's) \<Rightarrow> (i64 \<Rightarrow> string \<Rightarrow> 's \<Rightarrow> unit result \<times> 's) \<Rightarrow>
   'm queue_call \<Rightarrow> 's \<Rightarrow> 's" where
  "queue_step enq ack retry bury (Enqueue_call m) s = snd (enq m s)"
| "queue_step enq ack retry bury (Ack_call i) s = snd (ack i s)"
| "queue_step enq ack retry bury (Retry_call i n at) s = snd (retry i n at s)"
| "queue_step enq ack retry bury (Bury_call i e) s = snd (bury i e s)"

definition good_call :: "('m \<Rightarrow> bool) \<Rightarrow> 'm queue_call \<Rightarrow> bool" where
  "good_call good c \<longleftrightarrow>
     (case c of Enqueue_call m \<Rightarrow> good m | Retry_call i n at \<Rightarrow> is_i64 at | _ \<Rightarrow> True)"

definition releases :: "i64 \<Rightarrow> 'm queue_call \<Rightarrow> bool" where
  "releases i c \<longleftrightarrow> (case c of Ack_call j \<Rightarrow> j = i | Bury_call j e \<Rightarrow> j = i | _ \<Rightarrow> False)"

locale durable_queue =
  fixes inv :: "'s \<Rightarrow> bool"
    and queued :: "'s \<Rightarrow> i64 \<rightharpoonup> 'm"
    and issued :: "'s \<Rightarrow> i64 set"
    and buried :: "'s \<Rightarrow> 'm list"
    and good :: "'m \<Rightarrow> bool"
    and enq :: "'m \<Rightarrow> 's \<Rightarrow> i64 result \<times> 's"
    and ack :: "i64 \<Rightarrow> 's \<Rightarrow> unit result \<times> 's"
    and retry :: "i64 \<Rightarrow> u32 \<Rightarrow> i64 \<Rightarrow> 's \<Rightarrow> unit result \<times> 's"
    and bury :: "i64 \<Rightarrow> string \<Rightarrow> 's \<Rightarrow> unit result \<times> 's"
  assumes enq_inv: "inv s \<Longrightarrow> enq m s = (r, s') \<Longrightarrow> inv s'"
    and enq_ok: "inv s \<Longrightarrow> good m \<Longrightarrow> enq m s = (Inr i, s') \<Longrightarrow>
          queued s' = (queued s)(i \<mapsto> m) \<and> i \<notin> issued s \<and> issued s' = insert i (issued s) \<and> buried s' = buried s"
    and enq_err: "enq m s = (Inl e, s') \<Longrightarrow>
          queued s' = queued s \<and> issued s' = issued s \<and> buried s' = buried s"
    and ack_inv: "inv s \<Longrightarrow> ack i s = (q, s') \<Longrightarrow> inv s'"
    and ack_ok: "ack i s = (Inr u, s') \<Longrightarrow>
          queued s' = (queued s)(i := None) \<and> issued s' = issued s \<and> buried s' = buried s"
    and ack_err: "ack i s = (Inl e, s') \<Longrightarrow>
          queued s' = queued s \<and> issued s' = issued s \<and> buried s' = buried s"
    and retry_inv: "inv s \<Longrightarrow> is_i64 at \<Longrightarrow> retry i n at s = (q, s') \<Longrightarrow> inv s'"
    and retry_same: "retry i n at s = (q, s') \<Longrightarrow>
          queued s' = queued s \<and> issued s' = issued s \<and> buried s' = buried s"
    and bury_inv: "inv s \<Longrightarrow> bury i x s = (q, s') \<Longrightarrow> inv s'"
    and bury_ok: "bury i x s = (Inr u, s') \<Longrightarrow>
          queued s' = (queued s)(i := None) \<and> issued s' = issued s \<and>
          buried s' = buried s @ (case queued s i of None \<Rightarrow> [] | Some m \<Rightarrow> [m])"
    and bury_err: "bury i x s = (Inl e, s') \<Longrightarrow>
          queued s' = queued s \<and> issued s' = issued s \<and> buried s' = buried s"
    and queued_issued: "inv s \<Longrightarrow> queued s i = Some m \<Longrightarrow> i \<in> issued s"
begin

lemma step_inv: "inv s \<Longrightarrow> good_call good c \<Longrightarrow> inv (queue_step enq ack retry bury c s)"
proof (cases c)
  case (Enqueue_call m)
  then show "inv s \<Longrightarrow> ?thesis" using enq_inv by (cases "enq m s") simp
next
  case (Ack_call i)
  then show "inv s \<Longrightarrow> ?thesis" using ack_inv by (cases "ack i s") simp
next
  case (Retry_call i n at)
  then show "inv s \<Longrightarrow> good_call good c \<Longrightarrow> ?thesis"
    using retry_inv by (cases "retry i n at s") (simp add: good_call_def)
next
  case (Bury_call i e)
  then show "inv s \<Longrightarrow> ?thesis" using bury_inv by (cases "bury i e s") simp
qed

text \<open>
  A queued message leaves the queue only through a call that acknowledges or buries its id:
  no other call, successful or failing, touches it.
\<close>

lemma step_keeps:
  assumes "inv s" and "good_call good c" and "queued s i = Some m" and "\<not> releases i c"
  shows "queued (queue_step enq ack retry bury c s) i = Some m"
proof (cases c)
  case (Enqueue_call m')
  obtain r s' where r: "enq m' s = (r, s')" by fastforce
  show ?thesis
  proof (cases r)
    case (Inl e)
    with r Enqueue_call assms(3) enq_err [of m' s e s'] show ?thesis by simp
  next
    case (Inr j)
    with r Enqueue_call assms(2) have "queued s' = (queued s)(j \<mapsto> m')" "j \<notin> issued s"
      using enq_ok [OF assms(1), of m' j s'] by (simp_all add: good_call_def)
    moreover from assms(1,3) have "i \<in> issued s" by (rule queued_issued)
    ultimately show ?thesis using r Enqueue_call assms(3) by auto
  qed
next
  case (Ack_call j)
  with assms show ?thesis
    using ack_ok [of j s] ack_err [of j s]
    by (cases "ack j s"; cases "fst (ack j s)") (auto simp: releases_def)
next
  case (Retry_call j n at)
  with assms show ?thesis
    using retry_same [of j n at s] by (cases "retry j n at s") auto
next
  case (Bury_call j e)
  with assms show ?thesis
    using bury_ok [of j e s] bury_err [of j e s]
    by (cases "bury j e s"; cases "fst (bury j e s)") (auto simp: releases_def)
qed

lemma calls_keep:
  "inv s \<Longrightarrow> (\<forall>c\<in>set cs. good_call good c \<and> \<not> releases i c) \<Longrightarrow> queued s i = Some m \<Longrightarrow>
   queued (fold (queue_step enq ack retry bury) cs s) i = Some m"
proof (induction cs arbitrary: s)
  case Nil
  then show ?case by simp
next
  case (Cons c cs)
  then show ?case by (simp add: step_inv step_keeps)
qed

text \<open>Ids are handed out once: an id that was issued stays issued and is never returned again.\<close>

lemma step_issued: "inv s \<Longrightarrow> good_call good c \<Longrightarrow> issued s \<subseteq> issued (queue_step enq ack retry bury c s)"
proof (cases c)
  case (Enqueue_call m)
  then show "inv s \<Longrightarrow> good_call good c \<Longrightarrow> ?thesis"
    using enq_ok [of s m] enq_err [of m s]
    by (cases "enq m s"; cases "fst (enq m s)") (auto simp: good_call_def)
next
  case (Ack_call i)
  then show ?thesis
    using ack_ok [of i s] ack_err [of i s] by (cases "ack i s"; cases "fst (ack i s)") auto
next
  case (Retry_call i n at)
  then show ?thesis using retry_same [of i n at s] by (cases "retry i n at s") auto
next
  case (Bury_call i e)
  then show ?thesis
    using bury_ok [of i e s] bury_err [of i e s] by (cases "bury i e s"; cases "fst (bury i e s)") auto
qed

text \<open>An issued id never gets another message: its entry stays or goes.\<close>

lemma step_same_or_gone:
  assumes "inv s" and "good_call good c" and "i \<in> issued s"
  shows "queued (queue_step enq ack retry bury c s) i = queued s i \<or>
    queued (queue_step enq ack retry bury c s) i = None"
proof (cases c)
  case (Enqueue_call m)
  with assms show ?thesis
    using enq_ok [of s m] enq_err [of m s]
    by (cases "enq m s"; cases "fst (enq m s)") (auto simp: good_call_def)
next
  case (Ack_call j)
  then show ?thesis
    using ack_ok [of j s] ack_err [of j s] by (cases "ack j s"; cases "fst (ack j s)") auto
next
  case (Retry_call j n at)
  then show ?thesis using retry_same [of j n at s] by (cases "retry j n at s") auto
next
  case (Bury_call j e)
  then show ?thesis
    using bury_ok [of j e s] bury_err [of j e s] by (cases "bury j e s"; cases "fst (bury j e s)") auto
qed

lemma calls_issued:
  "inv s \<Longrightarrow> (\<forall>c\<in>set cs. good_call good c) \<Longrightarrow>
   issued s \<subseteq> issued (fold (queue_step enq ack retry bury) cs s) \<and> inv (fold (queue_step enq ack retry bury) cs s)"
proof (induction cs arbitrary: s)
  case Nil
  then show ?case by simp
next
  case (Cons c cs)
  then have "inv (queue_step enq ack retry bury c s)" by (simp add: step_inv)
  with Cons show ?case using step_issued [of s c] by fastforce
qed

lemma ids_never_reused:
  assumes "inv s" and "good m" and "enq m s = (Inr i, s')"
    and "\<forall>c\<in>set cs. good_call good c"
    and "good m'" and "enq m' (fold (queue_step enq ack retry bury) cs s') = (Inr j, s'')"
  shows "j \<noteq> i"
proof -
  from assms(1-3) have i: "inv s'" "i \<in> issued s'"
    using enq_inv enq_ok [OF assms(1-3)] by auto
  from calls_issued [OF i(1) assms(4)] i(2)
  have k: "i \<in> issued (fold (queue_step enq ack retry bury) cs s')"
    "inv (fold (queue_step enq ack retry bury) cs s')" by auto
  from enq_ok [OF k(2) assms(5,6)] k(1) show ?thesis by auto
qed

end

subsection \<open>The delivery sink\<close>

text \<open>
  The trait \<open>MessageSink\<close>, with two logs of the calls made on it, as pairs of idempotency key
  and message: \<open>log\<close> is what the far side has acknowledged, \<open>tried\<close> is all it may have taken
  over. A call that reports success is in both; a call that reports an error is not in the
  first and may be in the second, since the response can be lost.
\<close>

locale delivery_sink =
  fixes deliver :: "'m \<Rightarrow> string \<Rightarrow> 's \<Rightarrow> unit result \<times> 's"
    and log :: "'s \<Rightarrow> (string \<times> 'm) list"
    and tried :: "'s \<Rightarrow> (string \<times> 'm) list"
  assumes deliver_ok: "deliver m k s = (Inr u, s') \<Longrightarrow> log s' = log s @ [(k, m)] \<and> tried s' = tried s @ [(k, m)]"
    and deliver_err: "deliver m k s = (Inl e, s') \<Longrightarrow>
          log s' = log s \<and> (tried s' = tried s \<or> tried s' = tried s @ [(k, m)])"
begin

lemma deliver_grows: "deliver m k s = (r, s') \<Longrightarrow> set (log s) \<subseteq> set (log s')"
  using deliver_ok [of m k s] deliver_err [of m k s] by (cases r) fastforce+

lemma deliver_accepted: "deliver m k s = (Inr u, s') \<Longrightarrow> (k, m) \<in> set (log s')"
  using deliver_ok by fastforce

end

end
