(* ===== verification/Store.thy ===== *)
theory Store
  imports Interfaces
begin

section \<open>The persistent outbox (src/queue/store.rs)\<close>

text \<open>
  The SQLite-backed \<open>MessageStore\<close>. The database is the pair of tables of \<open>SCHEMA\<close> with the
  two \<open>AUTOINCREMENT\<close> counters, each SQL statement of the source is one \<open>sql_\<close> function on
  the tables, and each method of \<open>MessageStore\<close> is one function that runs its statements in
  the order of the source. Any statement, and any job handed to the blocking pool, may fail:
  the field \<open>sql_faults\<close> holds the outcomes the environment has in store for the next calls
  (\<open>Some e\<close> a failure with message \<open>e\<close>; an exhausted list means success), and the field
  \<open>clock\<close> the readings of the system clock. A statement that fails leaves the tables alone,
  and a transaction that fails is rolled back, as SQLite documents.

  Theorems: the well-formedness invariant and its preservation, the refinement of every
  method to an update of an abstract map from row ids to messages (interface
  \<open>durable_queue\<close>), the order in which messages are claimed, the capacity bound, and the
  round trip of the recipient encoding.
\<close>

subsection \<open>Data\<close>

record message =
  msg_from :: "string option"
  msg_to :: "string list"
  msg_subject :: "string option"
  msg_body :: string

record stored_message =
  sm_id :: i64
  sm_message :: message
  sm_attempts :: u32

record outbox_row =
  ob_id :: i64
  from_addr :: "string option"
  to_addrs :: string
  ob_subject :: "string option"
  ob_body :: string
  ob_attempts :: i64
  next_attempt_at :: i64
  created_at :: i64

record dead_row =
  dl_id :: i64
  dl_from_addr :: "string option"
  dl_to_addrs :: string
  dl_subject :: "string option"
  dl_body :: string
  dl_attempts :: i64
  dl_created_at :: i64
  failed_at :: i64
  last_error :: string

record database =
  outbox :: "outbox_row list"
  outbox_seq :: i64
  dead_letters :: "dead_row list"
  dead_seq :: i64

record message_store =
  conn :: database
  notify :: bool
  max_len :: usize
  sql_faults :: "string option list"
  clock :: "nat option list"

definition empty_database :: database where
  "empty_database = \<lparr>outbox = [], outbox_seq = 0, dead_letters = [], dead_seq = 0\<rparr>"

subsection \<open>The environment: failures and the clock\<close>

definition next_fault :: "message_store \<Rightarrow> string option \<times> message_store" where
  "next_fault st =
     (case sql_faults st of
        [] \<Rightarrow> (None, st)
      | f # fs \<Rightarrow> (f, st\<lparr>sql_faults := fs\<rparr>))"

text \<open>
  A reading \<open>None\<close> is a clock before the epoch, which \<open>unwrap_or(0)\<close> turns into 0; the
  seconds are cast from \<open>u64\<close> to \<open>i64\<close>.
\<close>

definition unix_now :: "message_store \<Rightarrow> i64 \<times> message_store" where
  "unix_now st =
     (case clock st of
        [] \<Rightarrow> (0, st)
      | None # cs \<Rightarrow> (0, st\<lparr>clock := cs\<rparr>)
      | Some secs # cs \<Rightarrow> (wrap_i64 (int secs), st\<lparr>clock := cs\<rparr>))"

definition exec_sql ::
  "(database \<Rightarrow> string + 'a \<times> database) \<Rightarrow> message_store \<Rightarrow> 'a result \<times> message_store" where
  "exec_sql stmt st =
     (case next_fault st of
        (Some e, st1) \<Rightarrow> (Inl (Storage e), st1)
      | (None, st1) \<Rightarrow>
          (case stmt (conn st1) of
             Inl e \<Rightarrow> (Inl (Storage e), st1)
           | Inr (a, db) \<Rightarrow> (Inr a, st1\<lparr>conn := db\<rparr>)))"

definition with_conn ::
  "(message_store \<Rightarrow> 'a result \<times> message_store) \<Rightarrow> message_store \<Rightarrow> 'a result \<times> message_store" where
  "with_conn f st =
     (case next_fault st of
        (Some e, st1) \<Rightarrow> (Inl (Queue (''storage task failed: '' @ e)), st1)
      | (None, st1) \<Rightarrow> f st1)"

subsection \<open>Rows\<close>

definition encode_recipients :: "string list \<Rightarrow> string" where
  "encode_recipients to = join [CHR 0x0A] to"

definition decode_recipients :: "string \<Rightarrow> string list" where
  "decode_recipients raw = (if raw = [] then [] else split_on (CHR 0x0A) raw)"

definition row_to_stored :: "outbox_row \<Rightarrow> stored_message" where
  "row_to_stored row =
     \<lparr>sm_id = ob_id row,
      sm_message =
        \<lparr>msg_from = from_addr row,
         msg_to = decode_recipients (to_addrs row),
         msg_subject = ob_subject row,
         msg_body = ob_body row\<rparr>,
      sm_attempts = word_of_int (ob_attempts row)\<rparr>"

subsection \<open>The order of the queue\<close>

text \<open>\<open>ORDER BY next_attempt_at ASC, id ASC\<close>, as a linear order on the two columns.\<close>

datatype due_key = Due_key (due_at: i64) (due_id: i64)

instantiation due_key :: linorder
begin

definition less_eq_due_key :: "due_key \<Rightarrow> due_key \<Rightarrow> bool" where
  "less_eq_due_key a b \<longleftrightarrow> due_at a < due_at b \<or> due_at a = due_at b \<and> due_id a \<le> due_id b"

definition less_due_key :: "due_key \<Rightarrow> due_key \<Rightarrow> bool" where
  "less_due_key a b \<longleftrightarrow> due_at a < due_at b \<or> due_at a = due_at b \<and> due_id a < due_id b"

instance
  by standard (auto simp: less_eq_due_key_def less_due_key_def intro: due_key.expand)

end

definition row_key :: "outbox_row \<Rightarrow> due_key" where
  "row_key r = Due_key (next_attempt_at r) (ob_id r)"

lemma row_key_le [simp]:
  "row_key r \<le> row_key r' \<longleftrightarrow>
     next_attempt_at r < next_attempt_at r' \<or> next_attempt_at r = next_attempt_at r' \<and> ob_id r \<le> ob_id r'"
  by (simp add: row_key_def less_eq_due_key_def)

subsection \<open>The SQL statements\<close>

definition sql_count_outbox :: "database \<Rightarrow> string + i64 \<times> database" where
  "sql_count_outbox db = Inr (int (length (outbox db)), db)"

definition sql_insert_outbox ::
  "string option \<Rightarrow> string \<Rightarrow> string option \<Rightarrow> string \<Rightarrow> i64 \<Rightarrow> database \<Rightarrow> string + i64 \<times> database" where
  "sql_insert_outbox frm to subj body created db =
     (if i64_max \<le> outbox_seq db then Inl ''database or disk is full''
      else
        let rid = outbox_seq db + 1;
            row = \<lparr>ob_id = rid, from_addr = frm, to_addrs = to, ob_subject = subj,
                   ob_body = body, ob_attempts = 0, next_attempt_at = 0, created_at = created\<rparr>
        in Inr (rid, db\<lparr>outbox := outbox db @ [row], outbox_seq := rid\<rparr>))"

definition sql_select_ready :: "i64 \<Rightarrow> database \<Rightarrow> string + stored_message option \<times> database" where
  "sql_select_ready now db =
     (case sort_key row_key (filter (\<lambda>r. next_attempt_at r \<le> now) (outbox db)) of
        [] \<Rightarrow> Inr (None, db)
      | r # _ \<Rightarrow> Inr (Some (row_to_stored r), db))"

definition sql_delete_outbox :: "i64 \<Rightarrow> database \<Rightarrow> string + unit \<times> database" where
  "sql_delete_outbox rid db = Inr ((), db\<lparr>outbox := filter (\<lambda>r. ob_id r \<noteq> rid) (outbox db)\<rparr>)"

definition sql_update_outbox :: "i64 \<Rightarrow> u32 \<Rightarrow> i64 \<Rightarrow> database \<Rightarrow> string + unit \<times> database" where
  "sql_update_outbox rid attempts at db =
     Inr ((), db\<lparr>outbox :=
       map (\<lambda>r. if ob_id r = rid
                then r\<lparr>ob_attempts := uint attempts, next_attempt_at := at\<rparr> else r) (outbox db)\<rparr>)"

definition sql_insert_dead_letter :: "i64 \<Rightarrow> i64 \<Rightarrow> string \<Rightarrow> database \<Rightarrow> string + unit \<times> database" where
  "sql_insert_dead_letter rid failed err db =
     (case find (\<lambda>r. ob_id r = rid) (outbox db) of
        None \<Rightarrow> Inr ((), db)
      | Some r \<Rightarrow>
          if i64_max \<le> dead_seq db then Inl ''database or disk is full''
          else
            let row = \<lparr>dl_id = dead_seq db + 1, dl_from_addr = from_addr r, dl_to_addrs = to_addrs r,
                       dl_subject = ob_subject r, dl_body = ob_body r, dl_attempts = ob_attempts r,
                       dl_created_at = created_at r, failed_at = failed, last_error = err\<rparr>
            in Inr ((), db\<lparr>dead_letters := dead_letters db @ [row], dead_seq := dead_seq db + 1\<rparr>))"

definition sql_min_wakeup :: "i64 \<Rightarrow> database \<Rightarrow> string + i64 option \<times> database" where
  "sql_min_wakeup now db =
     (case filter (\<lambda>t. now < t) (map next_attempt_at (outbox db)) of
        [] \<Rightarrow> Inr (None, db)
      | t # ts \<Rightarrow> Inr (Some (fold min ts t), db))"

definition sql_count_dead :: "database \<Rightarrow> string + i64 \<times> database" where
  "sql_count_dead db = Inr (int (length (dead_letters db)), db)"

subsection \<open>The methods of MessageStore\<close>

text \<open>
  What opening the database meets: whether the job in the blocking pool panics, the outcome of
  creating a directory, what \<open>Connection::open\<close> gives for a path (the tables found on disk,
  empty for a new file), the outcome of the schema batch, whose statements create only what
  does not exist, and the failures and clock readings to come.
\<close>

record storage_env =
  se_task :: "string option"
  se_mkdir :: "string \<Rightarrow> string option"
  se_open :: "string \<Rightarrow> string + database"
  se_schema :: "string option"
  se_faults :: "string option list"
  se_clock :: "nat option list"

definition create_parent :: "storage_env \<Rightarrow> string \<Rightarrow> string option" where
  "create_parent env path =
     (if path \<noteq> '':memory:'' then
        (case path_parent path of
           Some parent \<Rightarrow> if parent \<noteq> [] then se_mkdir env parent else None
         | None \<Rightarrow> None)
      else None)"

definition open_with_max_len :: "storage_env \<Rightarrow> string \<Rightarrow> usize \<Rightarrow> message_store result" where
  "open_with_max_len env path cap =
     (case se_task env of
        Some e \<Rightarrow> Inl (Queue (''storage task failed: '' @ e))
      | None \<Rightarrow>
          (case create_parent env path of
             Some e \<Rightarrow> Inl (Io e)
           | None \<Rightarrow>
               (case se_open env path of
                  Inl e \<Rightarrow> Inl (Storage e)
                | Inr db \<Rightarrow>
                    (case se_schema env of
                       Some e \<Rightarrow> Inl (Storage e)
                     | None \<Rightarrow> Inr \<lparr>conn = db, notify = False, max_len = cap,
                                    sql_faults = se_faults env, clock = se_clock env\<rparr>))))"

definition open_unbounded :: "storage_env \<Rightarrow> string \<Rightarrow> message_store result" where
  "open_unbounded env path = open_with_max_len env path 0"

definition insert_message :: "message \<Rightarrow> i64 \<Rightarrow> message_store \<Rightarrow> i64 result \<times> message_store" where
  "insert_message m created st =
     exec_sql (sql_insert_outbox (msg_from m) (encode_recipients (msg_to m)) (msg_subject m)
                 (msg_body m) created) st"

definition enqueue_locked :: "message \<Rightarrow> i64 \<Rightarrow> message_store \<Rightarrow> i64 result \<times> message_store" where
  "enqueue_locked m created st =
     (if 0 < max_len st then
        (case exec_sql sql_count_outbox st of
           (Inl e, st1) \<Rightarrow> (Inl e, st1)
         | (Inr count, st1) \<Rightarrow>
             if max_len st \<le> nat count then (Inl QueueFull, st1)
             else insert_message m created st1)
      else insert_message m created st)"

definition enqueue :: "message \<Rightarrow> message_store \<Rightarrow> i64 result \<times> message_store" where
  "enqueue m st =
     (case unix_now st of
        (created, st1) \<Rightarrow>
          (case with_conn (enqueue_locked m created) st1 of
             (Inl e, st2) \<Rightarrow> (Inl e, st2)
           | (Inr rid, st2) \<Rightarrow> (Inr rid, st2\<lparr>notify := True\<rparr>)))"

definition claim_next_ready :: "i64 \<Rightarrow> message_store \<Rightarrow> stored_message option result \<times> message_store" where
  "claim_next_ready now = with_conn (exec_sql (sql_select_ready now))"

definition remove :: "i64 \<Rightarrow> message_store \<Rightarrow> unit result \<times> message_store" where
  "remove rid = with_conn (exec_sql (sql_delete_outbox rid))"

definition mark_delivered :: "i64 \<Rightarrow> message_store \<Rightarrow> unit result \<times> message_store" where
  "mark_delivered rid = remove rid"

text \<open>
  The transaction of \<open>dead_letter\<close>: begin, insert, delete, commit. When a statement fails the
  \<open>?\<close> operator drops the transaction, which rolls the tables back.
\<close>

definition dead_letter_tx :: "i64 \<Rightarrow> i64 \<Rightarrow> string \<Rightarrow> message_store \<Rightarrow> unit result \<times> message_store" where
  "dead_letter_tx rid failed err st =
     (case exec_sql (\<lambda>db. Inr ((), db)) st of
        (Inl e, st1) \<Rightarrow> (Inl e, st1)
      | (Inr _, st1) \<Rightarrow>
          (case exec_sql (sql_insert_dead_letter rid failed err) st1 of
             (Inl e, st2) \<Rightarrow> (Inl e, st2\<lparr>conn := conn st1\<rparr>)
           | (Inr _, st2) \<Rightarrow>
               (case exec_sql (sql_delete_outbox rid) st2 of
                  (Inl e, st3) \<Rightarrow> (Inl e, st3\<lparr>conn := conn st1\<rparr>)
                | (Inr _, st3) \<Rightarrow>
                    (case exec_sql (\<lambda>db. Inr ((), db)) st3 of
                       (Inl e, st4) \<Rightarrow> (Inl e, st4\<lparr>conn := conn st1\<rparr>)
                     | (Inr _, st4) \<Rightarrow> (Inr (), st4)))))"

definition dead_letter :: "i64 \<Rightarrow> string \<Rightarrow> message_store \<Rightarrow> unit result \<times> message_store" where
  "dead_letter rid err st =
     (case unix_now st of (failed, st1) \<Rightarrow> with_conn (dead_letter_tx rid failed err) st1)"

definition dead_letter_len :: "message_store \<Rightarrow> usize result \<times> message_store" where
  "dead_letter_len st =
     (case with_conn (exec_sql sql_count_dead) st of
        (Inl e, st1) \<Rightarrow> (Inl e, st1)
      | (Inr n, st1) \<Rightarrow> (Inr (nat n), st1))"

definition reschedule :: "i64 \<Rightarrow> u32 \<Rightarrow> i64 \<Rightarrow> message_store \<Rightarrow> unit result \<times> message_store" where
  "reschedule rid attempts at = with_conn (exec_sql (sql_update_outbox rid attempts at))"

definition next_wakeup :: "i64 \<Rightarrow> message_store \<Rightarrow> i64 option result \<times> message_store" where
  "next_wakeup now = with_conn (exec_sql (sql_min_wakeup now))"

definition len :: "message_store \<Rightarrow> usize result \<times> message_store" where
  "len st =
     (case with_conn (exec_sql sql_count_outbox) st of
        (Inl e, st1) \<Rightarrow> (Inl e, st1)
      | (Inr n, st1) \<Rightarrow> (Inr (nat n), st1))"

text \<open>
  \<open>notified\<close> completes when a permit is stored, and takes it; \<open>None\<close> means it stays pending.
\<close>

definition notified :: "message_store \<Rightarrow> message_store option" where
  "notified st = (if notify st then Some (st\<lparr>notify := False\<rparr>) else None)"

subsection \<open>What the environment functions change\<close>

text \<open>
  Two stores agree on the fields no storage call writes when \<open>same_frame\<close> holds. Every
  statement either fails and leaves the tables alone, or behaves as its \<open>sql_\<close> function.
\<close>

definition same_frame :: "message_store \<Rightarrow> message_store \<Rightarrow> bool" where
  "same_frame st st' \<longleftrightarrow> notify st' = notify st \<and> max_len st' = max_len st"

lemma same_frame_refl [simp, intro]: "same_frame st st"
  by (simp add: same_frame_def)

lemma same_frame_trans [trans]: "same_frame a b \<Longrightarrow> same_frame b c \<Longrightarrow> same_frame a c"
  by (simp add: same_frame_def)

lemma same_frame_conn [simp]: "same_frame st (st'\<lparr>conn := db\<rparr>) = same_frame st st'"
  by (simp add: same_frame_def)

lemma same_frame_notify: "same_frame st st' \<Longrightarrow> notify st' = notify st"
  and same_frame_max_len: "same_frame st st' \<Longrightarrow> max_len st' = max_len st"
  by (simp_all add: same_frame_def)

lemma next_fault_frame: "next_fault st = (f, st') \<Longrightarrow> conn st' = conn st \<and> same_frame st st'"
  by (auto simp: next_fault_def same_frame_def split: list.splits)

lemma unix_now_frame: "unix_now st = (t, st') \<Longrightarrow> conn st' = conn st \<and> same_frame st st' \<and> is_i64 t"
  by (auto simp: unix_now_def same_frame_def is_i64_def [of 0] split: list.splits option.splits)

lemma exec_sql_cases:
  assumes "exec_sql stmt st = (r, st')"
  obtains (fails) e where "r = Inl (Storage e)" "conn st' = conn st" "same_frame st st'"
    | (works) a where "r = Inr a" "stmt (conn st) = Inr (a, conn st')" "same_frame st st'"
  using assms
  by (auto simp: exec_sql_def split: prod.splits option.splits sum.splits dest!: next_fault_frame)

lemma with_conn_cases:
  assumes "with_conn f st = (r, st')"
  obtains (fails) e where "r = Inl e" "conn st' = conn st" "same_frame st st'"
    | (runs) st1 where "f st1 = (r, st')" "conn st1 = conn st" "same_frame st st1"
  using assms
  by (auto simp: with_conn_def split: prod.splits option.splits dest!: next_fault_frame)

text \<open>A method that runs one statement under the connection lock.\<close>

lemma with_conn_exec_sql_cases:
  assumes "with_conn (exec_sql stmt) st = (r, st')"
  obtains (fails) e where "r = Inl e" "conn st' = conn st" "same_frame st st'"
    | (works) a where "r = Inr a" "stmt (conn st) = Inr (a, conn st')" "same_frame st st'"
proof (rule with_conn_cases [OF assms])
  fix e
  assume "r = Inl e" "conn st' = conn st" "same_frame st st'"
  then show thesis by (rule fails)
next
  fix st1
  assume 1: "exec_sql stmt st1 = (r, st')" "conn st1 = conn st" "same_frame st st1"
  from 1(1) show thesis
    by (cases rule: exec_sql_cases) (use 1 in \<open>auto intro: that same_frame_trans\<close>)
qed

text \<open>With no failure ahead, the methods compute.\<close>

lemma exec_sql_no_fault:
  "sql_faults st = [] \<Longrightarrow> exec_sql stmt st =
     (case stmt (conn st) of Inl e \<Rightarrow> (Inl (Storage e), st) | Inr (a, db) \<Rightarrow> (Inr a, st\<lparr>conn := db\<rparr>))"
  by (simp add: exec_sql_def next_fault_def)

lemma with_conn_no_fault: "sql_faults st = [] \<Longrightarrow> with_conn f st = f st"
  by (simp add: with_conn_def next_fault_def)

subsection \<open>Tables as maps, and the invariant\<close>

definition rows :: "database \<Rightarrow> i64 \<rightharpoonup> outbox_row" where
  "rows db = map_of (map (\<lambda>r. (ob_id r, r)) (outbox db))"

definition db_inv :: "database \<Rightarrow> bool" where
  "db_inv db \<longleftrightarrow>
     distinct (map ob_id (outbox db)) \<and>
     (\<forall>r\<in>set (outbox db). 1 \<le> ob_id r \<and> ob_id r \<le> outbox_seq db \<and>
        0 \<le> ob_attempts r \<and> ob_attempts r < 2 ^ 32 \<and> is_i64 (next_attempt_at r)) \<and>
     0 \<le> outbox_seq db \<and> outbox_seq db \<le> i64_max \<and>
     distinct (map dl_id (dead_letters db)) \<and>
     (\<forall>d\<in>set (dead_letters db). 1 \<le> dl_id d \<and> dl_id d \<le> dead_seq db) \<and>
     0 \<le> dead_seq db \<and> dead_seq db \<le> i64_max"

abbreviation store_inv :: "message_store \<Rightarrow> bool" where
  "store_inv st \<equiv> db_inv (conn st)"

lemma db_inv_empty [simp]: "db_inv empty_database"
  by (simp add: db_inv_def empty_database_def i64_max_def)

lemma rows_empty [simp]: "rows empty_database = Map.empty"
  by (simp add: rows_def empty_database_def)

lemma rows_Some: "rows db i = Some r \<Longrightarrow> r \<in> set (outbox db) \<and> ob_id r = i"
  by (auto simp: rows_def dest: map_of_SomeD)

lemma rows_None: "rows db i = None \<longleftrightarrow> i \<notin> ob_id ` set (outbox db)"
  by (auto simp: rows_def map_of_eq_None_iff image_image)

lemma rows_member: "db_inv db \<Longrightarrow> r \<in> set (outbox db) \<Longrightarrow> rows db (ob_id r) = Some r"
  by (auto simp: rows_def db_inv_def intro!: map_of_is_SomeI simp: comp_def)

lemma map_of_filter_key:
  "map_of (map (\<lambda>r. (k r, r)) (filter (\<lambda>r. k r \<noteq> i) rs)) = (map_of (map (\<lambda>r. (k r, r)) rs))(i := None)"
  by (induction rs) (auto simp: fun_eq_iff)

lemma map_of_update_key:
  "(\<And>r. k (f r) = k r) \<Longrightarrow>
   map_of (map (\<lambda>r. (k r, r)) (map (\<lambda>r. if k r = i then f r else r) rs)) =
     (\<lambda>j. if j = i then map_option f (map_of (map (\<lambda>r. (k r, r)) rs) j)
          else map_of (map (\<lambda>r. (k r, r)) rs) j)"
  by (induction rs) (auto simp: fun_eq_iff)

lemma rows_insert:
  assumes "db_inv db" and "sql_insert_outbox f t s b c db = Inr (i, db')"
  shows "i = outbox_seq db + 1" and "rows db i = None"
    and "rows db' = (rows db)(i \<mapsto> \<lparr>ob_id = i, from_addr = f, to_addrs = t, ob_subject = s, ob_body = b,
           ob_attempts = 0, next_attempt_at = 0, created_at = c\<rparr>)"
    and "db_inv db'" and "dead_letters db' = dead_letters db" and "outbox_seq db' = i"
    and "length (outbox db') = Suc (length (outbox db))"
proof -
  show i: "i = outbox_seq db + 1"
    using assms(2) by (auto simp: sql_insert_outbox_def Let_def split: if_splits)
  show n: "rows db i = None"
    using assms(1) i by (auto simp: rows_None db_inv_def)
  show "rows db' = (rows db)(i \<mapsto> \<lparr>ob_id = i, from_addr = f, to_addrs = t, ob_subject = s, ob_body = b,
           ob_attempts = 0, next_attempt_at = 0, created_at = c\<rparr>)"
    using assms(2) n
    by (auto simp: sql_insert_outbox_def Let_def rows_def fun_eq_iff map_add_def split: if_splits option.splits)
  show "db_inv db'"
    using assms n
    by (force simp: sql_insert_outbox_def Let_def db_inv_def rows_None i64_max_def is_i64_def
        split: if_splits)
  show "dead_letters db' = dead_letters db" "outbox_seq db' = i"
    "length (outbox db') = Suc (length (outbox db))"
    using assms(2) by (auto simp: sql_insert_outbox_def Let_def split: if_splits)
qed

lemma rows_delete:
  assumes "sql_delete_outbox i db = Inr (u, db')"
  shows "rows db' = (rows db)(i := None)" and "db_inv db \<Longrightarrow> db_inv db'"
    and "dead_letters db' = dead_letters db" and "outbox_seq db' = outbox_seq db"
    and "outbox db' = filter (\<lambda>r. ob_id r \<noteq> i) (outbox db)"
  using assms
  by (auto simp: sql_delete_outbox_def rows_def map_of_filter_key db_inv_def distinct_map_filter)

definition rescheduled :: "u32 \<Rightarrow> i64 \<Rightarrow> outbox_row \<Rightarrow> outbox_row" where
  "rescheduled n at r = r\<lparr>ob_attempts := uint n, next_attempt_at := at\<rparr>"

lemma rows_update:
  assumes "sql_update_outbox i n at db = Inr (u, db')"
  shows "rows db' = (\<lambda>j. if j = i then map_option (rescheduled n at) (rows db j) else rows db j)"
    and "db_inv db \<Longrightarrow> is_i64 at \<Longrightarrow> db_inv db'"
    and "dead_letters db' = dead_letters db" and "outbox_seq db' = outbox_seq db"
    and "map ob_id (outbox db') = map ob_id (outbox db)"
proof -
  have o: "outbox db' = map (\<lambda>r. if ob_id r = i then rescheduled n at r else r) (outbox db)"
    and rest: "dead_letters db' = dead_letters db" "outbox_seq db' = outbox_seq db" "dead_seq db' = dead_seq db"
    using assms by (auto simp: sql_update_outbox_def rescheduled_def cong: map_cong)
  have k: "ob_id (rescheduled n at r) = ob_id r" for r by (simp add: rescheduled_def)
  show "rows db' = (\<lambda>j. if j = i then map_option (rescheduled n at) (rows db j) else rows db j)"
    unfolding rows_def o by (rule map_of_update_key) (rule k)
  show ids: "map ob_id (outbox db') = map ob_id (outbox db)"
    by (simp add: o k)
  show "db_inv db'" if "db_inv db" "is_i64 at"
  proof -
    have "uint n < 2 ^ 32" "0 \<le> uint n" using uint_lt2p [of n] by simp_all
    with that rest ids show ?thesis
      unfolding db_inv_def ids by (auto simp: o rescheduled_def)
  qed
  show "dead_letters db' = dead_letters db" "outbox_seq db' = outbox_seq db" by (fact rest)+
qed

lemma find_rows: "find (\<lambda>r. ob_id r = i) (outbox db) = rows db i"
proof -
  have "find (\<lambda>r. ob_id r = i) rs = map_of (map (\<lambda>r. (ob_id r, r)) rs) i" for rs
    by (induction rs) auto
  then show ?thesis by (simp add: rows_def)
qed

text \<open>The dead-letter row made from an outbox row.\<close>

definition dead_row_of :: "i64 \<Rightarrow> i64 \<Rightarrow> string \<Rightarrow> outbox_row \<Rightarrow> dead_row" where
  "dead_row_of did failed err r =
     \<lparr>dl_id = did, dl_from_addr = from_addr r, dl_to_addrs = to_addrs r,
      dl_subject = ob_subject r, dl_body = ob_body r, dl_attempts = ob_attempts r,
      dl_created_at = created_at r, failed_at = failed, last_error = err\<rparr>"

lemma rows_dead_letter:
  assumes "sql_insert_dead_letter i failed err db = Inr (u, db')"
  shows "outbox db' = outbox db" and "rows db' = rows db" and "outbox_seq db' = outbox_seq db"
    and "db_inv db \<Longrightarrow> db_inv db'"
    and "dead_letters db' = dead_letters db @
           (case rows db i of None \<Rightarrow> [] | Some r \<Rightarrow> [dead_row_of (dead_seq db + 1) failed err r])"
proof -
  show o: "outbox db' = outbox db" "outbox_seq db' = outbox_seq db"
    using assms by (auto simp: sql_insert_dead_letter_def Let_def split: option.splits if_splits)
  then show "rows db' = rows db" by (simp add: rows_def)
  show "dead_letters db' = dead_letters db @
      (case rows db i of None \<Rightarrow> [] | Some r \<Rightarrow> [dead_row_of (dead_seq db + 1) failed err r])"
    using assms
    by (auto simp: sql_insert_dead_letter_def find_rows dead_row_of_def Let_def split: option.splits if_splits)
  show "db_inv db'" if "db_inv db"
    using that assms
    by (force simp: sql_insert_dead_letter_def Let_def db_inv_def i64_max_def
        split: option.splits if_splits)
qed

subsection \<open>The methods, case by case\<close>

text \<open>Under the lock: the count, if there is a limit, then the insert.\<close>

lemma enqueue_locked_cases:
  assumes "enqueue_locked m c st = (r, st')"
  obtains (refused) e where "r = Inl e" "conn st' = conn st" "same_frame st st'"
    | (inserts) st1 where "insert_message m c st1 = (r, st')" "conn st1 = conn st" "same_frame st st1"
        "max_len st = 0 \<or> length (outbox (conn st)) < max_len st"
proof (cases "0 < max_len st")
  case False
  with assms show thesis by (intro inserts [of st]) (auto simp: enqueue_locked_def)
next
  case True
  obtain n st1 where n: "exec_sql sql_count_outbox st = (n, st1)" by fastforce
  from n show thesis
  proof (cases rule: exec_sql_cases)
    case (fails e)
    with True assms n show thesis by (intro refused [of "Storage e"]) (auto simp: enqueue_locked_def)
  next
    case (works cnt)
    then have cnt: "cnt = int (length (outbox (conn st)))" "conn st1 = conn st" by (auto simp: sql_count_outbox_def)
    show thesis
    proof (cases "max_len st \<le> nat cnt")
      case full: True
      with True assms n works cnt show thesis by (intro refused [of QueueFull]) (auto simp: enqueue_locked_def)
    next
      case room: False
      with True assms n works cnt show thesis by (intro inserts [of st1]) (auto simp: enqueue_locked_def)
    qed
  qed
qed

lemma enqueue_cases:
  assumes "enqueue m st = (r, st')"
  obtains (refused) e where "r = Inl e" "conn st' = conn st" "same_frame st st'"
    | (stored) i c where "r = Inr i" "notify st'" "max_len st' = max_len st"
        "sql_insert_outbox (msg_from m) (encode_recipients (msg_to m)) (msg_subject m) (msg_body m) c (conn st)
           = Inr (i, conn st')"
        "max_len st = 0 \<or> length (outbox (conn st)) < max_len st"
proof -
  obtain c st1 where c: "unix_now st = (c, st1)" by fastforce
  note f1 = unix_now_frame [OF c]
  obtain r2 st2 where w: "with_conn (enqueue_locked m c) st1 = (r2, st2)" by fastforce
  have res: "r = r2" "st' = (if is_ok r2 then st2\<lparr>notify := True\<rparr> else st2)"
    using assms c w by (auto simp: enqueue_def split: sum.splits)
  from w show thesis
  proof (cases rule: with_conn_cases)
    case (fails e)
    with res f1 show ?thesis by (auto intro: refused same_frame_trans)
  next
    case (runs st3)
    then have f3: "conn st3 = conn st" "same_frame st st3" using f1 by (auto intro: same_frame_trans)
    from runs(1) show thesis
    proof (cases rule: enqueue_locked_cases)
      case (refused e)
      with res f3 show ?thesis by (intro that(1) [of e]) (auto intro: same_frame_trans)
    next
      case (inserts st4)
      then have f4: "conn st4 = conn st" "same_frame st st4" "max_len st = 0 \<or> length (outbox (conn st)) < max_len st"
        using f3 same_frame_max_len [OF f3(2)] by (auto intro: same_frame_trans)
      from inserts(1) show ?thesis unfolding insert_message_def
      proof (cases rule: exec_sql_cases)
        case (fails e)
        with f4 res show ?thesis by (intro that(1)) (auto intro: same_frame_trans)
      next
        case (works a)
        with f4 res show ?thesis by (intro that(2) [of a c]) (auto dest!: same_frame_max_len)
      qed
    qed
  qed
qed

lemma mark_delivered_cases:
  assumes "mark_delivered i st = (r, st')"
  obtains (fails) e where "r = Inl e" "conn st' = conn st" "same_frame st st'"
    | (removed) "r = Inr ()" "sql_delete_outbox i (conn st) = Inr ((), conn st')" "same_frame st st'"
  using assms unfolding mark_delivered_def remove_def
  by (cases rule: with_conn_exec_sql_cases) (auto intro: that)

lemma reschedule_cases:
  assumes "reschedule i n at st = (r, st')"
  obtains (fails) e where "r = Inl e" "conn st' = conn st" "same_frame st st'"
    | (updated) "r = Inr ()" "sql_update_outbox i n at (conn st) = Inr ((), conn st')" "same_frame st st'"
  using assms unfolding reschedule_def
  by (cases rule: with_conn_exec_sql_cases) (auto intro: that)

lemma claim_next_ready_cases:
  assumes "claim_next_ready now st = (r, st')"
  obtains (fails) e where "r = Inl e" "conn st' = conn st" "same_frame st st'"
    | (selected) a where "r = Inr a" "sql_select_ready now (conn st) = Inr (a, conn st)"
        "conn st' = conn st" "same_frame st st'"
  using assms unfolding claim_next_ready_def
  by (cases rule: with_conn_exec_sql_cases)
    (auto intro: that simp: sql_select_ready_def split: list.splits)

lemma next_wakeup_cases:
  assumes "next_wakeup now st = (r, st')"
  obtains (fails) e where "r = Inl e" "conn st' = conn st" "same_frame st st'"
    | (selected) a where "r = Inr a" "sql_min_wakeup now (conn st) = Inr (a, conn st)"
        "conn st' = conn st" "same_frame st st'"
  using assms unfolding next_wakeup_def
  by (cases rule: with_conn_exec_sql_cases)
    (auto intro: that simp: sql_min_wakeup_def split: list.splits)

lemma dead_letter_tx_cases:
  assumes "dead_letter_tx i failed err st = (r, st')"
  obtains (fails) e where "r = Inl e" "conn st' = conn st" "same_frame st st'"
    | (moved) db1 where "r = Inr ()" "same_frame st st'"
        "sql_insert_dead_letter i failed err (conn st) = Inr ((), db1)"
        "sql_delete_outbox i db1 = Inr ((), conn st')"
proof -
  obtain r1 st1 where 1: "exec_sql (\<lambda>db. Inr ((), db)) st = (r1, st1)" by fastforce
  obtain r2 st2 where 2: "exec_sql (sql_insert_dead_letter i failed err) st1 = (r2, st2)" by fastforce
  obtain r3 st3 where 3: "exec_sql (sql_delete_outbox i) st2 = (r3, st3)" by fastforce
  obtain r4 st4 where 4: "exec_sql (\<lambda>db. Inr ((), db)) st3 = (r4, st4)" by fastforce
  have c1: "conn st1 = conn st" "same_frame st st1"
    using 1 by (auto elim!: exec_sql_cases)
  have c2: "same_frame st1 st2" and c3: "same_frame st2 st3" and c4: "same_frame st3 st4" "conn st4 = conn st3"
    using 2 3 4 by (auto elim!: exec_sql_cases)
  have f: "same_frame st st2" "same_frame st st3" "same_frame st st4"
    using c1 c2 c3 c4 by (blast intro: same_frame_trans)+
  have ok2: "sql_insert_dead_letter i failed err (conn st) = Inr ((), conn st2)" if "is_ok r2"
    using 2 that c1 by (auto elim!: exec_sql_cases)
  have ok3: "sql_delete_outbox i (conn st2) = Inr ((), conn st3)" if "is_ok r3"
    using 3 that by (auto elim!: exec_sql_cases)
  show thesis
  proof (cases "is_ok r1 \<and> is_ok r2 \<and> is_ok r3 \<and> is_ok r4")
    case True
    then have "r = Inr ()" "st' = st4"
      using assms 1 2 3 4 by (auto simp: dead_letter_tx_def is_ok_iff)
    with True f ok2 ok3 c4 show ?thesis by (intro moved [of "conn st2"]) auto
  next
    case False
    then have "\<exists>e. r = Inl e" and "conn st' = conn st \<and> same_frame st st'"
      using assms 1 2 3 4 c1 f by (auto simp: dead_letter_tx_def is_ok_iff split: sum.splits)
    then obtain e where "r = Inl e" "conn st' = conn st" "same_frame st st'" by blast
    then show ?thesis by (rule fails)
  qed
qed

lemma dead_letter_cases:
  assumes "dead_letter i err st = (r, st')"
  obtains (fails) e where "r = Inl e" "conn st' = conn st" "same_frame st st'"
    | (moved) failed db1 where "r = Inr ()" "same_frame st st'"
        "sql_insert_dead_letter i failed err (conn st) = Inr ((), db1)"
        "sql_delete_outbox i db1 = Inr ((), conn st')"
proof -
  obtain t st1 where t: "unix_now st = (t, st1)" by fastforce
  note f1 = unix_now_frame [OF t]
  from assms t have "with_conn (dead_letter_tx i t err) st1 = (r, st')"
    by (simp add: dead_letter_def)
  then show thesis
  proof (cases rule: with_conn_cases)
    case (fails e)
    with f1 show ?thesis by (auto intro: that(1) same_frame_trans)
  next
    case (runs st2)
    from runs(1) show ?thesis
    proof (cases rule: dead_letter_tx_cases)
      case (fails e)
      with f1 runs show ?thesis
        by (intro that(1) [of e]) (simp_all, blast intro: same_frame_trans)
    next
      case (moved db1)
      with f1 runs show ?thesis by (intro that(2) [of t db1]) (auto intro: same_frame_trans)
    qed
  qed
qed

subsection \<open>Recipients round trip\<close>

definition wf_recipients :: "string list \<Rightarrow> bool" where
  "wf_recipients to \<longleftrightarrow> (\<forall>a\<in>set to. a \<noteq> [] \<and> CHR 0x0A \<notin> set a)"

lemma decode_encode_recipients: "wf_recipients to \<Longrightarrow> decode_recipients (encode_recipients to) = to"
proof (cases to)
  case Nil
  then show ?thesis by (simp add: decode_recipients_def encode_recipients_def)
next
  case (Cons a as)
  assume wf: "wf_recipients to"
  with Cons have "encode_recipients to \<noteq> []"
    by (auto simp: encode_recipients_def join_eq_Nil wf_recipients_def)
  moreover have "split_on (CHR 0x0A) (encode_recipients to) = to"
    unfolding encode_recipients_def
    by (rule split_on_join) (use wf Cons in \<open>auto simp: wf_recipients_def\<close>)
  ultimately show ?thesis by (simp add: decode_recipients_def)
qed

subsection \<open>The queue as a map, and its contract\<close>

definition queued :: "message_store \<Rightarrow> i64 \<rightharpoonup> message" where
  "queued st i = map_option (\<lambda>r. sm_message (row_to_stored r)) (rows (conn st) i)"

definition buried :: "message_store \<Rightarrow> message list" where
  "buried st = map (\<lambda>d. \<lparr>msg_from = dl_from_addr d, msg_to = decode_recipients (dl_to_addrs d),
                        msg_subject = dl_subject d, msg_body = dl_body d\<rparr>) (dead_letters (conn st))"

definition issued :: "message_store \<Rightarrow> i64 set" where
  "issued st = {1..outbox_seq (conn st)}"

definition wf_message :: "message \<Rightarrow> bool" where
  "wf_message m \<longleftrightarrow> wf_recipients (msg_to m)"

lemma same_conn:
  "conn st' = conn st \<Longrightarrow> queued st' = queued st \<and> issued st' = issued st \<and> buried st' = buried st"
  by (simp add: queued_def issued_def buried_def fun_eq_iff)

lemma stored_row_message:
  "wf_message m \<Longrightarrow>
   sm_message (row_to_stored \<lparr>ob_id = i, from_addr = msg_from m, to_addrs = encode_recipients (msg_to m),
     ob_subject = msg_subject m, ob_body = msg_body m, ob_attempts = n, next_attempt_at = t, created_at = c\<rparr>) = m"
  by (simp add: row_to_stored_def wf_message_def decode_encode_recipients)

lemma row_to_stored_rescheduled [simp]:
  "sm_message (row_to_stored (rescheduled n at r)) = sm_message (row_to_stored r)"
  by (simp add: row_to_stored_def rescheduled_def)

lemma enqueue_inv: "store_inv st \<Longrightarrow> enqueue m st = (r, st') \<Longrightarrow> store_inv st'"
  by (erule enqueue_cases) (auto dest: rows_insert)

lemma enqueue_err: "enqueue m st = (Inl e, st') \<Longrightarrow> conn st' = conn st \<and> same_frame st st'"
  by (erule enqueue_cases) auto

lemma enqueue_ok:
  assumes "store_inv st" and "wf_message m" and "enqueue m st = (Inr i, st')"
  shows "queued st' = (queued st)(i \<mapsto> m)" and "i \<notin> issued st" and "issued st' = insert i (issued st)"
    and "buried st' = buried st" and "notify st'" and "i = outbox_seq (conn st) + 1"
    and "\<exists>r. rows (conn st') = (rows (conn st))(i \<mapsto> r) \<and> sm_message (row_to_stored r) = m \<and>
           ob_attempts r = 0 \<and> next_attempt_at r = 0"
    and "length (outbox (conn st')) = Suc (length (outbox (conn st)))"
proof -
  from assms(3) show "notify st'" by (cases rule: enqueue_cases) auto
  from assms(3) obtain c where c:
    "sql_insert_outbox (msg_from m) (encode_recipients (msg_to m)) (msg_subject m) (msg_body m) c (conn st)
       = Inr (i, conn st')"
    by (cases rule: enqueue_cases) auto
  note ins = rows_insert [OF assms(1) c]
  show "\<exists>r. rows (conn st') = (rows (conn st))(i \<mapsto> r) \<and> sm_message (row_to_stored r) = m \<and>
      ob_attempts r = 0 \<and> next_attempt_at r = 0"
    using ins(3) stored_row_message [OF assms(2)] by fastforce
  then show "queued st' = (queued st)(i \<mapsto> m)" by (auto simp: queued_def fun_eq_iff)
  show "i = outbox_seq (conn st) + 1" "length (outbox (conn st')) = Suc (length (outbox (conn st)))"
    by (fact ins)+
  show "i \<notin> issued st" "issued st' = insert i (issued st)"
    using ins(1,6) assms(1) by (auto simp: issued_def db_inv_def)
  show "buried st' = buried st" using ins(5) by (simp add: buried_def)
qed

lemma mark_delivered_inv: "store_inv st \<Longrightarrow> mark_delivered i st = (r, st') \<Longrightarrow> store_inv st'"
  by (erule mark_delivered_cases) (auto dest: rows_delete)

lemma mark_delivered_err: "mark_delivered i st = (Inl e, st') \<Longrightarrow> conn st' = conn st \<and> same_frame st st'"
  by (erule mark_delivered_cases) auto

lemma mark_delivered_ok:
  assumes "mark_delivered i st = (Inr u, st')"
  shows "rows (conn st') = (rows (conn st))(i := None)" and "queued st' = (queued st)(i := None)"
    and "issued st' = issued st" and "buried st' = buried st" and "same_frame st st'"
    and "outbox (conn st') = filter (\<lambda>r. ob_id r \<noteq> i) (outbox (conn st))"
proof -
  from assms have d: "sql_delete_outbox i (conn st) = Inr ((), conn st')" and f: "same_frame st st'"
    by (auto elim: mark_delivered_cases)
  note del = rows_delete [OF d]
  from del show "rows (conn st') = (rows (conn st))(i := None)" by simp
  then show "queued st' = (queued st)(i := None)" by (auto simp: queued_def fun_eq_iff)
  show "issued st' = issued st" "buried st' = buried st"
    using del by (simp_all add: issued_def buried_def)
  show "outbox (conn st') = filter (\<lambda>r. ob_id r \<noteq> i) (outbox (conn st))" by (fact del)
  show "same_frame st st'" by (fact f)
qed

lemma reschedule_inv: "store_inv st \<Longrightarrow> is_i64 at \<Longrightarrow> reschedule i n at st = (r, st') \<Longrightarrow> store_inv st'"
  by (erule reschedule_cases) (auto dest: rows_update)

lemma reschedule_err: "reschedule i n at st = (Inl e, st') \<Longrightarrow> conn st' = conn st \<and> same_frame st st'"
  by (erule reschedule_cases) auto

lemma reschedule_ok:
  assumes "reschedule i n at st = (Inr u, st')"
  shows "rows (conn st') =
      (\<lambda>j. if j = i then map_option (rescheduled n at) (rows (conn st) j) else rows (conn st) j)"
    and "same_frame st st'" and "map ob_id (outbox (conn st')) = map ob_id (outbox (conn st))"
proof -
  from assms have u: "sql_update_outbox i n at (conn st) = Inr ((), conn st')" and f: "same_frame st st'"
    by (auto elim: reschedule_cases)
  show "rows (conn st') =
      (\<lambda>j. if j = i then map_option (rescheduled n at) (rows (conn st) j) else rows (conn st) j)"
    by (rule rows_update(1) [OF u])
  show "map ob_id (outbox (conn st')) = map ob_id (outbox (conn st))"
    by (rule rows_update(5) [OF u])
  show "same_frame st st'" by (fact f)
qed

lemma reschedule_same:
  assumes "reschedule i n at st = (r, st')"
  shows "queued st' = queued st \<and> issued st' = issued st \<and> buried st' = buried st"
  using assms
proof (cases rule: reschedule_cases)
  case (fails e)
  then show ?thesis by (intro same_conn)
next
  case updated
  note u = rows_update [OF updated(2)]
  then show ?thesis
    by (auto simp: queued_def issued_def buried_def fun_eq_iff option.map_comp comp_def)
qed

lemma dead_letter_inv: "store_inv st \<Longrightarrow> dead_letter i e st = (r, st') \<Longrightarrow> store_inv st'"
  by (erule dead_letter_cases) (auto dest: rows_delete rows_dead_letter)

lemma dead_letter_err: "dead_letter i x st = (Inl e, st') \<Longrightarrow> conn st' = conn st \<and> same_frame st st'"
  by (erule dead_letter_cases) auto

lemma dead_letter_ok:
  assumes "dead_letter i x st = (Inr u, st')"
  shows "rows (conn st') = (rows (conn st))(i := None)" and "queued st' = (queued st)(i := None)"
    and "issued st' = issued st" and "same_frame st st'"
    and "buried st' = buried st @ (case queued st i of None \<Rightarrow> [] | Some m \<Rightarrow> [m])"
    and "\<exists>failed. dead_letters (conn st') = dead_letters (conn st) @
           (case rows (conn st) i of None \<Rightarrow> []
            | Some r \<Rightarrow> [dead_row_of (dead_seq (conn st) + 1) failed x r])"
    and "outbox (conn st') = filter (\<lambda>r. ob_id r \<noteq> i) (outbox (conn st))"
proof -
  from assms obtain failed db1 where
    1: "sql_insert_dead_letter i failed x (conn st) = Inr ((), db1)"
    and 2: "sql_delete_outbox i db1 = Inr ((), conn st')" and f: "same_frame st st'"
    by (auto elim: dead_letter_cases)
  note ins = rows_dead_letter [OF 1] and del = rows_delete [OF 2]
  show r: "rows (conn st') = (rows (conn st))(i := None)" using ins del by simp
  then show "queued st' = (queued st)(i := None)" by (auto simp: queued_def fun_eq_iff)
  show "issued st' = issued st" using ins del by (simp add: issued_def)
  show "outbox (conn st') = filter (\<lambda>r. ob_id r \<noteq> i) (outbox (conn st))" using ins del by simp
  show d: "\<exists>failed. dead_letters (conn st') = dead_letters (conn st) @
      (case rows (conn st) i of None \<Rightarrow> [] | Some r \<Rightarrow> [dead_row_of (dead_seq (conn st) + 1) failed x r])"
    using ins del by (intro exI [of _ failed]) simp
  then show "buried st' = buried st @ (case queued st i of None \<Rightarrow> [] | Some m \<Rightarrow> [m])"
    by (auto simp: buried_def queued_def row_to_stored_def dead_row_of_def split: option.splits)
  show "same_frame st st'" by (fact f)
qed

interpretation oq: durable_queue store_inv queued issued buried wf_message
    enqueue mark_delivered reschedule dead_letter
proof (unfold_locales, goal_cases)
  case (1 s m r s') then show ?case by (rule enqueue_inv)
next
  case (2 s m i s') then show ?case using enqueue_ok by blast
next
  case (3 m s e s') show ?case using enqueue_err [OF 3] by (intro same_conn) simp
next
  case (4 s i q s') then show ?case by (rule mark_delivered_inv)
next
  case (5 i s u s') then show ?case using mark_delivered_ok by blast
next
  case (6 i s e s') show ?case using mark_delivered_err [OF 6] by (intro same_conn) simp
next
  case (7 s at i n q s') then show ?case by (rule reschedule_inv)
next
  case (8 i n at s q s') then show ?case by (rule reschedule_same)
next
  case (9 s i x q s') then show ?case by (rule dead_letter_inv)
next
  case (10 i x s u s') show ?case using dead_letter_ok(2,3,5) [OF 10] by (intro conjI)
next
  case (11 i x s e s') show ?case using dead_letter_err [OF 11] by (intro same_conn) simp
next
  case (12 s i m)
  then show ?case by (auto simp: queued_def issued_def db_inv_def dest!: rows_Some)
qed

subsection \<open>Claiming and waking\<close>

lemma select_ready_Some:
  assumes "sql_select_ready now db = Inr (Some sm, db')"
  shows "\<exists>r\<in>set (outbox db). sm = row_to_stored r \<and> next_attempt_at r \<le> now \<and>
           (\<forall>r'\<in>set (outbox db). next_attempt_at r' \<le> now \<longrightarrow>
              row_key r \<le> row_key r')"
proof -
  let ?ready = "filter (\<lambda>r. next_attempt_at r \<le> now) (outbox db)"
  obtain r rest where s: "sort_key row_key ?ready = r # rest" and sm: "sm = row_to_stored r"
    using assms by (auto simp: sql_select_ready_def split: list.splits)
  have set: "set (r # rest) = set ?ready" unfolding s [symmetric] by simp
  have "sorted (map row_key (r # rest))" unfolding s [symmetric] by simp
  then have "row_key r \<le> row_key r'" if "r' \<in> set (r # rest)" for r'
    using that by (auto simp del: row_key_le)
  with set sm show ?thesis
    by (intro bexI [of _ r]) (auto simp del: row_key_le)
qed

lemma select_ready_None:
  "sql_select_ready now db = Inr (None, db') \<longleftrightarrow>
     db' = db \<and> (\<forall>r\<in>set (outbox db). now < next_attempt_at r)"
proof -
  let ?ready = "filter (\<lambda>r. next_attempt_at r \<le> now) (outbox db)"
  have "sort_key row_key ?ready = [] \<longleftrightarrow> ?ready = []"
    by (metis set_empty set_sort)
  then show ?thesis
    by (auto simp: sql_select_ready_def filter_empty_conv not_le split: list.splits)
qed

lemma fold_min: "fold min ts (t :: int) \<in> set (t # ts) \<and> (\<forall>x\<in>set (t # ts). fold min ts t \<le> x)"
proof (induction ts arbitrary: t)
  case Nil
  show ?case by simp
next
  case (Cons u ts)
  from Cons [of "min u t"] show ?case by (auto simp: min_def split: if_splits)
qed

lemma min_wakeup_Some:
  assumes "sql_min_wakeup now db = Inr (Some at, db')"
  shows "now < at" and "\<exists>r\<in>set (outbox db). next_attempt_at r = at"
    and "\<And>r. r \<in> set (outbox db) \<Longrightarrow> now < next_attempt_at r \<Longrightarrow> at \<le> next_attempt_at r"
proof -
  obtain t ts where f: "filter (\<lambda>t. now < t) (map next_attempt_at (outbox db)) = t # ts"
    and at: "at = fold min ts t"
    using assms by (auto simp: sql_min_wakeup_def split: list.splits)
  have m: "x \<in> set (t # ts) \<longleftrightarrow> (\<exists>r\<in>set (outbox db). x = next_attempt_at r) \<and> now < x" for x
    unfolding f [symmetric] by auto
  from fold_min [of ts t] at have "at \<in> set (t # ts)" and le: "\<forall>x\<in>set (t # ts). at \<le> x" by auto
  with m show "now < at" "\<exists>r\<in>set (outbox db). next_attempt_at r = at" by auto
  show "at \<le> next_attempt_at r" if "r \<in> set (outbox db)" "now < next_attempt_at r" for r
    using that le m by blast
qed

lemma min_wakeup_None:
  "sql_min_wakeup now db = Inr (None, db') \<Longrightarrow> r \<in> set (outbox db) \<Longrightarrow> next_attempt_at r \<le> now"
  by (auto simp: sql_min_wakeup_def filter_empty_conv not_less split: list.splits)

lemma claim_Some:
  assumes "store_inv st" and "claim_next_ready now st = (Inr (Some sm), st')"
  shows "conn st' = conn st" and "same_frame st st'"
    and "\<exists>r. rows (conn st) (sm_id sm) = Some r \<and> sm = row_to_stored r \<and> next_attempt_at r \<le> now \<and>
           (\<forall>j r'. rows (conn st) j = Some r' \<longrightarrow> next_attempt_at r' \<le> now \<longrightarrow>
              next_attempt_at r < next_attempt_at r' \<or> next_attempt_at r = next_attempt_at r' \<and> sm_id sm \<le> j)"
proof -
  from assms(2) have s: "sql_select_ready now (conn st) = Inr (Some sm, conn st)"
    and "conn st' = conn st" "same_frame st st'"
    by (auto elim: claim_next_ready_cases)
  then show "conn st' = conn st" "same_frame st st'" by simp_all
  from select_ready_Some [OF s] obtain r where r: "r \<in> set (outbox (conn st))" "sm = row_to_stored r"
    "next_attempt_at r \<le> now"
    and least: "\<And>r'. r' \<in> set (outbox (conn st)) \<Longrightarrow> next_attempt_at r' \<le> now \<Longrightarrow>
       row_key r \<le> row_key r'" by blast
  have "sm_id sm = ob_id r" using r by (simp add: row_to_stored_def)
  with r rows_member [OF assms(1) r(1)] least
  show "\<exists>r. rows (conn st) (sm_id sm) = Some r \<and> sm = row_to_stored r \<and> next_attempt_at r \<le> now \<and>
      (\<forall>j r'. rows (conn st) j = Some r' \<longrightarrow> next_attempt_at r' \<le> now \<longrightarrow>
         next_attempt_at r < next_attempt_at r' \<or> next_attempt_at r = next_attempt_at r' \<and> sm_id sm \<le> j)"
    by (intro exI [of _ r]) (fastforce dest: rows_Some)
qed

lemma claim_None:
  assumes "claim_next_ready now st = (Inr None, st')"
  shows "conn st' = conn st" and "same_frame st st'"
    and "\<And>r. r \<in> set (outbox (conn st)) \<Longrightarrow> now < next_attempt_at r"
  using assms by (auto elim!: claim_next_ready_cases simp: select_ready_None)

subsection \<open>A small store to evaluate on\<close>

definition ex_message :: message where
  "ex_message = \<lparr>msg_from = Some ''s@x'', msg_to = [''a@x'', ''b@y''], msg_subject = None, msg_body = ''hi''\<rparr>"

definition ex_store :: message_store where
  "ex_store = \<lparr>conn = empty_database, notify = False, max_len = 1, sql_faults = [], clock = [Some 7]\<rparr>"

definition ex_row :: outbox_row where
  "ex_row = \<lparr>ob_id = 1, from_addr = Some ''s@x'', to_addrs = ''a@x'' @ [CHR 0x0A] @ ''b@y'', ob_subject = None,
             ob_body = ''hi'', ob_attempts = 0, next_attempt_at = 0, created_at = 7\<rparr>"

definition ex_store1 :: message_store where
  "ex_store1 = ex_store\<lparr>conn := empty_database\<lparr>outbox := [ex_row], outbox_seq := 1\<rparr>, notify := True, clock := []\<rparr>"

lemma ex_wf [simp]: "wf_message ex_message"
  by (simp add: wf_message_def wf_recipients_def ex_message_def)

lemma ex_inv [simp]: "store_inv ex_store" "sql_faults ex_store = []"
  by (simp_all add: ex_store_def)

lemma ex_inv1 [simp]: "store_inv ex_store1" "sql_faults ex_store1 = []"
  by (simp_all add: ex_store1_def ex_store_def db_inv_def ex_row_def empty_database_def i64_max_def is_i64_def)

lemmas store_eval = exec_sql_no_fault with_conn_no_fault sql_count_outbox_def sql_insert_outbox_def
  sql_select_ready_def sql_delete_outbox_def sql_update_outbox_def sql_insert_dead_letter_def
  sql_min_wakeup_def sql_count_dead_def enqueue_def enqueue_locked_def insert_message_def
  claim_next_ready_def remove_def mark_delivered_def dead_letter_tx_def dead_letter_def
  dead_letter_len_def reschedule_def next_wakeup_def len_def unix_now_def Let_def

lemma ex_enqueue [simp]: "enqueue ex_message ex_store = (Inr 1, ex_store1)"
  by (simp add: store_eval ex_store_def ex_store1_def ex_row_def ex_message_def empty_database_def
      encode_recipients_def i64_max_def wrap_i64_def)

lemma ex_row_stored [simp]: "row_to_stored ex_row = \<lparr>sm_id = 1, sm_message = ex_message, sm_attempts = 0\<rparr>"
  by (simp add: row_to_stored_def ex_row_def ex_message_def decode_recipients_def)

lemma ex_claim [simp]:
  "claim_next_ready 7 ex_store1 = (Inr (Some \<lparr>sm_id = 1, sm_message = ex_message, sm_attempts = 0\<rparr>), ex_store1)"
  by (simp add: store_eval ex_store1_def ex_store_def) (simp add: ex_row_def)

subsection \<open>Properties\<close>

text \<open>
  C15. Enqueueing refines the insertion of a fresh key into the map of queued messages: a
  successful \<open>enqueue\<close> adds exactly the message under an id that was never issued before and
  leaves a permit for the worker; a failing one leaves tables and permit as they were. The
  invariant of the tables is kept either way.
\<close>

theorem enqueue_refines_map:
  assumes "store_inv st" and "wf_message m" and "enqueue m st = (r, st')"
  shows "store_inv st' \<and>
    (case r of
       Inl e \<Rightarrow> conn st' = conn st \<and> notify st' = notify st
     | Inr i \<Rightarrow> i \<notin> issued st \<and> issued st' = insert i (issued st) \<and>
         queued st' = (queued st)(i \<mapsto> m) \<and> buried st' = buried st \<and> notify st')"
proof (cases r)
  case (Inl e)
  with assms show ?thesis
    using enqueue_inv enqueue_err by (fastforce dest: same_frame_notify)
next
  case (Inr i)
  with assms show ?thesis using enqueue_inv enqueue_ok(1-5) by auto
qed

theorem enqueue_refines_map_witness:
  "enqueue ex_message ex_store = (Inr 1, ex_store1) \<and> queued ex_store1 1 = Some ex_message \<and> 1 \<notin> issued ex_store"
  using enqueue_refines_map [of ex_store ex_message "Inr 1" ex_store1] by simp

text \<open>
  C14. Backpressure: with no storage failure, \<open>enqueue\<close> refuses with \<open>QueueFull\<close> exactly when
  a limit is set and the outbox holds that many messages, otherwise it returns the next row
  id; a limited outbox never grows beyond the limit.
\<close>

theorem enqueue_capacity:
  assumes "sql_faults st = []" and "outbox_seq (conn st) < i64_max"
  shows "fst (enqueue m st) =
      (if 0 < max_len st \<and> max_len st \<le> length (outbox (conn st)) then Inl QueueFull
       else Inr (outbox_seq (conn st) + 1))
    \<and> (0 < max_len st \<and> length (outbox (conn st)) \<le> max_len st \<longrightarrow>
         length (outbox (conn (snd (enqueue m st)))) \<le> max_len st)"
proof -
  obtain c st1 where c: "unix_now st = (c, st1)" by fastforce
  then have 1: "sql_faults st1 = []" "conn st1 = conn st" "max_len st1 = max_len st"
    using assms(1) by (auto simp: unix_now_def split: list.splits option.splits)
  then have 2: "st1\<lparr>conn := conn st\<rparr> = st1" by (metis message_store.surjective message_store.update_convs(1))
  have "enqueue m st =
      (if 0 < max_len st \<and> max_len st \<le> length (outbox (conn st)) then (Inl QueueFull, st1)
       else (case insert_message m c st1 of (Inl e, st2) \<Rightarrow> (Inl e, st2) | (Inr i, st2) \<Rightarrow> (Inr i, st2\<lparr>notify := True\<rparr>)))"
    using 1 c
    by (simp add: enqueue_def enqueue_locked_def with_conn_no_fault exec_sql_no_fault sql_count_outbox_def)
      (subst 2, simp)
  moreover have "insert_message m c st1 =
      (Inr (outbox_seq (conn st) + 1), st1\<lparr>conn := (conn st)\<lparr>outbox := outbox (conn st) @
         [\<lparr>ob_id = outbox_seq (conn st) + 1, from_addr = msg_from m, to_addrs = encode_recipients (msg_to m),
           ob_subject = msg_subject m, ob_body = msg_body m, ob_attempts = 0, next_attempt_at = 0, created_at = c\<rparr>],
         outbox_seq := outbox_seq (conn st) + 1\<rparr>\<rparr>)"
    using 1 assms(2) by (simp add: insert_message_def exec_sql_no_fault sql_insert_outbox_def Let_def)
  ultimately show ?thesis using 1 by auto
qed

theorem enqueue_capacity_witness:
  "fst (enqueue ex_message ex_store1) = Inl QueueFull \<and> fst (enqueue ex_message ex_store) = Inr 1"
  using enqueue_capacity [of ex_store1 ex_message] enqueue_capacity [of ex_store ex_message]
  by (simp add: ex_store1_def ex_store_def empty_database_def i64_max_def)

text \<open>
  C22. Claiming returns the earliest due message: when something is due, the claimed row is
  due and no due row has an earlier time, or the same time and a smaller id; when nothing is
  claimed, every queued row lies in the future. The tables are not changed.
\<close>

theorem claim_earliest_due:
  assumes "store_inv st" and "sql_faults st = []"
  shows "conn (snd (claim_next_ready now st)) = conn st \<and>
    (case fst (claim_next_ready now st) of
       Inl e \<Rightarrow> False
     | Inr None \<Rightarrow> (\<forall>j r. rows (conn st) j = Some r \<longrightarrow> now < next_attempt_at r)
     | Inr (Some sm) \<Rightarrow>
         (\<exists>r. rows (conn st) (sm_id sm) = Some r \<and> sm = row_to_stored r \<and> next_attempt_at r \<le> now \<and>
            (\<forall>j r'. rows (conn st) j = Some r' \<longrightarrow> next_attempt_at r' \<le> now \<longrightarrow>
               next_attempt_at r < next_attempt_at r' \<or> next_attempt_at r = next_attempt_at r' \<and> sm_id sm \<le> j)))"
proof -
  obtain q st' where q: "claim_next_ready now st = (q, st')" by fastforce
  have nofail: "\<exists>a. q = Inr a"
    using q assms(2)
    by (auto simp: claim_next_ready_def with_conn_no_fault exec_sql_no_fault sql_select_ready_def split: list.splits)
  then consider (none) "q = Inr None" | (some) sm where "q = Inr (Some sm)" by (metis option.exhaust)
  then show ?thesis
  proof cases
    case none
    with q have c: "claim_next_ready now st = (Inr None, st')" by simp
    from claim_None [OF c] none q show ?thesis by (auto dest: rows_Some)
  next
    case (some sm)
    with q have c: "claim_next_ready now st = (Inr (Some sm), st')" by simp
    from claim_Some(1,3) [OF assms(1) c] some q show ?thesis by simp
  qed
qed

theorem claim_earliest_due_witness:
  "\<exists>r. rows (conn ex_store1) 1 = Some r \<and> next_attempt_at r \<le> 7"
  using claim_earliest_due [of ex_store1 7] by auto

text \<open>
  C21. Moving to the dead-letter table is atomic: when \<open>dead_letter\<close> reports success the row
  has left the outbox and its copy (same content, with the error) is the new last dead letter;
  when any of its statements fails, neither table has changed, so a message is never in both
  tables and never in none.
\<close>

theorem dead_letter_atomic:
  assumes "store_inv st" and "dead_letter i x st = (q, st')"
  shows "store_inv st' \<and>
    (case q of
       Inl e \<Rightarrow> conn st' = conn st
     | Inr u \<Rightarrow> rows (conn st') = (rows (conn st))(i := None) \<and>
         (\<exists>failed. dead_letters (conn st') = dead_letters (conn st) @
            (case rows (conn st) i of None \<Rightarrow> []
             | Some r \<Rightarrow> [dead_row_of (dead_seq (conn st) + 1) failed x r])))"
  using assms dead_letter_inv dead_letter_err dead_letter_ok(1,6) by (cases q) (auto 0 3)

theorem dead_letter_atomic_witness:
  "rows (conn (snd (dead_letter 1 ''gone'' ex_store1))) 1 = None \<and>
   (\<exists>d. dead_letters (conn (snd (dead_letter 1 ''gone'' ex_store1))) = [d] \<and> last_error d = ''gone'')"
proof -
  obtain q st' where q: "dead_letter 1 ''gone'' ex_store1 = (q, st')" by fastforce
  then have "q = Inr ()"
    by (simp add: store_eval ex_store1_def ex_store_def ex_row_def empty_database_def i64_max_def)
  with dead_letter_atomic [OF ex_inv1(1) q] q show ?thesis
    by (auto simp: rows_def ex_store1_def ex_store_def ex_row_def empty_database_def dead_row_of_def)
qed

text \<open>
  Durability of the queue: a queued message stays queued, unchanged, through any sequence
  of storage calls (with any failures among them) that neither acknowledges nor dead-letters
  its id.
\<close>

lemma queued_until_released:
  assumes "store_inv st" and "\<forall>c\<in>set cs. good_call wf_message c \<and> \<not> releases i c"
    and "queued st i = Some m"
  shows "queued (fold (queue_step enqueue mark_delivered reschedule dead_letter) cs st) i = Some m"
  using assms by (rule oq.calls_keep)

lemma queued_until_released_witness:
  "queued (fold (queue_step enqueue mark_delivered reschedule dead_letter)
     [Retry_call 1 3 99, Ack_call 2, Enqueue_call ex_message] ex_store1) 1 = Some ex_message"
proof (rule queued_until_released)
  show "store_inv ex_store1" by simp
  show "\<forall>c\<in>set [Retry_call 1 3 99, Ack_call 2, Enqueue_call ex_message]. good_call wf_message c \<and> \<not> releases 1 c"
    by (simp add: good_call_def releases_def is_i64_def)
  show "queued ex_store1 1 = Some ex_message"
    by (simp add: queued_def rows_def ex_store1_def ex_store_def empty_database_def) (simp add: ex_row_def)
qed

text \<open>
  C23. Storage round trip: whatever is claimed under the id that \<open>enqueue\<close> returned is the
  message that was enqueued, with every recipient, after any storage calls in between that do
  not release the id.
\<close>

theorem enqueue_claim_roundtrip:
  assumes "store_inv st" and "wf_message m" and "enqueue m st = (Inr i, st1)"
    and "\<forall>c\<in>set cs. good_call wf_message c \<and> \<not> releases i c"
    and "claim_next_ready now (fold (queue_step enqueue mark_delivered reschedule dead_letter) cs st1)
           = (Inr (Some sm), st2)"
    and "sm_id sm = i"
  shows "sm_message sm = m"
proof -
  let ?st = "fold (queue_step enqueue mark_delivered reschedule dead_letter) cs st1"
  have inv1: "store_inv st1" and q1: "queued st1 i = Some m"
    using enqueue_inv [OF assms(1,3)] enqueue_ok(1) [OF assms(1-3)] by simp_all
  have inv: "store_inv ?st" using oq.calls_issued [OF inv1] assms(4) by blast
  have "queued ?st i = Some m" by (rule oq.calls_keep [OF inv1 assms(4) q1])
  with claim_Some(3) [OF inv assms(5)] assms(6) show ?thesis by (auto simp: queued_def)
qed

theorem enqueue_claim_roundtrip_witness:
  "sm_message \<lparr>sm_id = 1, sm_message = ex_message, sm_attempts = 0\<rparr> = ex_message"
  by (rule enqueue_claim_roundtrip [OF ex_inv(1) ex_wf ex_enqueue, of "[]" 7 _ ex_store1]) simp_all

end
