(* ===== verification/Routing.thy ===== *)
theory Routing
  imports Settings Store
begin

section \<open>Routing a message to a room (src/matrix/routing.rs)\<close>

text \<open>
  The router. A room id is parsed by the crate \<open>ruma\<close>: \<open>'room\<close> is its type of parsed ids and
  \<open>parse_room\<close> its parser, with the message of the error when it refuses.

  Theorems: which room a message goes to, that neither the case of an address nor anything but
  the addresses matters, when a configuration has a router, and what the router's rules are.
\<close>

record 'room compiled_route =
  cr_to :: "string option"
  cr_from :: "string option"
  cr_room_id :: 'room

record 'room router =
  routes :: "'room compiled_route list"
  default_room_id :: 'room

definition route_matches :: "'room compiled_route \<Rightarrow> message \<Rightarrow> bool" where
  "route_matches r m =
     (if (case cr_from r of
            Some want_from \<Rightarrow>
              \<not> (case msg_from m of Some f \<Rightarrow> eq_ignore_ascii_case f want_from | None \<Rightarrow> False)
          | None \<Rightarrow> False) then False
      else if (case cr_to r of
            Some want_to \<Rightarrow> \<not> list_ex (\<lambda>addr. eq_ignore_ascii_case addr want_to) (msg_to m)
          | None \<Rightarrow> False) then False
      else True)"

definition resolve :: "'room router \<Rightarrow> message \<Rightarrow> 'room" where
  "resolve router m =
     (case find (\<lambda>r. route_matches r m) (routes router) of
        Some r \<Rightarrow> cr_room_id r
      | None \<Rightarrow> default_room_id router)"

definition blank_to_none :: "string option \<Rightarrow> string option" where
  "blank_to_none v =
     (case map_option trim v of Some s \<Rightarrow> if s \<noteq> [] then Some s else None | None \<Rightarrow> None)"

definition parse_room_id :: "(string \<Rightarrow> string + 'room) \<Rightarrow> string \<Rightarrow> string \<Rightarrow> 'room result" where
  "parse_room_id parse_room v field =
     (case parse_room v of
        Inr r \<Rightarrow> Inr r
      | Inl e \<Rightarrow> Inl (Config (''invalid '' @ field @ '' ('' @ v @ ''): '' @ e)))"

definition compile_route :: "(string \<Rightarrow> string + 'room) \<Rightarrow> nat \<Rightarrow> route_config \<Rightarrow> 'room compiled_route result" where
  "compile_route parse_room idx route =
     (let to = blank_to_none (rt_to route); frm = blank_to_none (rt_from route) in
      if to = None \<and> frm = None then
        Inl (Config (''matrix.routes['' @ nat_str idx @ ''] must set at least one of `to` or `from`''))
      else
        (case parse_room_id parse_room (rt_room_id route) (''matrix.routes['' @ nat_str idx @ ''].room_id'') of
           Inl e \<Rightarrow> Inl e
         | Inr room \<Rightarrow> Inr \<lparr>cr_to = to, cr_from = frm, cr_room_id = room\<rparr>))"

text \<open>\<open>collect\<close> into a \<open>Result\<close> stops at the first error.\<close>

fun compile_routes :: "(string \<Rightarrow> string + 'room) \<Rightarrow> nat \<Rightarrow> route_config list \<Rightarrow> 'room compiled_route list result" where
  "compile_routes parse_room idx [] = Inr []"
| "compile_routes parse_room idx (r # rs) =
     (case compile_route parse_room idx r of
        Inl e \<Rightarrow> Inl e
      | Inr c \<Rightarrow>
          (case compile_routes parse_room (Suc idx) rs of
             Inl e \<Rightarrow> Inl e
           | Inr cs \<Rightarrow> Inr (c # cs)))"

definition build :: "(string \<Rightarrow> string + 'room) \<Rightarrow> string \<Rightarrow> route_config list \<Rightarrow> 'room router result" where
  "build parse_room fallback rs =
     (case parse_room_id parse_room fallback ''matrix.room_id'' of
        Inl e \<Rightarrow> Inl e
      | Inr room \<Rightarrow>
          (case compile_routes parse_room 0 rs of
             Inl e \<Rightarrow> Inl e
           | Inr cs \<Rightarrow> Inr \<lparr>routes = cs, default_room_id = room\<rparr>))"

definition router_from_config :: "(string \<Rightarrow> string + 'room) \<Rightarrow> matrix_config \<Rightarrow> 'room router result" where
  "router_from_config parse_room mx = build parse_room (room_id mx) (mx_routes mx)"

subsection \<open>Lemmas\<close>

lemma route_matches_iff:
  "route_matches r m \<longleftrightarrow>
     (\<forall>f. cr_from r = Some f \<longrightarrow> (\<exists>s. msg_from m = Some s \<and> eq_ignore_ascii_case s f)) \<and>
     (\<forall>t. cr_to r = Some t \<longrightarrow> (\<exists>s\<in>set (msg_to m). eq_ignore_ascii_case s t))"
  by (auto simp: route_matches_def list_ex_iff split: option.splits)

definition lower_addresses :: "message \<Rightarrow> string option \<times> string set" where
  "lower_addresses m = (map_option to_ascii_lowercase (msg_from m), to_ascii_lowercase ` set (msg_to m))"

lemma route_matches_lower:
  "route_matches r m \<longleftrightarrow>
     (\<forall>f. cr_from r = Some f \<longrightarrow> fst (lower_addresses m) = Some (to_ascii_lowercase f)) \<and>
     (\<forall>t. cr_to r = Some t \<longrightarrow> to_ascii_lowercase t \<in> snd (lower_addresses m))"
proof -
  have 1: "(\<exists>s. msg_from m = Some s \<and> to_ascii_lowercase s = x) \<longleftrightarrow> map_option to_ascii_lowercase (msg_from m) = Some x" for x
    by auto
  have 2: "(\<exists>s\<in>A. to_ascii_lowercase s = x) \<longleftrightarrow> x \<in> to_ascii_lowercase ` A" for x A
    by auto
  show ?thesis
    by (simp only: route_matches_iff lower_addresses_def eq_ignore_ascii_case_def 1 2 fst_conv snd_conv)
qed

lemma blank_to_none_Some: "blank_to_none v = Some s \<longleftrightarrow> (\<exists>x. v = Some x \<and> s = trim x \<and> s \<noteq> [])"
  by (auto simp: blank_to_none_def split: option.split)

lemma blank_to_none_None: "blank_to_none v = None \<longleftrightarrow> (\<forall>x. v = Some x \<longrightarrow> trim x = [])"
  by (auto simp: blank_to_none_def split: option.split)

text \<open>What a compiled rule has to do with the rule it comes from.\<close>

definition compiled_from :: "(string \<Rightarrow> string + 'room) \<Rightarrow> route_config \<Rightarrow> 'room compiled_route \<Rightarrow> bool" where
  "compiled_from parse_room r c \<longleftrightarrow>
     cr_to c = blank_to_none (rt_to r) \<and> cr_from c = blank_to_none (rt_from r) \<and>
     (cr_to c \<noteq> None \<or> cr_from c \<noteq> None) \<and> parse_room (rt_room_id r) = Inr (cr_room_id c)"

lemma compile_route_Inr: "compile_route parse_room i r = Inr c \<longleftrightarrow> compiled_from parse_room r c"
  by (cases c) (auto simp: compile_route_def compiled_from_def parse_room_id_def Let_def split: sum.split)

lemma compile_routes_Inr:
  "compile_routes parse_room i rs = Inr cs \<longleftrightarrow> list_all2 (compiled_from parse_room) rs cs"
proof (induction rs arbitrary: i cs)
  case Nil
  then show ?case by (auto split: sum.split)
next
  case (Cons r rs)
  show ?case
  proof (cases "compile_route parse_room i r")
    case (Inl e)
    then have "\<not> compiled_from parse_room r c" for c
      using compile_route_Inr [of parse_room i r c] by simp
    with Inl show ?thesis by (auto simp: list_all2_Cons1)
  next
    case (Inr c)
    then have c: "compiled_from parse_room r d \<longleftrightarrow> d = c" for d
      using compile_route_Inr [of parse_room i r d] by auto
    show ?thesis
    proof (cases "compile_routes parse_room (Suc i) rs")
      case (Inl e)
      then have "\<not> list_all2 (compiled_from parse_room) rs ds" for ds
        using Cons.IH [of "Suc i" ds] by simp
      with Inl Inr show ?thesis by (auto simp: list_all2_Cons1)
    next
      case (Inr ds)
      then have "list_all2 (compiled_from parse_room) rs es \<longleftrightarrow> es = ds" for es
        using Cons.IH [of "Suc i" es] by auto
      with Inr \<open>compile_route parse_room i r = Inr c\<close> show ?thesis by (auto simp: list_all2_Cons1 c)
    qed
  qed
qed

lemma build_Inr:
  "build parse_room d rs = Inr router \<longleftrightarrow>
     parse_room d = Inr (default_room_id router) \<and> list_all2 (compiled_from parse_room) rs (routes router)"
proof (cases "parse_room d")
  case (Inl e)
  then show ?thesis by (simp add: build_def parse_room_id_def)
next
  case (Inr room)
  show ?thesis
  proof (cases "compile_routes parse_room 0 rs")
    case (Inl e)
    then have "\<not> list_all2 (compiled_from parse_room) rs cs" for cs
      using compile_routes_Inr [of parse_room 0 rs cs] by simp
    with Inl Inr show ?thesis by (simp add: build_def parse_room_id_def)
  next
    case (Inr cs)
    then have "list_all2 (compiled_from parse_room) rs ds \<longleftrightarrow> ds = cs" for ds
      using compile_routes_Inr [of parse_room 0 rs ds] by auto
    with Inr \<open>parse_room d = Inr room\<close> show ?thesis
      by (cases router) (auto simp: build_def parse_room_id_def)
  qed
qed

subsection \<open>Properties\<close>

lemma resolve_cases:
  "(\<exists>before r after. routes router = before @ r # after \<and> route_matches r m \<and>
      (\<forall>x\<in>set before. \<not> route_matches x m) \<and> resolve router m = cr_room_id r) \<or>
   (\<forall>x\<in>set (routes router). \<not> route_matches x m) \<and> resolve router m = default_room_id router"
proof (cases "find (\<lambda>r. route_matches r m) (routes router)")
  case None
  then have "\<forall>x\<in>set (routes router). \<not> route_matches x m" by (simp add: find_None_iff)
  with None show ?thesis by (simp add: resolve_def)
next
  case (Some r)
  then obtain i where i: "i < length (routes router)" "route_matches r m" "r = routes router ! i"
    "\<forall>j<i. \<not> route_matches (routes router ! j) m"
    by (auto simp: find_Some_iff)
  then have "routes router = take i (routes router) @ r # drop (Suc i) (routes router)"
    by (simp add: id_take_nth_drop)
  moreover have "\<forall>x\<in>set (take i (routes router)). \<not> route_matches x m"
    using i by (auto simp: in_set_conv_nth)
  ultimately show ?thesis using i(2) Some by (auto simp: resolve_def)
qed

text \<open>
  The specification of a rule: its sender selector, if it has one, is the message's sender,
  and its recipient selector, if it has one, is among the recipients, letter case aside.
\<close>

definition applies :: "'room compiled_route \<Rightarrow> message \<Rightarrow> bool" where
  "applies r m \<longleftrightarrow>
     (\<forall>f. cr_from r = Some f \<longrightarrow> map_option to_ascii_lowercase (msg_from m) = Some (to_ascii_lowercase f)) \<and>
     (\<forall>t. cr_to r = Some t \<longrightarrow> to_ascii_lowercase t \<in> to_ascii_lowercase ` set (msg_to m))"

lemma applies_iff: "applies r m \<longleftrightarrow> route_matches r m"
  by (simp add: applies_def route_matches_lower lower_addresses_def)

text \<open>
  The rules are tried from top to bottom: the first rule whose sender selector, if it has
  one, is the message's sender and whose recipient selector, if it has one, is among its
  recipients decides the room, up to the case of ASCII letters; a message no rule matches
  goes to the default room.
\<close>

lemma first_match_decides:
  "(\<exists>before r after. routes router = before @ r # after \<and> applies r m \<and>
      (\<forall>x\<in>set before. \<not> applies x m) \<and> resolve router m = cr_room_id r) \<or>
   (\<forall>x\<in>set (routes router). \<not> applies x m) \<and> resolve router m = default_room_id router"
  unfolding applies_iff by (rule resolve_cases)

lemma first_match_decides_witness:
  "let router = \<lparr>routes = [\<lparr>cr_to = Some ''ops@host'', cr_from = Some ''cron@host'', cr_room_id = (1::nat)\<rparr>,
         \<lparr>cr_to = Some ''Ops@host'', cr_from = None, cr_room_id = 2\<rparr>], default_room_id = 0\<rparr>;
       m = \<lparr>msg_from = None, msg_to = [''OPS@host''], msg_subject = None, msg_body = []\<rparr>
   in \<exists>before r after. routes router = before @ r # after \<and> applies r m \<and> resolve router m = cr_room_id r"
proof -
  let ?router = "\<lparr>routes = [\<lparr>cr_to = Some ''ops@host'', cr_from = Some ''cron@host'', cr_room_id = (1::nat)\<rparr>,
         \<lparr>cr_to = Some ''Ops@host'', cr_from = None, cr_room_id = 2\<rparr>], default_room_id = 0\<rparr>"
  let ?m = "\<lparr>msg_from = None, msg_to = [''OPS@host''], msg_subject = None, msg_body = []\<rparr>"
  have "route_matches \<lparr>cr_to = Some ''Ops@host'', cr_from = None, cr_room_id = (2::nat)\<rparr> ?m" by code_simp
  then have "\<exists>x\<in>set (routes ?router). applies x ?m" unfolding applies_iff by simp
  with first_match_decides [of ?router ?m] show ?thesis unfolding Let_def by blast
qed

text \<open>
  Where a message goes depends on the ASCII-lower-case forms of its sender and of its set of
  recipients only: not on letter case, on the order or number of recipients, or on subject
  and body.
\<close>

lemma routing_by_address:
  "lower_addresses m = lower_addresses m' \<Longrightarrow> resolve router m = resolve router m'"
  by (simp add: resolve_def route_matches_lower)

lemma routing_by_address_witness:
  "let r = \<lparr>routes = [\<lparr>cr_to = Some ''Ops@host'', cr_from = None, cr_room_id = (1::nat)\<rparr>], default_room_id = 0\<rparr>;
       m = \<lparr>msg_from = None, msg_to = [''OPS@host''], msg_subject = None, msg_body = []\<rparr>;
       m' = \<lparr>msg_from = None, msg_to = [''ops@HOST'', ''ops@host''], msg_subject = None, msg_body = ''x''\<rparr>
   in resolve r m = resolve r m'"
  unfolding Let_def by (rule routing_by_address) code_simp

text \<open>
  A configuration has a router exactly when the default room id and every rule's room id
  parse and every rule has a selector that is not blank; the router then has one rule per
  configured rule, in order, with trimmed selectors.
\<close>

lemma router_exists:
  "(\<exists>router. router_from_config parse_room mx = Inr router) \<longleftrightarrow>
     (\<exists>room. parse_room (room_id mx) = Inr room) \<and>
     (\<forall>r. r \<in> set (mx_routes mx) \<longrightarrow>
        (\<exists>room. parse_room (rt_room_id r) = Inr room) \<and>
        (blank_to_none (rt_to r) \<noteq> None \<or> blank_to_none (rt_from r) \<noteq> None))"
    (is "?l \<longleftrightarrow> ?r")
proof
  assume ?l
  then obtain router where "router_from_config parse_room mx = Inr router" by blast
  then have b: "parse_room (room_id mx) = Inr (default_room_id router)"
    "list_all2 (compiled_from parse_room) (mx_routes mx) (routes router)"
    by (simp_all add: router_from_config_def build_Inr)
  from b(2) have "\<exists>c. compiled_from parse_room r c" if "r \<in> set (mx_routes mx)" for r
    using that by (auto simp: list_all2_conv_all_nth in_set_conv_nth)
  then have "(\<exists>room. parse_room (rt_room_id r) = Inr room) \<and> (blank_to_none (rt_to r) \<noteq> None \<or> blank_to_none (rt_from r) \<noteq> None)"
    if "r \<in> set (mx_routes mx)" for r
    using that unfolding compiled_from_def by fastforce
  with b(1) show ?r by blast
next
  assume r: ?r
  have "\<exists>c. compiled_from parse_room x c" if "x \<in> set (mx_routes mx)" for x
  proof -
    from r that obtain room where "parse_room (rt_room_id x) = Inr room" by blast
    with r that show ?thesis
      by (intro exI [of _ "\<lparr>cr_to = blank_to_none (rt_to x), cr_from = blank_to_none (rt_from x), cr_room_id = room\<rparr>"])
        (auto simp: compiled_from_def)
  qed
  then obtain f where "\<And>x. x \<in> set (mx_routes mx) \<Longrightarrow> compiled_from parse_room x (f x)" by metis
  then have "list_all2 (compiled_from parse_room) (mx_routes mx) (map f (mx_routes mx))"
    by (simp add: list_all2_conv_all_nth)
  then obtain cs where "list_all2 (compiled_from parse_room) (mx_routes mx) cs" by blast
  moreover from r obtain room where "parse_room (room_id mx) = Inr room" by blast
  ultimately have "router_from_config parse_room mx = Inr \<lparr>routes = cs, default_room_id = room\<rparr>"
    by (simp add: router_from_config_def build_Inr)
  then show ?l by blast
qed

lemma router_exists_witness:
  "\<exists>router. router_from_config (\<lambda>s. if starts_with s ''!'' then Inr s else Inl ''bad'')
     \<lparr>homeserver = [], user_id = [], device_name = [], room_id = ''!a'', store_path = [], require_e2ee = True,
      message_template = [], mx_routes = [\<lparr>rt_to = Some '' a@b '', rt_from = None, rt_room_id = ''!b''\<rparr>],
      credentials = \<lparr>password = None, access_token = None, device_id = None\<rparr>\<rparr> = Inr router"
proof -
  have "blank_to_none (Some '' a@b '') \<noteq> None" by code_simp
  then show ?thesis unfolding router_exists by (simp add: starts_with_def)
qed

end
