(* ===== verification/Formatter.thy ===== *)
theory Formatter
  imports Store
begin

section \<open>Rendering a message (src/matrix/formatter.rs)\<close>

text \<open>
  The template engine \<open>minijinja\<close> is a parameter: \<open>'env\<close> is an environment with the template
  added under the name \<open>message\<close>, \<open>'tmpl\<close> the template looked up in it. \<open>format_message\<close> is
  what the source does around the three calls.
\<close>

record template_context =
  ctx_from :: string
  ctx_to :: string
  ctx_subject :: string
  ctx_body :: string

record ('env, 'tmpl) minijinja =
  add_template :: "string \<Rightarrow> string + 'env"
  get_template :: "'env \<Rightarrow> string + 'tmpl"
  render :: "'tmpl \<Rightarrow> template_context \<Rightarrow> string + string"

definition message_context :: "message \<Rightarrow> template_context" where
  "message_context m =
     \<lparr>ctx_from = (case msg_from m of Some f \<Rightarrow> f | None \<Rightarrow> []),
      ctx_to = join '', '' (msg_to m),
      ctx_subject = (case msg_subject m of Some s \<Rightarrow> s | None \<Rightarrow> []),
      ctx_body = msg_body m\<rparr>"

definition format_message :: "('env, 'tmpl) minijinja \<Rightarrow> message \<Rightarrow> string \<Rightarrow> string result" where
  "format_message j m template_str =
     (case add_template j template_str of
        Inl e \<Rightarrow> Inl (Template (''failed to compile template: '' @ e))
      | Inr env \<Rightarrow>
          (case get_template j env of
             Inl e \<Rightarrow> Inl (Template (''template not found: '' @ e))
           | Inr tmpl \<Rightarrow>
               (case render j tmpl (message_context m) of
                  Inl e \<Rightarrow> Inl (Template (''template render failed: '' @ e))
                | Inr text \<Rightarrow> Inr text)))"

lemma format_message_error: "format_message j m t = Inl e \<Longrightarrow> \<exists>x. e = Template x"
  by (auto simp: format_message_def split: sum.splits)

text \<open>
  A small engine for the examples of the later theories: it renders every template as the
  body, and refuses the empty template.
\<close>

definition ex_minijinja :: "(string, string) minijinja" where
  "ex_minijinja = \<lparr>add_template = (\<lambda>t. if t = [] then Inl ''empty'' else Inr t), get_template = Inr,
     render = (\<lambda>t c. Inr (ctx_body c))\<rparr>"

end
