(* ===== verification/Configuration.thy ===== *)
theory Configuration
  imports Routing Formatter
begin

section \<open>Loading and validating the configuration (src/config.rs)\<close>

text \<open>
  \<open>load_from_path\<close> with its three steps: deserialization (the crate \<open>toml\<close>, a parameter that is
  given the defaults), substitution of environment variables, validation. The parsers of the
  crates \<open>url\<close> and \<open>ruma\<close> and the template engine are parameters as well; the file system and
  the environment are functions. Each check of \<open>validate\<close> is one line of one definition, in
  the order of the source.

  Theorems: the exact meaning of a successful validation, what a loaded configuration
  guarantees to the components that start from it, and when secrets are substituted.
\<close>

record ('url, 'user, 'room) identifiers =
  parse_url :: "string \<Rightarrow> string + 'url"
  parse_user_id :: "string \<Rightarrow> string + 'user"
  parse_room :: "string \<Rightarrow> string + 'room"

definition is_blank :: "string \<Rightarrow> bool" where
  "is_blank v \<longleftrightarrow> trim v = []"

subsection \<open>Validation\<close>

definition check :: "bool \<Rightarrow> string \<Rightarrow> unit result" where
  "check ok err = (if ok then Inr () else Inl (Config err))"

definition check_parse :: "string + 'a \<Rightarrow> string \<Rightarrow> unit result" where
  "check_parse r err = (case r of Inr _ \<Rightarrow> Inr () | Inl e \<Rightarrow> Inl (Config (err @ e)))"

fun first_error :: "unit result list \<Rightarrow> unit result" where
  "first_error [] = Inr ()"
| "first_error (r # rs) = (case r of Inl e \<Rightarrow> Inl e | Inr _ \<Rightarrow> first_error rs)"

definition check_smtp :: "smtp_config \<Rightarrow> unit result" where
  "check_smtp s = first_error
     [check (parse_socket_addr (smtp_bind s) \<noteq> None) ''smtp.bind must be a valid IP:PORT address'',
      check (max_message_size s \<noteq> 0) ''smtp.max_message_size must be greater than zero'',
      check (max_connections s \<noteq> 0) ''smtp.max_connections must be greater than zero'',
      check (max_session_seconds s \<noteq> 0) ''smtp.max_session_seconds must be greater than zero'']"

definition check_queue :: "queue_config \<Rightarrow> unit result" where
  "check_queue q = first_error
     [check (\<not> is_blank (db_path q)) ''queue.db_path must not be empty'',
      check (q_retry_backoff q \<noteq> 0)
        (''queue.retry_backoff must be greater than zero (a zero backoff would '' @
         ''retry a failing message in a tight loop)'')]"

definition check_account :: "('url, 'user, 'room) identifiers \<Rightarrow> matrix_config \<Rightarrow> unit result" where
  "check_account ids mx = first_error
     [check (\<not> is_blank (homeserver mx)) ''matrix.homeserver must not be empty'',
      check_parse (parse_url ids (homeserver mx)) ''invalid matrix.homeserver URL: '',
      check (\<not> is_blank (user_id mx)) ''matrix.user_id must not be empty'',
      check_parse (parse_user_id ids (user_id mx)) ''invalid matrix.user_id: '',
      check (\<not> is_blank (store_path mx)) ''matrix.store_path must not be empty'',
      (case router_from_config (parse_room ids) mx of Inl e \<Rightarrow> Inl e | Inr _ \<Rightarrow> Inr ())]"

definition check_credentials :: "matrix_credentials \<Rightarrow> unit result" where
  "check_credentials c = first_error
     [check (\<not> (password c = None \<and> access_token c = None))
        ''matrix credentials require password or access_token'',
      check (\<not> (password c \<noteq> None \<and> access_token c \<noteq> None))
        ''matrix credentials must use either password or access_token, not both'',
      (case access_token c of
         None \<Rightarrow> Inr ()
       | Some token \<Rightarrow> first_error
           [check (trim token \<noteq> []) ''matrix.credentials.access_token must not be empty'',
            check (case device_id c of None \<Rightarrow> False | Some d \<Rightarrow> trim d \<noteq> [])
              ''matrix.credentials.device_id is required when using access_token''])]"

definition test_context :: template_context where
  "test_context =
     \<lparr>ctx_from = ''test@example.com'', ctx_to = ''recipient@example.com'',
      ctx_subject = ''Test Subject'', ctx_body = ''Test body''\<rparr>"

definition check_template :: "('env, 'tmpl) minijinja \<Rightarrow> string \<Rightarrow> unit result" where
  "check_template j t =
     (case add_template j t of
        Inl e \<Rightarrow> Inl (Config (''matrix.message_template failed to parse: '' @ e))
      | Inr env \<Rightarrow>
          (case get_template j env of
             Inl e \<Rightarrow> Inl (Config (''matrix.message_template internal error: '' @ e))
           | Inr tmpl \<Rightarrow> check_parse (render j tmpl test_context) ''matrix.message_template trial render failed: ''))"

definition validate ::
  "('url, 'user, 'room) identifiers \<Rightarrow> ('env, 'tmpl) minijinja \<Rightarrow> config \<Rightarrow> unit result" where
  "validate ids j c = first_error
     [check_smtp (cfg_smtp c), check_queue (cfg_queue c), check_account ids (cfg_matrix c),
      check_credentials (credentials (cfg_matrix c)), check_template j (message_template (cfg_matrix c))]"

subsection \<open>Debug output\<close>

text \<open>
  The hand-written \<open>Debug\<close> of the credentials: the name and the fields given to the standard
  library's \<open>debug_struct\<close>. It does not depend on the secrets, only on which of them are set.
\<close>

definition debug_credentials :: "matrix_credentials \<Rightarrow> string \<times> (string \<times> string option) list" where
  "debug_credentials c =
     (''MatrixCredentials'',
      [(''password'', map_option (\<lambda>_. ''[REDACTED]'') (password c)),
       (''access_token'', map_option (\<lambda>_. ''[REDACTED]'') (access_token c)),
       (''device_id'', device_id c)])"

lemma debug_hides_secrets:
  "debug_credentials (c\<lparr>password := map_option f (password c), access_token := map_option g (access_token c)\<rparr>) =
   debug_credentials c"
  by (simp add: debug_credentials_def option.map_comp comp_def)

subsection \<open>Environment variables\<close>

definition from_env :: "(string \<Rightarrow> string option) \<Rightarrow> string \<Rightarrow> string option \<Rightarrow> string option result" where
  "from_env env var v =
     (if v = Some (''${'' @ var @ ''}'') then
        (case env var of
           Some x \<Rightarrow> Inr (Some x)
         | None \<Rightarrow> Inl (Config (''config references ${'' @ var @ ''} but the env var is not set'')))
      else Inr v)"

definition override_credentials ::
  "(string \<Rightarrow> string option) \<Rightarrow> matrix_credentials \<Rightarrow> matrix_credentials result" where
  "override_credentials env c =
     (case from_env env ''MATRIX_PASSWORD'' (password c) of
        Inl e \<Rightarrow> Inl e
      | Inr p \<Rightarrow>
          (case from_env env ''MATRIX_ACCESS_TOKEN'' (access_token c) of
             Inl e \<Rightarrow> Inl e
           | Inr t \<Rightarrow>
               (case from_env env ''MATRIX_DEVICE_ID'' (device_id c) of
                  Inl e \<Rightarrow> Inl e
                | Inr d \<Rightarrow> Inr (c\<lparr>password := p, access_token := t, device_id := d\<rparr>))))"

definition apply_env_overrides :: "(string \<Rightarrow> string option) \<Rightarrow> config \<Rightarrow> config result" where
  "apply_env_overrides env c =
     (case override_credentials env (credentials (cfg_matrix c)) of
        Inl e \<Rightarrow> Inl e
      | Inr cr \<Rightarrow> Inr (c\<lparr>cfg_matrix := (cfg_matrix c)\<lparr>credentials := cr\<rparr>\<rparr>))"

subsection \<open>Loading\<close>

definition load_from_path ::
  "(serde_defaults \<Rightarrow> string \<Rightarrow> string + config) \<Rightarrow> ('url, 'user, 'room) identifiers \<Rightarrow> ('env, 'tmpl) minijinja \<Rightarrow>
   (string \<Rightarrow> string + string) \<Rightarrow> (string \<Rightarrow> string option) \<Rightarrow> string \<Rightarrow> config result" where
  "load_from_path toml ids j read_file env path =
     (case read_file path of
        Inl e \<Rightarrow> Inl (Config (path @ '': '' @ e))
      | Inr content \<Rightarrow>
          (case toml config_defaults content of
             Inl e \<Rightarrow> Inl (Config (path @ '': '' @ e))
           | Inr c \<Rightarrow>
               (case apply_env_overrides env c of
                  Inl e \<Rightarrow> Inl e
                | Inr c \<Rightarrow> (case validate ids j c of Inl e \<Rightarrow> Inl e | Inr _ \<Rightarrow> Inr c))))"

definition load_default ::
  "(serde_defaults \<Rightarrow> string \<Rightarrow> string + config) \<Rightarrow> ('url, 'user, 'room) identifiers \<Rightarrow> ('env, 'tmpl) minijinja \<Rightarrow>
   (string \<Rightarrow> string + string) \<Rightarrow> (string \<Rightarrow> string option) \<Rightarrow> config result" where
  "load_default toml ids j read_file env =
     load_from_path toml ids j read_file env
       (case env ''CHIMNEY_CONFIG'' of Some p \<Rightarrow> p | None \<Rightarrow> ''config.toml'')"

subsection \<open>Lemmas\<close>

lemma check_ok [simp]: "check ok err = Inr u \<longleftrightarrow> ok"
  by (simp add: check_def)

lemma check_parse_ok [simp]: "check_parse r err = Inr u \<longleftrightarrow> (\<exists>a. r = Inr a)"
  by (simp add: check_parse_def split: sum.split)

lemma first_error_ok [simp]: "first_error rs = Inr u \<longleftrightarrow> (\<forall>r\<in>set rs. r = Inr ())"
  by (induction rs) (auto split: sum.split)

declare first_error.simps [simp del]

lemma check_smtp_ok: "check_smtp s = Inr u \<longleftrightarrow>
    parse_socket_addr (smtp_bind s) \<noteq> None \<and> max_message_size s \<noteq> 0 \<and> max_connections s \<noteq> 0 \<and> max_session_seconds s \<noteq> 0"
  by (auto simp: check_smtp_def)

lemma check_queue_ok: "check_queue q = Inr u \<longleftrightarrow> \<not> is_blank (db_path q) \<and> q_retry_backoff q \<noteq> 0"
  by (simp add: check_queue_def)

lemma check_account_ok: "check_account ids mx = Inr u \<longleftrightarrow>
    \<not> is_blank (homeserver mx) \<and> (\<exists>a. parse_url ids (homeserver mx) = Inr a) \<and>
    \<not> is_blank (user_id mx) \<and> (\<exists>a. parse_user_id ids (user_id mx) = Inr a) \<and>
    \<not> is_blank (store_path mx) \<and> (\<exists>r. router_from_config (parse_room ids) mx = Inr r)"
  by (auto simp: check_account_def split: sum.split)

definition good_credentials :: "matrix_credentials \<Rightarrow> bool" where
  "good_credentials c \<longleftrightarrow>
     (case (password c, access_token c) of
        (Some p, None) \<Rightarrow> True
      | (None, Some t) \<Rightarrow> \<not> is_blank t \<and> (case device_id c of None \<Rightarrow> False | Some d \<Rightarrow> \<not> is_blank d)
      | _ \<Rightarrow> False)"

lemma check_credentials_ok: "check_credentials c = Inr u \<longleftrightarrow> good_credentials c"
  by (auto simp: check_credentials_def good_credentials_def is_blank_def split: option.split)

definition renders :: "('env, 'tmpl) minijinja \<Rightarrow> string \<Rightarrow> template_context \<Rightarrow> bool" where
  "renders j t ctx \<longleftrightarrow>
     (case add_template j t of Inl _ \<Rightarrow> False | Inr env \<Rightarrow>
       (case get_template j env of Inl _ \<Rightarrow> False | Inr tmpl \<Rightarrow> \<not> isl (render j tmpl ctx)))"

lemma not_isl_iff: "\<not> isl r \<longleftrightarrow> (\<exists>a. r = Inr a)"
  by (cases r) simp_all

lemma check_template_ok: "check_template j t = Inr u \<longleftrightarrow> renders j t test_context"
  by (simp add: check_template_def renders_def not_isl_iff split: sum.split)

lemma renders_format: "renders j t (message_context m) \<longleftrightarrow> is_ok (format_message j m t)"
  by (auto simp: renders_def format_message_def split: sum.split)

lemmas checks_ok = check_smtp_ok check_queue_ok check_account_ok check_credentials_ok check_template_ok

lemma validate_ok:
  "validate ids j c = Inr u \<longleftrightarrow>
     check_smtp (cfg_smtp c) = Inr () \<and> check_queue (cfg_queue c) = Inr () \<and>
     check_account ids (cfg_matrix c) = Inr () \<and>
     check_credentials (credentials (cfg_matrix c)) = Inr () \<and>
     check_template j (message_template (cfg_matrix c)) = Inr ()"
  by (simp add: validate_def)

subsection \<open>Properties\<close>

text \<open>
  C34. Validation accepts exactly the configurations that meet every requirement of the
  sections: an address to bind, positive limits, a queue file, a positive backoff, a home
  server, user id, store path and router that can be built from the text, one way to log in
  (a token only with a device id), and a template that renders.
\<close>

theorem validate_exact:
  "validate ids j c = Inr () \<longleftrightarrow>
     (let s = cfg_smtp c; q = cfg_queue c; mx = cfg_matrix c in
      parse_socket_addr (smtp_bind s) \<noteq> None \<and>
      max_message_size s > 0 \<and> max_connections s > 0 \<and> max_session_seconds s > 0 \<and>
      \<not> is_blank (db_path q) \<and> q_retry_backoff q > 0 \<and>
      \<not> is_blank (homeserver mx) \<and> (\<exists>u. parse_url ids (homeserver mx) = Inr u) \<and>
      \<not> is_blank (user_id mx) \<and> (\<exists>u. parse_user_id ids (user_id mx) = Inr u) \<and>
      \<not> is_blank (store_path mx) \<and> (\<exists>r. router_from_config (parse_room ids) mx = Inr r) \<and>
      good_credentials (credentials mx) \<and> renders j (message_template mx) test_context)"
  unfolding validate_ok checks_ok Let_def by (auto simp: word_gt_0 gr0_conv_Suc not0_implies_Suc)

definition substituted :: "(string \<Rightarrow> string option) \<Rightarrow> string \<Rightarrow> string option \<Rightarrow> string option \<Rightarrow> bool" where
  "substituted env var before after \<longleftrightarrow>
     (if before = Some (''${'' @ var @ ''}'') then after = env var \<and> after \<noteq> None else after = before)"

lemma from_env_ok: "from_env env var v = Inr r \<longleftrightarrow> substituted env var v r"
  by (auto simp: from_env_def substituted_def split: option.split)

lemma override_credentials_ok:
  "override_credentials env c = Inr d \<longleftrightarrow>
     substituted env ''MATRIX_PASSWORD'' (password c) (password d) \<and>
     substituted env ''MATRIX_ACCESS_TOKEN'' (access_token c) (access_token d) \<and>
     substituted env ''MATRIX_DEVICE_ID'' (device_id c) (device_id d)"
proof -
  have "override_credentials env c = Inr d \<longleftrightarrow>
     from_env env ''MATRIX_PASSWORD'' (password c) = Inr (password d) \<and>
     from_env env ''MATRIX_ACCESS_TOKEN'' (access_token c) = Inr (access_token d) \<and>
     from_env env ''MATRIX_DEVICE_ID'' (device_id c) = Inr (device_id d)"
    by (cases c; cases d) (auto simp: override_credentials_def split: sum.split)
  then show ?thesis by (simp only: from_env_ok)
qed

lemma load_default_valid: "load_default toml ids j read_file env = Inr c \<Longrightarrow> validate ids j c = Inr ()"
  by (auto simp: load_default_def load_from_path_def split: sum.splits)

text \<open>
  A configuration that loads is valid, and is the deserialized file with at most the three
  credentials changed: each is the file's value, unless that is the placeholder for its
  environment variable, in which case it is the variable's value (and the variable is set).
\<close>

lemma loaded_config:
  assumes "load_from_path toml ids j read_file env path = Inr c"
  shows "validate ids j c = Inr () \<and>
    (\<exists>content file cr. read_file path = Inr content \<and> toml config_defaults content = Inr file \<and>
       c = file\<lparr>cfg_matrix := (cfg_matrix file)\<lparr>credentials := cr\<rparr>\<rparr> \<and>
       substituted env ''MATRIX_PASSWORD'' (password (credentials (cfg_matrix file))) (password cr) \<and>
       substituted env ''MATRIX_ACCESS_TOKEN'' (access_token (credentials (cfg_matrix file))) (access_token cr) \<and>
       substituted env ''MATRIX_DEVICE_ID'' (device_id (credentials (cfg_matrix file))) (device_id cr))"
  using assms
  by (auto simp: load_from_path_def apply_env_overrides_def override_credentials_ok split: sum.splits)

text \<open>A configuration that validates, with stand-ins for the foreign parsers.\<close>

definition ex_ids :: "(string, string, string) identifiers" where
  "ex_ids = \<lparr>parse_url = Inr, parse_user_id = Inr,
     parse_room = (\<lambda>s. if starts_with s ''!'' then Inr s else Inl ''bad room id'')\<rparr>"

definition ex_matrix_config :: matrix_config where
  "ex_matrix_config =
     \<lparr>homeserver = ''h'', user_id = ''u'', device_name = ''d'', room_id = ''!r'', store_path = ''p'',
      require_e2ee = default_require_e2ee, message_template = ''t'',
      mx_routes = [\<lparr>rt_to = Some ''ops@host'', rt_from = None, rt_room_id = ''!ops''\<rparr>],
      credentials = \<lparr>password = Some ''${MATRIX_PASSWORD}'', access_token = None, device_id = None\<rparr>\<rparr>"

definition ex_config :: config where
  "ex_config =
     \<lparr>cfg_smtp = \<lparr>smtp_bind = ''127.0.0.1:2525'', max_message_size = 100, smtp_timeout = 30,
                  max_connections = default_max_connections,
                  max_session_seconds = default_max_session_seconds\<rparr>,
      cfg_matrix = ex_matrix_config,
      cfg_logging = \<lparr>log_level = ''info'', log_format = ''json''\<rparr>,
      cfg_queue = \<lparr>q_max_retries = 3, q_retry_backoff = 10, db_path = default_queue_db_path,
                   q_max_len = default_queue_max_len\<rparr>\<rparr>"

lemma trim_ex [simp]: "trim ''h'' = ''h''" "trim ''u'' = ''u''" "trim ''p'' = ''p''" "trim ''ops@host'' = ''ops@host''"
  "trim default_queue_db_path = default_queue_db_path"
  by code_simp+

lemma ex_router: "router_from_config (parse_room ex_ids) ex_matrix_config =
    Inr \<lparr>routes = [\<lparr>cr_to = Some ''ops@host'', cr_from = None, cr_room_id = ''!ops''\<rparr>], default_room_id = ''!r''\<rparr>"
  by (simp add: ex_matrix_config_def ex_ids_def router_from_config_def build_def parse_room_id_def
      compile_route_def blank_to_none_def starts_with_def)

lemma ex_config_valid: "validate ex_ids ex_minijinja (ex_config\<lparr>cfg_matrix := ex_matrix_config\<lparr>credentials := cr\<rparr>\<rparr>) = Inr ()"
  if "good_credentials cr"
proof -
  have "router_from_config (parse_room ex_ids) (ex_matrix_config\<lparr>credentials := cr\<rparr>) =
      router_from_config (parse_room ex_ids) ex_matrix_config"
    by (simp add: router_from_config_def)
  moreover have "parse_socket_addr ''127.0.0.1:2525'' \<noteq> None" by (simp add: parse_socket_addr_examples)
  ultimately show ?thesis
    using that unfolding validate_ok checks_ok
    by (simp add: ex_config_def ex_router is_blank_def default_max_connections_def
        default_max_session_seconds_def renders_def ex_minijinja_def)
      (simp add: ex_matrix_config_def ex_ids_def default_queue_db_path_def)
qed

lemma loaded_config_witness:
  "\<exists>c. load_from_path (\<lambda>_ _. Inr ex_config) ex_ids ex_minijinja Inr [''MATRIX_PASSWORD'' \<mapsto> ''secret''] ''config.toml'' = Inr c \<and>
     validate ex_ids ex_minijinja c = Inr () \<and> password (credentials (cfg_matrix c)) = Some ''secret''"
proof -
  let ?cr = "\<lparr>password = Some ''secret'', access_token = None, device_id = None\<rparr>"
  let ?c = "ex_config\<lparr>cfg_matrix := ex_matrix_config\<lparr>credentials := ?cr\<rparr>\<rparr>"
  have m: "cfg_matrix ex_config = ex_matrix_config" "credentials ex_matrix_config = \<lparr>password = Some ''${MATRIX_PASSWORD}'', access_token = None, device_id = None\<rparr>"
    by (simp_all add: ex_config_def ex_matrix_config_def)
  have "apply_env_overrides [''MATRIX_PASSWORD'' \<mapsto> ''secret''] ex_config = Inr ?c"
    by (simp add: apply_env_overrides_def override_credentials_def from_env_def m)
  moreover have "validate ex_ids ex_minijinja ?c = Inr ()"
    by (rule ex_config_valid) (simp add: good_credentials_def)
  ultimately have l: "load_from_path (\<lambda>_ _. Inr ex_config) ex_ids ex_minijinja Inr [''MATRIX_PASSWORD'' \<mapsto> ''secret''] ''config.toml'' = Inr ?c"
    by (simp add: load_from_path_def)
  show ?thesis by (intro exI [of _ ?c] conjI l loaded_config [OF l, THEN conjunct1]) simp
qed

end
