(* ===== verification/Matrix_Client.thy ===== *)
theory Matrix_Client
  imports Configuration
begin

section \<open>The Matrix client (src/matrix/client.rs)\<close>

text \<open>
  Connecting and sending. Everything beyond the client is an environment with a state of type
  \<open>'s\<close>: the home server, the local stores of \<open>matrix-sdk\<close> and the file system. The record
  \<open>sdk\<close> holds the calls the source makes on it; each answers as it likes and may change the
  state. \<open>'client\<close> is a client object and \<open>'handle\<close> a room object of the SDK. The source's
  \<open>?\<close> and \<open>map_err\<close> are \<open>and_then\<close> and \<open>map_err\<close>.

  Theorems: what a send does and when it does not happen, which errors a valid configuration
  excludes, when and what of the crypto store is deleted, and that a pinned device id holds.
\<close>

subsection \<open>The environment\<close>

text \<open>
  An error of the SDK: its text, and for the error itself and each of its sources whether it
  is \<open>CryptoStoreError::MismatchedAccount\<close>.
\<close>

datatype error_cause = Mismatched_account | Other_cause

record sdk_error =
  err_text :: string
  err_chain :: "error_cause list"

datatype encryption_state = Encrypted | NotEncrypted | Unknown

datatype removal = Removed | Not_found | Remove_failed string

record 'user matrix_session =
  ms_user_id :: 'user
  ms_device_id :: string
  ms_access_token :: string

record ('s, 'url, 'user, 'room, 'client, 'handle) sdk =
  sdk_create_dir_all :: "string \<Rightarrow> 's \<Rightarrow> (string + unit) \<times> 's"
  sdk_build :: "'url \<Rightarrow> string \<Rightarrow> 's \<Rightarrow> (string + 'client) \<times> 's"
  sdk_remove_file :: "string \<Rightarrow> 's \<Rightarrow> removal \<times> 's"
  sdk_restore_session :: "'client \<Rightarrow> 'user matrix_session \<Rightarrow> 's \<Rightarrow> (sdk_error + unit) \<times> 's"
  sdk_login :: "'client \<Rightarrow> string \<Rightarrow> string \<Rightarrow> string \<Rightarrow> string option \<Rightarrow> 's \<Rightarrow> (sdk_error + string) \<times> 's"
  sdk_whoami :: "'client \<Rightarrow> 's \<Rightarrow> (string + string option) \<times> 's"
  sdk_sync_once :: "'client \<Rightarrow> 's \<Rightarrow> (string + unit) \<times> 's"
  sdk_cross_signing_complete :: "'client \<Rightarrow> 's \<Rightarrow> bool option \<times> 's"
  sdk_bootstrap_cross_signing :: "'client \<Rightarrow> 's \<Rightarrow> (string + unit) \<times> 's"
  sdk_get_room :: "'client \<Rightarrow> 'room \<Rightarrow> 's \<Rightarrow> 'handle option"
  sdk_join_room_by_id :: "'client \<Rightarrow> 'room \<Rightarrow> 's \<Rightarrow> (string + unit) \<times> 's"
  sdk_encryption_state :: "'handle \<Rightarrow> 's \<Rightarrow> encryption_state"
  sdk_request_encryption_state :: "'handle \<Rightarrow> 's \<Rightarrow> (string + unit) \<times> 's"
  sdk_send :: "'handle \<Rightarrow> string \<Rightarrow> string \<Rightarrow> 's \<Rightarrow> (string + unit) \<times> 's"

record ('user, 'room, 'client) matrix_client =
  mc_client :: 'client
  mc_router :: "'room router"
  mc_user_id :: 'user
  mc_require_e2ee :: bool
  mc_message_template :: string

definition and_then :: "'a result \<times> 's \<Rightarrow> ('a \<Rightarrow> 's \<Rightarrow> 'b result \<times> 's) \<Rightarrow> 'b result \<times> 's" where
  "and_then p f = (case p of (Inl e, s) \<Rightarrow> (Inl e, s) | (Inr a, s) \<Rightarrow> f a s)"

definition map_err :: "('e \<Rightarrow> chimney_error) \<Rightarrow> ('e + 'a) \<times> 's \<Rightarrow> 'a result \<times> 's" where
  "map_err f p = (case p of (Inl e, s) \<Rightarrow> (Inl (f e), s) | (Inr a, s) \<Rightarrow> (Inr a, s))"

subsection \<open>Errors of the crypto store\<close>

definition message_indicates_mismatch :: "string \<Rightarrow> bool" where
  "message_indicates_mismatch msg = contains msg ''doesn't match the account in the constructor''"

fun chain_has_mismatch :: "error_cause list \<Rightarrow> bool" where
  "chain_has_mismatch [] = False"
| "chain_has_mismatch (c # source) = (if c = Mismatched_account then True else chain_has_mismatch source)"

definition is_mismatched_account :: "sdk_error \<Rightarrow> bool" where
  "is_mismatched_account e = (if chain_has_mismatch (err_chain e) then True else message_indicates_mismatch (err_text e))"

definition verify_device_id :: "string option \<Rightarrow> string option \<Rightarrow> unit result" where
  "verify_device_id configured server =
     (case (configured, server) of
        (Some want, Some got) \<Rightarrow>
          if want \<noteq> got then
            Inl (Config (''configured matrix.credentials.device_id ('' @ want @ '') does not match the device '' @
              ''the homeserver issued for this session ('' @ got @ ''); fix device_id or clear the '' @ ''crypto store''))
          else Inr ()
      | _ \<Rightarrow> Inr ())"

definition CRYPTO_DB :: string where "CRYPTO_DB = ''matrix-sdk-crypto.sqlite3''"

definition crypto_files :: "string \<Rightarrow> string list" where
  "crypto_files dir = map (\<lambda>suffix. path_join dir (CRYPTO_DB @ suffix)) [[], ''-wal'', ''-shm'']"

fun remove_files ::
  "('s, 'url, 'user, 'room, 'client, 'handle) sdk \<Rightarrow> string list \<Rightarrow> 's \<Rightarrow> unit result \<times> 's" where
  "remove_files sdk [] s = (Inr (), s)"
| "remove_files sdk (path # paths) s =
     (case sdk_remove_file sdk path s of
        (Removed, s1) \<Rightarrow> remove_files sdk paths s1
      | (Not_found, s1) \<Rightarrow> remove_files sdk paths s1
      | (Remove_failed e, s1) \<Rightarrow>
          (Inl (Matrix (''failed to clear crypto store file '' @ path @ '': '' @ e)), s1))"

definition reset_crypto_store ::
  "('s, 'url, 'user, 'room, 'client, 'handle) sdk \<Rightarrow> string \<Rightarrow> 's \<Rightarrow> unit result \<times> 's" where
  "reset_crypto_store sdk dir s = remove_files sdk (crypto_files dir) s"

subsection \<open>Connecting\<close>

definition build_client ::
  "('s, 'url, 'user, 'room, 'client, 'handle) sdk \<Rightarrow> 'url \<Rightarrow> string \<Rightarrow> 's \<Rightarrow> 'client result \<times> 's" where
  "build_client sdk url dir s =
     map_err (\<lambda>e. Matrix (''Matrix client build failed: '' @ e)) (sdk_build sdk url dir s)"

text \<open>
  What both kinds of login share: on a mismatch, and only then, the crypto store is reset, the
  client built anew and the login tried once more.
\<close>

definition login_with_reset ::
  "('s, 'url, 'user, 'room, 'client, 'handle) sdk \<Rightarrow> 'url \<Rightarrow> string \<Rightarrow>
   ('client \<Rightarrow> 's \<Rightarrow> (sdk_error + 'a) \<times> 's) \<Rightarrow> string \<Rightarrow> 'client \<Rightarrow> 's \<Rightarrow> 'client result \<times> 's" where
  "login_with_reset sdk url dir attempt label client s =
     (case attempt client s of
        (Inr _, s1) \<Rightarrow> (Inr client, s1)
      | (Inl e, s1) \<Rightarrow>
          if is_mismatched_account e then
            and_then (reset_crypto_store sdk dir s1) (\<lambda>_ s2.
            and_then (build_client sdk url dir s2) (\<lambda>client s3.
            and_then (map_err (\<lambda>e. Matrix (label @ '' failed after store reset: '' @ err_text e)) (attempt client s3))
              (\<lambda>_ s4. (Inr client, s4))))
          else (Inl (Matrix (label @ '' failed: '' @ err_text e)), s1))"

definition authenticate ::
  "('s, 'url, 'user, 'room, 'client, 'handle) sdk \<Rightarrow> matrix_config \<Rightarrow> 'url \<Rightarrow> 'user \<Rightarrow> 'client \<Rightarrow> 's \<Rightarrow>
   'client result \<times> 's" where
  "authenticate sdk mx url user client s =
     (case access_token (credentials mx) of
        Some token \<Rightarrow>
          (case device_id (credentials mx) of
             None \<Rightarrow> (Inl (Config ''matrix.credentials.device_id is required when using access_token''), s)
           | Some device \<Rightarrow>
               login_with_reset sdk url (store_path mx)
                 (\<lambda>c. sdk_restore_session sdk c
                    \<lparr>ms_user_id = user, ms_device_id = device, ms_access_token = token\<rparr>)
                 ''Matrix access token login'' client s)
      | None \<Rightarrow>
          (case password (credentials mx) of
             Some pw \<Rightarrow>
               login_with_reset sdk url (store_path mx)
                 (\<lambda>c. sdk_login sdk c (user_id mx) pw (device_name mx) (device_id (credentials mx)))
                 ''Matrix login'' client s
           | None \<Rightarrow> (Inl (Config ''matrix credentials require password or access_token''), s)))"

definition bootstrap ::
  "('s, 'url, 'user, 'room, 'client, 'handle) sdk \<Rightarrow> 'client \<Rightarrow> 's \<Rightarrow> 's" where
  "bootstrap sdk client s =
     (case sdk_cross_signing_complete sdk client s of
        (status, s1) \<Rightarrow>
          let needs_bootstrap = (case status of Some complete \<Rightarrow> \<not> complete | None \<Rightarrow> True)
          in if needs_bootstrap then snd (sdk_bootstrap_cross_signing sdk client s1) else s1)"

definition connect ::
  "('s, 'url, 'user, 'room, 'client, 'handle) sdk \<Rightarrow> ('url, 'user, 'room) identifiers \<Rightarrow> config \<Rightarrow> 's \<Rightarrow>
   ('user, 'room, 'client) matrix_client result \<times> 's" where
  "connect sdk ids cfg s =
     (let mx = cfg_matrix cfg in
      and_then (map_err (\<lambda>e. Config (''invalid matrix.homeserver URL: '' @ e)) (parse_url ids (homeserver mx), s)) (\<lambda>url s.
      and_then (map_err (\<lambda>e. Matrix (''failed to create store directory '' @ store_path mx @ '': '' @ e))
                  (sdk_create_dir_all sdk (store_path mx) s)) (\<lambda>_ s.
      and_then (build_client sdk url (store_path mx) s) (\<lambda>client s.
      and_then (map_err (\<lambda>e. Config (''invalid matrix.user_id: '' @ e)) (parse_user_id ids (user_id mx), s)) (\<lambda>user s.
      and_then (router_from_config (parse_room ids) mx, s) (\<lambda>router s.
      and_then (authenticate sdk mx url user client s) (\<lambda>client s.
      and_then (map_err (\<lambda>e. Matrix (''Matrix whoami failed: '' @ e)) (sdk_whoami sdk client s)) (\<lambda>server_device_id s.
      and_then (verify_device_id (device_id (credentials mx)) server_device_id, s) (\<lambda>_ s.
      and_then (map_err (\<lambda>e. Matrix (''Matrix initial sync failed: '' @ e)) (sdk_sync_once sdk client s)) (\<lambda>_ s.
        (Inr \<lparr>mc_client = client, mc_router = router, mc_user_id = user,
              mc_require_e2ee = require_e2ee mx, mc_message_template = message_template mx\<rparr>,
         bootstrap sdk client s)))))))))))"

subsection \<open>Sending\<close>

definition open_room ::
  "('s, 'url, 'user, 'room, 'client, 'handle) sdk \<Rightarrow> 'client \<Rightarrow> 'room \<Rightarrow> 's \<Rightarrow> 'handle result \<times> 's" where
  "open_room sdk client room s =
     (case sdk_get_room sdk client room s of
        Some h \<Rightarrow> (Inr h, s)
      | None \<Rightarrow>
          and_then (map_err (\<lambda>e. Matrix (''failed to join Matrix room: '' @ e)) (sdk_join_room_by_id sdk client room s)) (\<lambda>_ s.
            (case sdk_get_room sdk client room s of
               Some h \<Rightarrow> (Inr h, s)
             | None \<Rightarrow> (Inl (Matrix ''Matrix room not found''), s))))"

definition known_encryption_state ::
  "('s, 'url, 'user, 'room, 'client, 'handle) sdk \<Rightarrow> 'handle \<Rightarrow> 's \<Rightarrow> encryption_state result \<times> 's" where
  "known_encryption_state sdk h s =
     (if sdk_encryption_state sdk h s = Unknown then
        and_then (map_err (\<lambda>e. Matrix (''failed to query room encryption state: '' @ e))
                    (sdk_request_encryption_state sdk h s)) (\<lambda>_ s. (Inr (sdk_encryption_state sdk h s), s))
      else (Inr (sdk_encryption_state sdk h s), s))"

definition send_message ::
  "('s, 'url, 'user, 'room, 'client, 'handle) sdk \<Rightarrow> ('env, 'tmpl) minijinja \<Rightarrow>
   ('user, 'room, 'client) matrix_client \<Rightarrow> message \<Rightarrow> string \<Rightarrow> 's \<Rightarrow> unit result \<times> 's" where
  "send_message sdk j c m idempotency_key s =
     and_then (format_message j m (mc_message_template c), s) (\<lambda>formatted s.
     and_then (open_room sdk (mc_client c) (resolve (mc_router c) m) s) (\<lambda>room s.
     and_then (known_encryption_state sdk room s) (\<lambda>st s.
       if st \<noteq> Encrypted \<and> mc_require_e2ee c then
         (Inl (Matrix (''room is not encrypted and matrix.require_e2ee is enabled; '' @
            ''refusing to send unencrypted message'')), s)
       else
         map_err (\<lambda>e. Matrix (''Matrix send failed: '' @ e)) (sdk_send sdk room formatted idempotency_key s))))"

subsection \<open>Lemmas\<close>

lemma and_then_Inr:
  "and_then p f = (Inr b, s') \<longleftrightarrow> (\<exists>a s. p = (Inr a, s) \<and> f a s = (Inr b, s'))"
  by (cases p; cases "fst p") (auto simp: and_then_def)

lemma and_then_Inl:
  "and_then p f = (Inl e, s') \<longleftrightarrow> p = (Inl e, s') \<or> (\<exists>a s. p = (Inr a, s) \<and> f a s = (Inl e, s'))"
  by (cases p; cases "fst p") (auto simp: and_then_def)

lemma and_then_simps [simp]: "and_then (Inl e, s) f = (Inl e, s)" "and_then (Inr a, s) f = f a s"
  by (simp_all add: and_then_def)

lemma map_err_Inr [simp]: "map_err f p = (Inr a, s) \<longleftrightarrow> p = (Inr a, s)"
  by (cases p; cases "fst p") (auto simp: map_err_def)

lemma map_err_Inl: "map_err f p = (Inl e, s) \<longleftrightarrow> (\<exists>x. p = (Inl x, s) \<and> e = f x)"
  by (cases p; cases "fst p") (auto simp: map_err_def)

lemma map_err_ok [simp]: "map_err f (Inr a, s) = (Inr a, s)"
  by (simp add: map_err_def)

lemma chain_has_mismatch_iff: "chain_has_mismatch cs \<longleftrightarrow> Mismatched_account \<in> set cs"
  by (induction cs) auto

lemmas result_cases = and_then_Inr and_then_Inl map_err_Inl

fun is_matrix :: "chimney_error \<Rightarrow> bool" where
  "is_matrix (Matrix _) = True"
| "is_matrix _ = False"

lemma build_client_error: "build_client sdk url p s = (Inl e, s') \<Longrightarrow> is_matrix e"
  by (auto simp: build_client_def map_err_Inl)

lemma remove_files_error: "remove_files sdk ps s = (Inl e, s') \<Longrightarrow> is_matrix e"
  by (induction sdk ps s rule: remove_files.induct) (auto split: prod.splits removal.splits)

lemma login_with_reset_error:
  "login_with_reset sdk url p attempt label c s = (Inl e, s') \<Longrightarrow> is_matrix e"
  by (auto simp: login_with_reset_def reset_crypto_store_def result_cases split: prod.splits sum.splits if_splits
      dest: build_client_error remove_files_error)

lemma authenticate_error:
  "good_credentials (credentials mx) \<Longrightarrow> authenticate sdk mx url user c s = (Inl e, s') \<Longrightarrow> is_matrix e"
  by (auto simp: authenticate_def good_credentials_def split: option.splits dest: login_with_reset_error)

lemma remove_files_cong:
  "(\<And>p. p \<in> set ps \<Longrightarrow> f p = sdk_remove_file sdk p) \<Longrightarrow>
   remove_files (sdk\<lparr>sdk_remove_file := f\<rparr>) ps s = remove_files sdk ps s"
  by (induction sdk ps s rule: remove_files.induct) (auto split: prod.split removal.split)

lemma build_client_update [simp]:
  "build_client (sdk\<lparr>sdk_remove_file := f\<rparr>) = build_client sdk"
  by (simp add: build_client_def fun_eq_iff)

lemma bootstrap_update [simp]:
  "bootstrap (sdk\<lparr>sdk_remove_file := f\<rparr>) = bootstrap sdk"
  by (simp add: bootstrap_def fun_eq_iff Let_def cong: if_cong split: prod.split)

lemma open_room_update [simp]: "open_room (sdk\<lparr>sdk_send := f\<rparr>) = open_room sdk"
  by (simp add: open_room_def fun_eq_iff cong: option.case_cong)

lemma known_encryption_state_update [simp]:
  "known_encryption_state (sdk\<lparr>sdk_send := f\<rparr>) = known_encryption_state sdk"
  by (simp add: known_encryption_state_def fun_eq_iff cong: if_cong)

lemma open_room_handle: "open_room sdk c r s = (Inr h, s') \<Longrightarrow> \<exists>s1. sdk_get_room sdk c r s1 = Some h"
  by (auto simp: open_room_def and_then_Inr split: option.splits)

lemma known_encryption_state_seen:
  "known_encryption_state sdk h s = (Inr x, s') \<Longrightarrow> sdk_encryption_state sdk h s' = x"
  by (auto simp: known_encryption_state_def and_then_Inr split: if_splits)

lemma login_with_reset_cong:
  assumes "\<And>s. reset_crypto_store sdk' p s = reset_crypto_store sdk p s" and "build_client sdk' = build_client sdk"
  shows "login_with_reset sdk' url p attempt label c s = login_with_reset sdk url p attempt label c s"
  unfolding login_with_reset_def assms ..

lemma login_with_reset_unused:
  assumes "\<And>c s e s'. attempt c s = (Inl e, s') \<Longrightarrow> \<not> is_mismatched_account e"
  shows "login_with_reset sdk' url p attempt label c s = login_with_reset sdk url p attempt label c s"
  using assms by (auto simp: login_with_reset_def split: prod.split sum.split)

lemma connect_update:
  assumes "\<And>url user c s. authenticate (sdk\<lparr>sdk_remove_file := f\<rparr>) (cfg_matrix cfg) url user c s =
      authenticate sdk (cfg_matrix cfg) url user c s"
  shows "connect (sdk\<lparr>sdk_remove_file := f\<rparr>) ids cfg s = connect sdk ids cfg s"
  unfolding connect_def Let_def by (simp add: assms cong: if_cong)

subsection \<open>A small home server\<close>

text \<open>
  An environment whose state is the list of events sent (room, text, transaction id): it knows
  one room, which is encrypted, and reports the device \<^verbatim>\<open>DEV\<close>.
\<close>

definition ex_sdk :: "((string \<times> string \<times> string) list, string, string, string, unit, string) sdk" where
  "ex_sdk =
     \<lparr>sdk_create_dir_all = (\<lambda>_ s. (Inr (), s)), sdk_build = (\<lambda>_ _ s. (Inr (), s)),
      sdk_remove_file = (\<lambda>_ s. (Removed, s)), sdk_restore_session = (\<lambda>_ _ s. (Inr (), s)),
      sdk_login = (\<lambda>_ _ _ _ _ s. (Inr ''DEV'', s)), sdk_whoami = (\<lambda>_ s. (Inr (Some ''DEV''), s)),
      sdk_sync_once = (\<lambda>_ s. (Inr (), s)), sdk_cross_signing_complete = (\<lambda>_ s. (Some True, s)),
      sdk_bootstrap_cross_signing = (\<lambda>_ s. (Inr (), s)),
      sdk_get_room = (\<lambda>_ r _. if r = ''!ops'' then Some r else None),
      sdk_join_room_by_id = (\<lambda>_ _ s. (Inl ''forbidden'', s)), sdk_encryption_state = (\<lambda>_ _. Encrypted),
      sdk_request_encryption_state = (\<lambda>_ s. (Inr (), s)),
      sdk_send = (\<lambda>h t k s. (Inr (), s @ [(h, t, k)]))\<rparr>"

definition ex_client :: "(string, string, unit) matrix_client" where
  "ex_client = \<lparr>mc_client = (),
     mc_router = \<lparr>routes = [\<lparr>cr_to = Some ''ops@host'', cr_from = None, cr_room_id = ''!ops''\<rparr>], default_room_id = ''!r''\<rparr>,
     mc_user_id = ''u'', mc_require_e2ee = True, mc_message_template = ''t''\<rparr>"

definition ex_alert :: message where
  "ex_alert = \<lparr>msg_from = None, msg_to = [''ops@host''], msg_subject = None, msg_body = ''disk full''\<rparr>"

definition ex_login_config :: "string option \<Rightarrow> config" where
  "ex_login_config dev =
     ex_config\<lparr>cfg_matrix := ex_matrix_config\<lparr>credentials := \<lparr>password = Some ''pw'', access_token = None, device_id = dev\<rparr>\<rparr>\<rparr>"

lemma ex_login_config_valid: "validate ex_ids ex_minijinja (ex_login_config dev) = Inr ()"
  unfolding ex_login_config_def by (rule ex_config_valid) (simp add: good_credentials_def)

lemma ex_login_matrix:
  "homeserver (cfg_matrix (ex_login_config dev)) = ''h''" "user_id (cfg_matrix (ex_login_config dev)) = ''u''"
  "store_path (cfg_matrix (ex_login_config dev)) = ''p''" "message_template (cfg_matrix (ex_login_config dev)) = ''t''"
  "require_e2ee (cfg_matrix (ex_login_config dev))"
  "credentials (cfg_matrix (ex_login_config dev)) = \<lparr>password = Some ''pw'', access_token = None, device_id = dev\<rparr>"
  "router_from_config (parse_room ex_ids) (cfg_matrix (ex_login_config dev)) = Inr (mc_router ex_client)"
  using ex_router
  by (simp_all add: ex_login_config_def ex_matrix_config_def default_require_e2ee_def ex_client_def router_from_config_def)

lemma ex_connect_rooms:
  "connect (ex_sdk\<lparr>sdk_get_room := f\<rparr>) ex_ids (ex_login_config dev) s =
     and_then (verify_device_id dev (Some ''DEV''), s) (\<lambda>_ s. (Inr ex_client, s))"
proof -
  have "parse_url ex_ids ''h'' = Inr ''h''" "parse_user_id ex_ids ''u'' = Inr ''u''" by (simp_all add: ex_ids_def)
  then show ?thesis
    by (simp add: connect_def Let_def ex_login_matrix authenticate_def login_with_reset_def build_client_def bootstrap_def)
      (simp add: ex_sdk_def ex_client_def and_then_def map_err_def split: sum.split)
qed

lemma ex_connect:
  "connect ex_sdk ex_ids (ex_login_config dev) s =
     and_then (verify_device_id dev (Some ''DEV''), s) (\<lambda>_ s. (Inr ex_client, s))"
  using ex_connect_rooms [of "sdk_get_room ex_sdk"] by simp

lemma ex_send:
  "send_message (ex_sdk\<lparr>sdk_send := f\<rparr>) ex_minijinja ex_client ex_alert k s =
     map_err (\<lambda>e. Matrix (''Matrix send failed: '' @ e)) (f ''!ops'' ''disk full'' k s)"
proof -
  have "resolve (mc_router ex_client) ex_alert = ''!ops''" by code_simp
  moreover have "format_message ex_minijinja ex_alert ''t'' = Inr ''disk full''"
    by (simp add: format_message_def ex_minijinja_def message_context_def ex_alert_def)
  ultimately show ?thesis
    by (simp add: send_message_def ex_client_def open_room_def known_encryption_state_def ex_sdk_def)
qed

subsection \<open>Properties\<close>

lemma send_cases:
  "(\<exists>e s'. \<forall>f. send_message (sdk\<lparr>sdk_send := f\<rparr>) j c m key s = (Inl e, s')) \<or>
   (\<exists>formatted h s0 s1.
      format_message j m (mc_message_template c) = Inr formatted \<and>
      sdk_get_room sdk (mc_client c) (resolve (mc_router c) m) s0 = Some h \<and>
      (mc_require_e2ee c \<longrightarrow> sdk_encryption_state sdk h s1 = Encrypted) \<and>
      (\<forall>f. send_message (sdk\<lparr>sdk_send := f\<rparr>) j c m key s =
         map_err (\<lambda>e. Matrix (''Matrix send failed: '' @ e)) (f h formatted key s1)))"
proof (cases "format_message j m (mc_message_template c)")
  case (Inl e)
  then show ?thesis by (simp add: send_message_def)
next
  case fmt: (Inr formatted)
  obtain r s2 where o: "open_room sdk (mc_client c) (resolve (mc_router c) m) s = (r, s2)" by fastforce
  show ?thesis
  proof (cases r)
    case (Inl e)
    with fmt o show ?thesis by (simp add: send_message_def)
  next
    case (Inr h)
    obtain q s1 where k: "known_encryption_state sdk h s2 = (q, s1)" by fastforce
    show ?thesis
    proof (cases q)
      case (Inl e)
      with fmt o Inr k show ?thesis by (simp add: send_message_def)
    next
      case st: (Inr st)
      show ?thesis
      proof (cases "st \<noteq> Encrypted \<and> mc_require_e2ee c")
        case True
        with fmt o Inr k st show ?thesis by (simp add: send_message_def)
      next
        case False
        obtain s0 where "sdk_get_room sdk (mc_client c) (resolve (mc_router c) m) s0 = Some h"
          using o Inr open_room_handle by metis
        moreover have "mc_require_e2ee c \<longrightarrow> sdk_encryption_state sdk h s1 = Encrypted"
          using False known_encryption_state_seen k st by metis
        moreover have "send_message (sdk\<lparr>sdk_send := f\<rparr>) j c m key s =
            map_err (\<lambda>e. Matrix (''Matrix send failed: '' @ e)) (f h formatted key s1)" for f
          using fmt o Inr k st False by (auto simp: send_message_def)
        ultimately show ?thesis using fmt by blast
      qed
    qed
  qed
qed

text \<open>
  A send reaches the home server only in one way: the rendered message, with the idempotency
  key as transaction id, through the room object of the room the router chose, and with
  \<open>require_e2ee\<close> only after that room was seen to be encrypted; the result is the server's. In
  every other case the outcome is an error that does not depend on what sending would do: it
  was not attempted.
\<close>

lemma send_exact:
  "(\<exists>e s'. \<forall>f. send_message (sdk\<lparr>sdk_send := f\<rparr>) j c m key s = (Inl e, s')) \<or>
   (\<exists>formatted h s0 s1.
      format_message j m (mc_message_template c) = Inr formatted \<and>
      sdk_get_room sdk (mc_client c) (resolve (mc_router c) m) s0 = Some h \<and>
      (mc_require_e2ee c \<longrightarrow> sdk_encryption_state sdk h s1 = Encrypted) \<and>
      (\<forall>f. send_message (sdk\<lparr>sdk_send := f\<rparr>) j c m key s =
         map_err (\<lambda>e. Matrix (''Matrix send failed: '' @ e)) (f h formatted key s1)))"
  by (rule send_cases)

lemma send_exact_witness:
  "\<exists>formatted h s0 s1.
     format_message ex_minijinja ex_alert ''t'' = Inr formatted \<and> sdk_get_room ex_sdk () ''!ops'' s0 = Some h \<and>
     sdk_encryption_state ex_sdk h s1 = Encrypted \<and>
     (\<forall>f. send_message (ex_sdk\<lparr>sdk_send := f\<rparr>) ex_minijinja ex_client ex_alert ''k'' [] =
        map_err (\<lambda>e. Matrix (''Matrix send failed: '' @ e)) (f h formatted ''k'' s1))"
proof -
  have r: "resolve (mc_router ex_client) ex_alert = ''!ops''" by code_simp
  have c: "mc_client ex_client = ()" "mc_message_template ex_client = ''t''" "mc_require_e2ee ex_client"
    by (simp_all add: ex_client_def)
  have n: "\<not> (\<exists>e s'. \<forall>f. send_message (ex_sdk\<lparr>sdk_send := f\<rparr>) ex_minijinja ex_client ex_alert ''k'' [] = (Inl e, s'))"
  proof (intro notI, elim exE)
    fix e s'
    assume "\<forall>f. send_message (ex_sdk\<lparr>sdk_send := f\<rparr>) ex_minijinja ex_client ex_alert ''k'' [] = (Inl e, s')"
    then have "send_message (ex_sdk\<lparr>sdk_send := \<lambda>_ _ _ s. (Inr (), s)\<rparr>) ex_minijinja ex_client ex_alert ''k'' [] = (Inl e, s')" ..
    then show False by (simp add: ex_send)
  qed
  from send_exact [of ex_sdk ex_minijinja ex_client ex_alert "''k''" "[]"] c(3)
  show ?thesis unfolding r c disj_not1 [symmetric] using n by (simp only: simp_thms)
qed

text \<open>
  C31. Fail fast: with a configuration that was validated, connecting never fails because of the
  configuration, with the one exception that the pinned device id is not the one the home
  server reports. So no configuration error can keep the worker in its connect loop.
\<close>

theorem valid_config_connects:
  assumes "validate ids j cfg = Inr ()" and "connect sdk ids cfg s = (Inl (Config e), s')"
  shows "\<exists>want got. device_id (credentials (cfg_matrix cfg)) = Some want \<and> want \<noteq> got \<and>
    verify_device_id (Some want) (Some got) = Inl (Config e)"
proof -
  from assms(1) have v: "check_account ids (cfg_matrix cfg) = Inr ()" "good_credentials (credentials (cfg_matrix cfg))"
    by (simp_all add: validate_ok check_credentials_ok)
  then obtain url user router where p: "parse_url ids (homeserver (cfg_matrix cfg)) = Inr url"
    "parse_user_id ids (user_id (cfg_matrix cfg)) = Inr user"
    "router_from_config (parse_room ids) (cfg_matrix cfg) = Inr router" by (auto simp: check_account_ok)
  have a: "authenticate sdk (cfg_matrix cfg) url user c s1 \<noteq> (Inl (Config e), s2)" for c s1 s2
    using authenticate_error [OF v(2)] by fastforce
  have b: "build_client sdk url d s1 \<noteq> (Inl (Config e), s2)" for d s1 s2
    using build_client_error by fastforce
  from assms(2) obtain dev where "verify_device_id (device_id (credentials (cfg_matrix cfg))) dev = Inl (Config e)"
    unfolding connect_def Let_def p map_err_ok and_then_simps and_then_Inl map_err_Inl
    using a b by auto
  then show ?thesis
    by (auto simp: verify_device_id_def split: option.splits if_splits)
qed

theorem valid_config_connects_witness:
  "\<exists>want got. device_id (credentials (cfg_matrix (ex_login_config (Some ''OLD'')))) = Some want \<and> want \<noteq> got \<and>
    verify_device_id (Some want) (Some got) = verify_device_id (Some ''OLD'') (Some ''DEV'')"
proof -
  obtain e where e: "verify_device_id (Some ''OLD'') (Some ''DEV'') = Inl (Config e)"
    by (simp add: verify_device_id_def)
  then have "connect ex_sdk ex_ids (ex_login_config (Some ''OLD'')) [] = (Inl (Config e), [])" by (simp add: ex_connect)
  from valid_config_connects [OF ex_login_config_valid this] show ?thesis unfolding e .
qed

text \<open>
  The crypto store is deleted only on an account mismatch: when no login error has the
  mismatch among its causes or in its text, connecting does not depend on what deleting a
  file would do.
\<close>

lemma crypto_store_kept:
  assumes "\<forall>c x s e s'. sdk_restore_session sdk c x s = (Inl e, s') \<longrightarrow>
      Mismatched_account \<notin> set (err_chain e) \<and> \<not> message_indicates_mismatch (err_text e)"
    and "\<forall>c u p n d s e s'. sdk_login sdk c u p n d s = (Inl e, s') \<longrightarrow>
      Mismatched_account \<notin> set (err_chain e) \<and> \<not> message_indicates_mismatch (err_text e)"
  shows "connect (sdk\<lparr>sdk_remove_file := f\<rparr>) ids cfg s = connect sdk ids cfg s"
proof (rule connect_update)
  have m: "\<not> is_mismatched_account e"
    if "Mismatched_account \<notin> set (err_chain e) \<and> \<not> message_indicates_mismatch (err_text e)" for e
    using that by (simp add: is_mismatched_account_def chain_has_mismatch_iff)
  have r: "login_with_reset (sdk\<lparr>sdk_remove_file := f\<rparr>) url p (\<lambda>c. sdk_restore_session sdk c x) l c s =
      login_with_reset sdk url p (\<lambda>c. sdk_restore_session sdk c x) l c s" for url p x l c s
    by (rule login_with_reset_unused) (use assms(1) m in blast)
  have q: "login_with_reset (sdk\<lparr>sdk_remove_file := f\<rparr>) url p (\<lambda>c. sdk_login sdk c u pw n d) l c s =
      login_with_reset sdk url p (\<lambda>c. sdk_login sdk c u pw n d) l c s" for url p u pw n d l c s
    by (rule login_with_reset_unused) (use assms(2) m in blast)
  show "authenticate (sdk\<lparr>sdk_remove_file := f\<rparr>) (cfg_matrix cfg) url user c s =
      authenticate sdk (cfg_matrix cfg) url user c s" for url user c s
    by (simp add: authenticate_def r q split: option.split)
qed

lemma crypto_store_kept_witness:
  "connect (ex_sdk\<lparr>sdk_remove_file := \<lambda>_ s. (Remove_failed ''busy'', s)\<rparr>) ex_ids (ex_login_config None) [] =
     connect ex_sdk ex_ids (ex_login_config None) []"
  by (rule crypto_store_kept) (simp_all add: ex_sdk_def)

text \<open>
  Nothing but the crypto store is deleted: connecting depends on the deletion of the crypto
  database and its two side files in the configured directory only.
\<close>

lemma only_crypto_files:
  assumes "\<forall>x\<in>{[], ''-wal'', ''-shm''}.
      f (path_join (store_path (cfg_matrix cfg)) (''matrix-sdk-crypto.sqlite3'' @ x)) =
      sdk_remove_file sdk (path_join (store_path (cfg_matrix cfg)) (''matrix-sdk-crypto.sqlite3'' @ x))"
  shows "connect (sdk\<lparr>sdk_remove_file := f\<rparr>) ids cfg s = connect sdk ids cfg s"
proof (rule connect_update)
  let ?sdk = "sdk\<lparr>sdk_remove_file := f\<rparr>" and ?dir = "store_path (cfg_matrix cfg)"
  have r: "reset_crypto_store ?sdk ?dir s = reset_crypto_store sdk ?dir s" for s
    unfolding reset_crypto_store_def
    by (rule remove_files_cong) (use assms in \<open>auto simp: crypto_files_def CRYPTO_DB_def\<close>)
  have l: "login_with_reset ?sdk url ?dir attempt label c s = login_with_reset sdk url ?dir attempt label c s"
    for url attempt label c s
    by (rule login_with_reset_cong [OF r]) simp
  show "authenticate ?sdk (cfg_matrix cfg) url user c s = authenticate sdk (cfg_matrix cfg) url user c s" for url user c s
    by (simp add: authenticate_def l split: option.split)
qed

lemma only_crypto_files_witness:
  "connect (ex_sdk\<lparr>sdk_remove_file := \<lambda>p s. if p \<in> set (crypto_files ''p'') then (Removed, s) else (Remove_failed p, s)\<rparr>)
     ex_ids (ex_login_config None) [] = connect ex_sdk ex_ids (ex_login_config None) []"
  by (rule only_crypto_files) (auto simp: ex_login_matrix crypto_files_def CRYPTO_DB_def ex_sdk_def)

text \<open>
  C32. Deletions are limited: connecting deletes nothing but the crypto database and its two side
  files in the configured directory, and those only when a login failed by an account mismatch.
  The outcome does not depend on what deleting a file would do when no login error shows a
  mismatch, and never on what deleting another file would do.
\<close>

theorem deletions_limited:
  assumes "(\<forall>c x s e s'. sdk_restore_session sdk c x s = (Inl e, s') \<longrightarrow>
        Mismatched_account \<notin> set (err_chain e) \<and> \<not> message_indicates_mismatch (err_text e)) \<and>
      (\<forall>c u p n d s e s'. sdk_login sdk c u p n d s = (Inl e, s') \<longrightarrow>
        Mismatched_account \<notin> set (err_chain e) \<and> \<not> message_indicates_mismatch (err_text e)) \<or>
    (\<forall>x\<in>{[], ''-wal'', ''-shm''}.
      f (path_join (store_path (cfg_matrix cfg)) (''matrix-sdk-crypto.sqlite3'' @ x)) =
      sdk_remove_file sdk (path_join (store_path (cfg_matrix cfg)) (''matrix-sdk-crypto.sqlite3'' @ x)))"
  shows "connect (sdk\<lparr>sdk_remove_file := f\<rparr>) ids cfg s = connect sdk ids cfg s"
  using assms
proof
  assume a: "(\<forall>c x s e s'. sdk_restore_session sdk c x s = (Inl e, s') \<longrightarrow>
        Mismatched_account \<notin> set (err_chain e) \<and> \<not> message_indicates_mismatch (err_text e)) \<and>
      (\<forall>c u p n d s e s'. sdk_login sdk c u p n d s = (Inl e, s') \<longrightarrow>
        Mismatched_account \<notin> set (err_chain e) \<and> \<not> message_indicates_mismatch (err_text e))"
  show ?thesis by (rule crypto_store_kept [OF conjunct1 [OF a] conjunct2 [OF a]])
qed (rule only_crypto_files)

theorem deletions_limited_witness:
  "connect (ex_sdk\<lparr>sdk_remove_file := \<lambda>_ s. (Remove_failed ''busy'', s)\<rparr>) ex_ids (ex_login_config None) [] =
     connect ex_sdk ex_ids (ex_login_config None) [] \<and>
   connect (ex_sdk\<lparr>sdk_remove_file := \<lambda>p s. if p \<in> set (crypto_files ''p'') then (Removed, s) else (Remove_failed p, s)\<rparr>)
     ex_ids (ex_login_config None) [] = connect ex_sdk ex_ids (ex_login_config None) []"
proof
  show "connect (ex_sdk\<lparr>sdk_remove_file := \<lambda>_ s. (Remove_failed ''busy'', s)\<rparr>) ex_ids (ex_login_config None) [] =
      connect ex_sdk ex_ids (ex_login_config None) []"
    by (rule deletions_limited) (simp add: ex_sdk_def)
  show "connect (ex_sdk\<lparr>sdk_remove_file := \<lambda>p s. if p \<in> set (crypto_files ''p'') then (Removed, s) else (Remove_failed p, s)\<rparr>)
     ex_ids (ex_login_config None) [] = connect ex_sdk ex_ids (ex_login_config None) []"
    by (rule deletions_limited, rule disjI2) (auto simp: ex_login_matrix crypto_files_def CRYPTO_DB_def ex_sdk_def)
qed

lemma connected_client:
  assumes "connect sdk ids cfg s = (Inr c, s')"
  shows "router_from_config (parse_room ids) (cfg_matrix cfg) = Inr (mc_router c) \<and>
    mc_require_e2ee c = require_e2ee (cfg_matrix cfg) \<and>
    mc_message_template c = message_template (cfg_matrix cfg) \<and>
    parse_user_id ids (user_id (cfg_matrix cfg)) = Inr (mc_user_id c) \<and>
    (\<exists>s1 dev s2. sdk_whoami sdk (mc_client c) s1 = (Inr dev, s2) \<and>
       (\<forall>want. device_id (credentials (cfg_matrix cfg)) = Some want \<longrightarrow> dev = None \<or> dev = Some want))"
proof -
  have v: "\<forall>want. device_id x = Some want \<longrightarrow> dev = None \<or> dev = Some want"
    if "verify_device_id (device_id x) dev = Inr u" for x dev u
    using that by (auto simp: verify_device_id_def split: option.splits if_splits)
  from assms obtain client dev s1 s2 where
    "router_from_config (parse_room ids) (cfg_matrix cfg) = Inr (mc_router c)"
    "mc_require_e2ee c = require_e2ee (cfg_matrix cfg)"
    "mc_message_template c = message_template (cfg_matrix cfg)"
    "parse_user_id ids (user_id (cfg_matrix cfg)) = Inr (mc_user_id c)"
    "sdk_whoami sdk (mc_client c) s1 = (Inr dev, s2)"
    "verify_device_id (device_id (credentials (cfg_matrix cfg))) dev = Inr ()"
    unfolding connect_def Let_def and_then_Inr map_err_Inr by auto
  with v show ?thesis by blast
qed

text \<open>
  A client that is connected is the configured one: it routes by the configured rules, keeps
  the encryption policy and the template, and when a device id is pinned, the home server
  reported that device or none.
\<close>

lemma connected_as_configured:
  assumes "connect sdk ids cfg s = (Inr c, s')"
  shows "router_from_config (parse_room ids) (cfg_matrix cfg) = Inr (mc_router c) \<and>
    mc_require_e2ee c = require_e2ee (cfg_matrix cfg) \<and>
    mc_message_template c = message_template (cfg_matrix cfg) \<and>
    parse_user_id ids (user_id (cfg_matrix cfg)) = Inr (mc_user_id c) \<and>
    (\<exists>s1 dev s2. sdk_whoami sdk (mc_client c) s1 = (Inr dev, s2) \<and>
       (\<forall>want. device_id (credentials (cfg_matrix cfg)) = Some want \<longrightarrow> dev = None \<or> dev = Some want))"
  using connected_client [OF assms] by blast

lemma connected_as_configured_witness:
  "router_from_config (parse_room ex_ids) (cfg_matrix (ex_login_config (Some ''DEV''))) = Inr (mc_router ex_client) \<and>
    mc_require_e2ee ex_client \<and>
    (\<exists>s1 dev s2. sdk_whoami ex_sdk () s1 = (Inr dev, s2) \<and> (dev = None \<or> dev = Some ''DEV''))"
proof -
  have "connect ex_sdk ex_ids (ex_login_config (Some ''DEV'')) [] = (Inr ex_client, [])"
    by (simp add: ex_connect verify_device_id_def)
  from connected_as_configured [OF this] show ?thesis by (auto simp: ex_login_matrix)
qed

end
