(* ===== verification/Worker.thy ===== *)
theory Worker
  imports Store
begin

section \<open>The delivery worker (src/queue/worker.rs)\<close>

text \<open>
  The background task that drains the outbox. The sink (the trait \<open>MessageSink\<close>) is a
  parameter: its state and the function \<open>deliver\<close>. One turn of the loop of
  \<open>DeliveryWorker::run\<close> with nothing in between is the function \<open>run_iter\<close>; \<open>task_step\<close> takes the
  same turn in the steps between which other tasks run (claim, send, call of the store,
  going to sleep), with the connect loop of \<open>run_with_reconnect\<close> before it. \<open>worker_step\<close>
  interleaves these steps with those of the environment: new mail, the shutdown flag, the
  clock, storage failures and crashes.

  Theorems: the backoff formula, what one delivery does to the outbox on every branch, that a
  message is attempted a bounded number of times, that a failing message does not block
  others, and that draining ends. What holds under interleaving is in \<open>Worker_Run\<close>.
\<close>

subsection \<open>Constants and backoff\<close>

definition MAX_BACKOFF_SECONDS :: u64 where "MAX_BACKOFF_SECONDS = 900"

definition IDLE_SLEEP :: nat where "IDLE_SLEEP = 3600"

definition STORAGE_ERROR_BACKOFF :: nat where "STORAGE_ERROR_BACKOFF = 5"

definition backoff_seconds :: "u64 \<Rightarrow> u32 \<Rightarrow> u64 \<Rightarrow> u64" where
  "backoff_seconds base attempt cap =
     (if attempt = 0 then 0
      else min (saturating_mul base (saturating_pow 2 (unat (attempt - 1)))) cap)"

subsection \<open>One delivery\<close>

record delivery_worker =
  max_retries :: u32
  retry_backoff :: u64

definition idempotency_key :: "i64 \<Rightarrow> string" where
  "idempotency_key rid = ''chimney-post-'' @ int_str rid"

definition handle_failure ::
  "delivery_worker \<Rightarrow> stored_message \<Rightarrow> i64 \<Rightarrow> chimney_error \<Rightarrow> message_store \<Rightarrow> message_store" where
  "handle_failure w stored now err st =
     (let rid = sm_id stored; attempts = sm_attempts stored + 1 in
      if max_retries w < attempts then snd (dead_letter rid (error_to_string err) st)
      else
        let backoff = backoff_seconds (retry_backoff w) attempts MAX_BACKOFF_SECONDS
        in snd (reschedule rid attempts (wrap_i64 (now + wrap_i64 (uint backoff))) st))"

definition deliver_one ::
  "(message \<Rightarrow> string \<Rightarrow> 's \<Rightarrow> unit result \<times> 's) \<Rightarrow> delivery_worker \<Rightarrow> stored_message \<Rightarrow> i64 \<Rightarrow>
   message_store \<Rightarrow> 's \<Rightarrow> message_store \<times> 's" where
  "deliver_one deliver w stored now st sink =
     (case deliver (sm_message stored) (idempotency_key (sm_id stored)) sink of
        (Inr _, sink') \<Rightarrow> (snd (mark_delivered (sm_id stored) st), sink')
      | (Inl err, sink') \<Rightarrow> (handle_failure w stored now err st, sink'))"

subsection \<open>The loop\<close>

definition idle_wait :: "i64 \<Rightarrow> message_store \<Rightarrow> nat \<times> message_store" where
  "idle_wait now st =
     (case next_wakeup now st of
        (Inr (Some at), st1) \<Rightarrow> (nat (max (wrap_i64 (at - now)) 0), st1)
      | (Inr None, st1) \<Rightarrow> (IDLE_SLEEP, st1)
      | (Inl _, st1) \<Rightarrow> (STORAGE_ERROR_BACKOFF, st1))"

text \<open>
  Where the task is: in \<open>run_with_reconnect\<close> before the first successful connect, at the head
  of the loop of \<open>run\<close>, in \<open>deliver_one\<close> before the send and between the send and the call of
  the store (with the reading of the clock, the message and the answer), before \<open>idle_wait\<close>,
  in the first \<open>select!\<close> (asleep for at most the given number of seconds after the given
  reading of the clock), in the second \<open>select!\<close>, or returned.
\<close>

datatype phase =
    Connecting
  | Reconnect_wait
  | Claiming
  | Delivering i64 stored_message
  | Settling i64 stored_message "unit result"
  | Idling i64
  | Sleeping i64 nat
  | Pausing nat
  | Stopped

text \<open>One turn of the loop with nothing in between, up to where it waits.\<close>

definition run_iter ::
  "(message \<Rightarrow> string \<Rightarrow> 's \<Rightarrow> unit result \<times> 's) \<Rightarrow> delivery_worker \<Rightarrow> bool \<Rightarrow>
   message_store \<Rightarrow> 's \<Rightarrow> phase \<times> message_store \<times> 's" where
  "run_iter deliver w shutdown st sink =
     (case unix_now st of
        (now, st1) \<Rightarrow>
          (case claim_next_ready now st1 of
             (Inr (Some stored), st2) \<Rightarrow>
               (case deliver_one deliver w stored now st2 sink of
                  (st3, sink') \<Rightarrow> (Claiming, st3, sink'))
           | (Inr None, st2) \<Rightarrow>
               if shutdown then (Stopped, st2, sink)
               else (case idle_wait now st2 of (wait, st3) \<Rightarrow> (Sleeping now wait, st3, sink))
           | (Inl _, st2) \<Rightarrow> (Pausing STORAGE_ERROR_BACKOFF, st2, sink)))"

text \<open>
  The same turn in the steps between which other tasks can run: the claim (which checks the
  flag when nothing is due), the send, the call of the store that follows it, and \<open>idle_wait\<close>.
\<close>

definition claim_step :: "bool \<Rightarrow> message_store \<Rightarrow> phase \<times> message_store" where
  "claim_step shutdown st =
     (case unix_now st of
        (now, st1) \<Rightarrow>
          (case claim_next_ready now st1 of
             (Inr (Some stored), st2) \<Rightarrow> (Delivering now stored, st2)
           | (Inr None, st2) \<Rightarrow> (if shutdown then Stopped else Idling now, st2)
           | (Inl _, st2) \<Rightarrow> (Pausing STORAGE_ERROR_BACKOFF, st2)))"

definition settle :: "delivery_worker \<Rightarrow> stored_message \<Rightarrow> i64 \<Rightarrow> unit result \<Rightarrow> message_store \<Rightarrow> message_store" where
  "settle w stored now r st =
     (case r of
        Inr _ \<Rightarrow> snd (mark_delivered (sm_id stored) st)
      | Inl err \<Rightarrow> handle_failure w stored now err st)"

text \<open>
  One turn of the loop of \<open>run_with_reconnect\<close>. A connection attempt acts on the sink's state
  and may fail.
\<close>

definition reconnect_iter :: "('s \<Rightarrow> unit result \<times> 's) \<Rightarrow> bool \<Rightarrow> 's \<Rightarrow> phase \<times> 's" where
  "reconnect_iter connect shutdown sink =
     (if shutdown then (Stopped, sink)
      else (case connect sink of
              (Inr _, sink') \<Rightarrow> (Claiming, sink')
            | (Inl _, sink') \<Rightarrow> (Reconnect_wait, sink')))"

subsection \<open>The task in its environment\<close>

text \<open>
  The field \<open>w_accepted\<close> records, for the statement of the theorems, every message the store
  has accepted and the id it got.
\<close>

record 's worker_sys =
  w_store :: message_store
  w_sink :: 's
  w_phase :: phase
  w_shutdown :: bool
  w_accepted :: "(i64 \<times> message) list"

text \<open>
  \<open>refresh\<close> replaces what the environment has in store (clock readings, storage failures)
  and touches nothing else. \<open>reboot\<close> is what is left of the store after the process died:
  the tables, with no permit.
\<close>

definition refresh :: "string option list \<Rightarrow> nat option list \<Rightarrow> message_store \<Rightarrow> message_store" where
  "refresh faults clk st = st\<lparr>sql_faults := faults, clock := clk\<rparr>"

definition reboot :: "message_store \<Rightarrow> message_store" where
  "reboot st = st\<lparr>notify := False\<rparr>"

text \<open>
  The steps of the task itself, then those of its environment: mail arriving (any SMTP session
  calling \<open>enqueue\<close>), the shutdown flag, the clock and the failures, and a crash of the process
  at any point, also between a send and the removal of the row; after a crash the process
  starts again on the same database.
\<close>

inductive task_step ::
  "('s \<Rightarrow> unit result \<times> 's) \<Rightarrow> (message \<Rightarrow> string \<Rightarrow> 's \<Rightarrow> unit result \<times> 's) \<Rightarrow> delivery_worker \<Rightarrow>
   's worker_sys \<Rightarrow> 's worker_sys \<Rightarrow> bool"
  for connect :: "'s \<Rightarrow> unit result \<times> 's"
    and deliver :: "message \<Rightarrow> string \<Rightarrow> 's \<Rightarrow> unit result \<times> 's" and w :: delivery_worker where
  connect: "w_phase s = Connecting \<Longrightarrow> reconnect_iter connect (w_shutdown s) (w_sink s) = (p, snk) \<Longrightarrow>
    task_step connect deliver w s (s\<lparr>w_phase := p, w_sink := snk\<rparr>)"
| reconnect: "w_phase s = Reconnect_wait \<Longrightarrow>
    task_step connect deliver w s (s\<lparr>w_phase := Connecting\<rparr>)"
| claim: "w_phase s = Claiming \<Longrightarrow> claim_step (w_shutdown s) (w_store s) = (p, st) \<Longrightarrow>
    task_step connect deliver w s (s\<lparr>w_phase := p, w_store := st\<rparr>)"
| send: "w_phase s = Delivering now stored \<Longrightarrow>
    deliver (sm_message stored) (idempotency_key (sm_id stored)) (w_sink s) = (r, snk) \<Longrightarrow>
    task_step connect deliver w s (s\<lparr>w_phase := Settling now stored r, w_sink := snk\<rparr>)"
| settle: "w_phase s = Settling now stored r \<Longrightarrow>
    task_step connect deliver w s (s\<lparr>w_phase := Claiming, w_store := settle w stored now r (w_store s)\<rparr>)"
| idle: "w_phase s = Idling now \<Longrightarrow> idle_wait now (w_store s) = (n, st) \<Longrightarrow>
    task_step connect deliver w s (s\<lparr>w_phase := Sleeping now n, w_store := st\<rparr>)"
| wake_notified: "w_phase s = Sleeping t n \<Longrightarrow> notified (w_store s) = Some st \<Longrightarrow>
    task_step connect deliver w s (s\<lparr>w_phase := Claiming, w_store := st\<rparr>)"
| wake_timer: "w_phase s = Sleeping t n \<Longrightarrow>
    task_step connect deliver w s (s\<lparr>w_phase := Claiming\<rparr>)"
| wake_shutdown: "w_phase s = Sleeping t n \<Longrightarrow> w_shutdown s \<Longrightarrow>
    task_step connect deliver w s (s\<lparr>w_phase := Claiming\<rparr>)"
| pause_over: "w_phase s = Pausing n \<Longrightarrow>
    task_step connect deliver w s (s\<lparr>w_phase := (if w_shutdown s then Stopped else Claiming)\<rparr>)"

inductive worker_step ::
  "('s \<Rightarrow> unit result \<times> 's) \<Rightarrow> (message \<Rightarrow> string \<Rightarrow> 's \<Rightarrow> unit result \<times> 's) \<Rightarrow> delivery_worker \<Rightarrow>
   's worker_sys \<Rightarrow> 's worker_sys \<Rightarrow> bool"
  for connect :: "'s \<Rightarrow> unit result \<times> 's"
    and deliver :: "message \<Rightarrow> string \<Rightarrow> 's \<Rightarrow> unit result \<times> 's" and w :: delivery_worker where
  task: "task_step connect deliver w s t \<Longrightarrow> worker_step connect deliver w s t"
| mail_ok: "wf_message m \<Longrightarrow> enqueue m (w_store s) = (Inr i, st) \<Longrightarrow>
    worker_step connect deliver w s (s\<lparr>w_store := st, w_accepted := (i, m) # w_accepted s\<rparr>)"
| mail_refused: "enqueue m (w_store s) = (Inl e, st) \<Longrightarrow>
    worker_step connect deliver w s (s\<lparr>w_store := st\<rparr>)"
| shutdown: "worker_step connect deliver w s (s\<lparr>w_shutdown := True\<rparr>)"
| environment: "worker_step connect deliver w s (s\<lparr>w_store := refresh faults clk (w_store s)\<rparr>)"
| crash: "worker_step connect deliver w s
    (s\<lparr>w_phase := Connecting, w_shutdown := False, w_store := reboot (w_store s)\<rparr>)"

inductive_cases task_stepE: "task_step connect deliver w s t"

definition worker_init :: "'s worker_sys \<Rightarrow> bool" where
  "worker_init s \<longleftrightarrow> store_inv (w_store s) \<and> w_phase s = Connecting \<and> w_accepted s = []"

subsection \<open>Backoff\<close>

lemma unat_backoff:
  assumes "attempt \<noteq> 0"
  shows "unat (backoff_seconds base attempt cap) = min (unat base * 2 ^ (unat attempt - 1)) (unat cap)"
proof -
  let ?n = "unat attempt - 1"
  have n: "unat (attempt - 1) = ?n"
    using assms by (simp add: unat_minus_one)
  have m: "unat (min x y) = min (unat x) (unat y)" for x y :: u64
    by (simp add: min_def word_le_nat_alt)
  have cap: "unat cap \<le> 2 ^ 64 - 1" using unat_less_u64 [of cap] by simp
  have "unat (backoff_seconds base attempt cap) =
      min (min (unat base * min (2 ^ ?n) (2 ^ 64 - 1)) (2 ^ 64 - 1)) (unat cap)"
    using assms by (simp add: backoff_seconds_def m n unat_saturating_mul unat_saturating_pow)
  also have "\<dots> = min (unat base * min (2 ^ ?n) (2 ^ 64 - 1)) (unat cap)"
    using cap by (simp add: min_def)
  also have "\<dots> = min (unat base * 2 ^ ?n) (unat cap)"
  proof (cases "(2::nat) ^ ?n \<le> 2 ^ 64 - 1 \<or> base = 0")
    case True
    then show ?thesis by (auto simp: min_def)
  next
    case False
    then have "1 \<le> unat base" by (simp add: Suc_le_eq unat_gt_0)
    then have "unat cap \<le> unat base * (2 ^ 64 - 1)" "unat base * (2 ^ 64 - 1) \<le> unat base * 2 ^ ?n"
      using cap False by (auto intro: order_trans [OF _ mult_le_mono1] mult_le_mono2)
    moreover from this have "unat cap \<le> unat base * 2 ^ ?n" by (rule order_trans)
    moreover have "min (2 ^ ?n) (2 ^ 64 - 1) = (2 ^ 64 - 1 :: nat)"
      using False by (intro min_absorb2) linarith
    ultimately show ?thesis by (simp only: min_absorb2)
  qed
  finally show ?thesis .
qed

lemma backoff_le_cap: "unat (backoff_seconds base attempt cap) \<le> unat cap"
  using unat_backoff [of attempt base cap] by (cases "attempt = 0") (auto simp: backoff_seconds_def)

lemma uint_backoff_le: "uint (backoff_seconds base attempt MAX_BACKOFF_SECONDS) \<le> 900"
proof -
  have "unat (backoff_seconds base attempt MAX_BACKOFF_SECONDS) \<le> 900"
    using backoff_le_cap [of base attempt MAX_BACKOFF_SECONDS] by (simp add: MAX_BACKOFF_SECONDS_def)
  then show ?thesis unfolding uint_nat by linarith
qed

lemma wrap_backoff [simp]:
  "wrap_i64 (uint (backoff_seconds base attempt MAX_BACKOFF_SECONDS)) =
     uint (backoff_seconds base attempt MAX_BACKOFF_SECONDS)"
proof (rule wrap_i64_id)
  have "0 \<le> uint (backoff_seconds base attempt MAX_BACKOFF_SECONDS)" by simp
  with uint_backoff_le [of base attempt] show "is_i64 (uint (backoff_seconds base attempt MAX_BACKOFF_SECONDS))"
    unfolding is_i64_def by (auto intro: order_trans [of _ 0])
qed

lemma backoff_pos:
  assumes "base \<noteq> 0" and "attempt \<noteq> 0"
  shows "0 < uint (backoff_seconds base attempt MAX_BACKOFF_SECONDS)"
proof -
  have "0 < unat base" using assms(1) by (simp add: unat_gt_0)
  then have "0 < unat (backoff_seconds base attempt MAX_BACKOFF_SECONDS)"
    using unat_backoff [OF assms(2), of base MAX_BACKOFF_SECONDS] by (simp add: MAX_BACKOFF_SECONDS_def)
  then show ?thesis unfolding uint_nat by linarith
qed

lemma idempotency_key_inject [simp]: "idempotency_key i = idempotency_key j \<longleftrightarrow> i = j"
  by (simp add: idempotency_key_def)

subsection \<open>What one delivery does\<close>

text \<open>Every branch of \<open>deliver_one\<close> is one call of the store.\<close>

definition delivery_call ::
  "delivery_worker \<Rightarrow> stored_message \<Rightarrow> i64 \<Rightarrow> unit result \<Rightarrow> message queue_call" where
  "delivery_call w stored now r =
     (case r of
        Inr _ \<Rightarrow> Ack_call (sm_id stored)
      | Inl err \<Rightarrow>
          (let attempts = sm_attempts stored + 1 in
           if max_retries w < attempts then Bury_call (sm_id stored) (error_to_string err)
           else Retry_call (sm_id stored) attempts
             (wrap_i64 (now + uint (backoff_seconds (retry_backoff w) attempts MAX_BACKOFF_SECONDS)))))"

abbreviation store_step :: "message queue_call \<Rightarrow> message_store \<Rightarrow> message_store" where
  "store_step \<equiv> queue_step enqueue mark_delivered reschedule dead_letter"

lemma deliver_one_eq:
  "deliver_one deliver w stored now st snk =
     (case deliver (sm_message stored) (idempotency_key (sm_id stored)) snk of
        (r, snk') \<Rightarrow> (store_step (delivery_call w stored now r) st, snk'))"
  by (simp add: deliver_one_def delivery_call_def handle_failure_def Let_def split: prod.split sum.split)

lemma delivery_call_cases:
  obtains (ack) u where "q = Inr u" "delivery_call w sm now q = Ack_call (sm_id sm)"
    | (bury) err where "q = Inl err" "max_retries w < sm_attempts sm + 1"
        "delivery_call w sm now q = Bury_call (sm_id sm) (error_to_string err)"
    | (retry) err at where "q = Inl err" "\<not> max_retries w < sm_attempts sm + 1"
        "at = wrap_i64 (now + uint (backoff_seconds (retry_backoff w) (sm_attempts sm + 1) MAX_BACKOFF_SECONDS))"
        "delivery_call w sm now q = Retry_call (sm_id sm) (sm_attempts sm + 1) at"
  by (cases q; cases "max_retries w < sm_attempts sm + 1") (auto simp: delivery_call_def Let_def)

lemma good_delivery_call: "good_call wf_message (delivery_call w stored now r)"
  by (simp add: good_call_def delivery_call_def Let_def split: sum.split)

lemma releases_delivery_call: "releases i (delivery_call w stored now r) \<Longrightarrow> i = sm_id stored"
  by (auto simp: releases_def delivery_call_def Let_def split: sum.splits if_splits)

lemma store_step_frame: "\<forall>m. c \<noteq> Enqueue_call m \<Longrightarrow> same_frame st (store_step c st)"
proof (cases c)
  case (Ack_call i)
  then show ?thesis
    by (cases "mark_delivered i st") (auto elim: mark_delivered_cases)
next
  case (Retry_call i n at)
  then show ?thesis by (cases "reschedule i n at st") (auto elim: reschedule_cases)
next
  case (Bury_call i e)
  then show ?thesis by (cases "dead_letter i e st") (auto elim: dead_letter_cases)
qed auto

lemma delivery_call_frame: "same_frame st (store_step (delivery_call w stored now r) st)"
  by (rule store_step_frame) (auto simp: delivery_call_def Let_def split: sum.splits)

lemma store_step_buried: "store_inv st \<Longrightarrow> good_call wf_message c \<Longrightarrow> set (buried st) \<subseteq> set (buried (store_step c st))"
proof (cases c)
  case (Enqueue_call m)
  then show "store_inv st \<Longrightarrow> good_call wf_message c \<Longrightarrow> ?thesis"
    using enqueue_ok(4) [of st m] oq.enq_err [of m st]
    by (cases "enqueue m st"; cases "fst (enqueue m st)") (auto simp: good_call_def)
next
  case (Ack_call i)
  then show ?thesis
    using oq.ack_ok [of i st] oq.ack_err [of i st]
    by (cases "mark_delivered i st"; cases "fst (mark_delivered i st)") auto
next
  case (Retry_call i n at)
  then show ?thesis using oq.retry_same [of i n at st] by (cases "reschedule i n at st") auto
next
  case (Bury_call i e)
  then show ?thesis
    using oq.bury_ok [of i e st] oq.bury_err [of i e st]
    by (cases "dead_letter i e st"; cases "fst (dead_letter i e st)") auto
qed

text \<open>A message that leaves the queue in a delivery was taken by the sink or buried.\<close>

lemma delivery_call_keeps:
  assumes "store_inv st" and "queued st j = Some m" and "r = Inl err"
  shows "queued (store_step (delivery_call w stored now r) st) j = Some m \<or>
         m \<in> set (buried (store_step (delivery_call w stored now r) st))"
proof (cases "releases j (delivery_call w stored now r)")
  case False
  with assms show ?thesis by (auto intro: oq.step_keeps good_delivery_call)
next
  case True
  then have c: "delivery_call w stored now r = Bury_call j (error_to_string err)"
    using assms(3) by (auto simp: releases_def delivery_call_def Let_def split: if_splits)
  obtain q st' where q: "dead_letter j (error_to_string err) st = (q, st')" by fastforce
  then show ?thesis
    using c assms(2) oq.bury_ok [of j _ st _ st'] oq.bury_err [of j _ st _ st'] by (cases q) auto
qed

subsection \<open>What one turn of the loop does\<close>

definition sleep_ok :: "i64 set \<Rightarrow> database \<Rightarrow> i64 \<Rightarrow> nat \<Rightarrow> bool" where
  "sleep_ok missed db now n \<longleftrightarrow>
     n = STORAGE_ERROR_BACKOFF \<or>
     (\<forall>r\<in>set (outbox db). ob_id r \<notin> missed \<longrightarrow>
        (\<exists>at. now < at \<and> at \<le> next_attempt_at r \<and> n = nat (max (wrap_i64 (at - now)) 0)))"

lemma idle_wait_cases:
  assumes "idle_wait now st = (n, st')"
    and "\<And>r. r \<in> set (outbox (conn st)) \<Longrightarrow> ob_id r \<notin> missed \<Longrightarrow> now < next_attempt_at r"
  shows "conn st' = conn st \<and> same_frame st st' \<and> sleep_ok missed (conn st) now n"
proof -
  obtain q st1 where q: "next_wakeup now st = (q, st1)" by fastforce
  then have st: "st' = st1" using assms(1) by (auto simp: idle_wait_def split: sum.splits option.splits)
  from q show ?thesis
  proof (cases rule: next_wakeup_cases)
    case (fails e)
    with q assms(1) st show ?thesis by (auto simp: idle_wait_def sleep_ok_def)
  next
    case (selected a)
    show ?thesis
    proof (cases a)
      case None
      with selected have "next_attempt_at r \<le> now" if "r \<in> set (outbox (conn st))" for r
        using min_wakeup_None that by blast
      then have "ob_id r \<in> missed" if "r \<in> set (outbox (conn st))" for r
        using assms(2) [OF that] that by fastforce
      with selected st show ?thesis by (simp add: sleep_ok_def)
    next
      case (Some at)
      with q selected assms(1) have n: "n = nat (max (wrap_i64 (at - now)) 0)"
        by (simp add: idle_wait_def)
      from Some selected have m: "sql_min_wakeup now (conn st) = Inr (Some at, conn st)" by simp
      have "sleep_ok missed (conn st) now n"
        unfolding sleep_ok_def using min_wakeup_Some(1,3) [OF m] assms(2) n by blast
      with selected st show ?thesis by simp
    qed
  qed
qed

lemma idle_wait_frame: "idle_wait now st = (n, st') \<Longrightarrow> conn st' = conn st \<and> same_frame st st'"
  by (auto simp: idle_wait_def elim!: next_wakeup_cases split: prod.splits sum.splits option.splits)

lemma run_iter_cases:
  assumes "run_iter deliver w sd st snk = (p, st', snk')"
  obtains
    (delivers) now sm st1 st2 r where "p = Claiming" "conn st1 = conn st" "same_frame st st1"
      "claim_next_ready now st1 = (Inr (Some sm), st2)"
      "deliver (sm_message sm) (idempotency_key (sm_id sm)) snk = (r, snk')"
      "st' = store_step (delivery_call w sm now r) st2" "unix_now st = (now, st1)"
  | (stops) now where "p = Stopped" "sd" "conn st' = conn st" "same_frame st st'" "snk' = snk"
      "\<forall>r\<in>set (outbox (conn st)). now < next_attempt_at r"
  | (sleeps) now n where "p = Sleeping now n" "\<not> sd" "conn st' = conn st" "same_frame st st'" "snk' = snk"
      "\<forall>r\<in>set (outbox (conn st)). now < next_attempt_at r" "sleep_ok {} (conn st) now n"
  | (pauses) "p = Pausing STORAGE_ERROR_BACKOFF" "conn st' = conn st" "same_frame st st'" "snk' = snk"
proof -
  obtain now st1 where now: "unix_now st = (now, st1)" by fastforce
  have f1: "conn st1 = conn st" "same_frame st st1" using unix_now_frame [OF now] by simp_all
  obtain q st2 where q: "claim_next_ready now st1 = (q, st2)" by fastforce
  have f2: "conn st2 = conn st" "same_frame st st2"
    using q f1 by (auto elim!: claim_next_ready_cases intro: same_frame_trans)
  show thesis
  proof (cases q)
    case (Inl e)
    with assms now q f2 show ?thesis by (intro pauses) (auto simp: run_iter_def)
  next
    case (Inr a)
    show ?thesis
    proof (cases a)
      case (Some sm)
      obtain r snk1 where d: "deliver (sm_message sm) (idempotency_key (sm_id sm)) snk = (r, snk1)" by fastforce
      show ?thesis
        by (rule delivers [of st1 now sm st2 r])
          (use assms now q Inr Some d f1 in \<open>auto simp: run_iter_def deliver_one_eq\<close>)
    next
      case None
      with q Inr have due: "\<forall>r\<in>set (outbox (conn st)). now < next_attempt_at r"
        using claim_None(3) [of now st1 st2] f1 by auto
      show ?thesis
      proof (cases sd)
        case True
        with assms now q Inr None f2 due show ?thesis by (intro stops) (auto simp: run_iter_def)
      next
        case False
        obtain n st3 where i: "idle_wait now st2 = (n, st3)" by fastforce
        from idle_wait_cases [OF this] due f2
        have f3: "conn st3 = conn st" "same_frame st st3" "sleep_ok {} (conn st) now n"
          by (auto intro: same_frame_trans)
        from False assms now q Inr None i f3 due show ?thesis
          by (intro sleeps) (auto simp: run_iter_def)
      qed
    qed
  qed
qed

subsection \<open>Deliveries when the storage works\<close>

lemma mark_delivered_no_fault:
  "sql_faults st = [] \<Longrightarrow> mark_delivered i st =
     (Inr (), st\<lparr>conn := (conn st)\<lparr>outbox := filter (\<lambda>r. ob_id r \<noteq> i) (outbox (conn st))\<rparr>\<rparr>)"
  by (simp add: mark_delivered_def remove_def with_conn_no_fault exec_sql_no_fault sql_delete_outbox_def)

lemma reschedule_no_fault:
  "sql_faults st = [] \<Longrightarrow> reschedule i n at st =
     (Inr (), st\<lparr>conn := (conn st)\<lparr>outbox :=
        map (\<lambda>r. if ob_id r = i then rescheduled n at r else r) (outbox (conn st))\<rparr>\<rparr>)"
  by (simp add: reschedule_def with_conn_no_fault exec_sql_no_fault sql_update_outbox_def rescheduled_def)

lemma dead_letter_no_fault:
  assumes "sql_faults st = []" and "dead_seq (conn st) < i64_max"
  shows "\<exists>st'. dead_letter i x st = (Inr (), st') \<and> sql_faults st' = [] \<and>
    clock st' = clock (snd (unix_now st)) \<and>
    outbox (conn st') = filter (\<lambda>r. ob_id r \<noteq> i) (outbox (conn st)) \<and>
    dead_seq (conn st') = dead_seq (conn st) + (case rows (conn st) i of None \<Rightarrow> 0 | Some r \<Rightarrow> 1)"
proof -
  obtain t st1 where t: "unix_now st = (t, st1)" by fastforce
  with assms(1) have 1: "sql_faults st1 = []" "conn st1 = conn st"
    by (auto simp: unix_now_def split: list.splits option.splits)
  obtain db1 where ins: "sql_insert_dead_letter i t x (conn st) = Inr ((), db1)"
    and db1: "dead_seq db1 = dead_seq (conn st) + (case rows (conn st) i of None \<Rightarrow> 0 | Some r \<Rightarrow> 1)"
    "outbox db1 = outbox (conn st)"
  proof (cases "rows (conn st) i")
    case None
    then show thesis by (intro that [of "conn st"]) (simp_all add: sql_insert_dead_letter_def find_rows)
  next
    case (Some r)
    with assms(2) have "\<exists>db1. sql_insert_dead_letter i t x (conn st) = Inr ((), db1) \<and>
        dead_seq db1 = dead_seq (conn st) + 1 \<and> outbox db1 = outbox (conn st)"
      by (auto simp: sql_insert_dead_letter_def find_rows Let_def)
    with Some that show thesis by auto
  qed
  have "dead_letter i x st = (Inr (), st1\<lparr>conn := db1\<lparr>outbox := filter (\<lambda>r. ob_id r \<noteq> i) (outbox db1)\<rparr>\<rparr>)"
    using t 1 ins
    by (simp add: dead_letter_def dead_letter_tx_def with_conn_no_fault exec_sql_no_fault sql_delete_outbox_def)
  with 1 db1 t show ?thesis by simp
qed

lemma unix_now_no_fault: "unix_now st = (t, st') \<Longrightarrow> sql_faults st' = sql_faults st"
  by (auto simp: unix_now_def split: list.splits option.splits)

lemma claim_no_fault:
  "sql_faults st = [] \<Longrightarrow> \<exists>a. claim_next_ready now st = (Inr a, st)"
  by (simp add: claim_next_ready_def with_conn_no_fault exec_sql_no_fault sql_select_ready_def split: list.split)

lemma row_attempts: "sm = row_to_stored r \<Longrightarrow> sm_attempts sm = word_of_int (ob_attempts r)"
  by (simp add: row_to_stored_def)

lemma next_attempts:
  assumes "0 \<le> a" and "a < 2 ^ 32 - 1"
  shows "unat (word_of_int a + 1 :: u32) = Suc (nat a)"
proof -
  have "word_of_int a = (of_nat (nat a) :: u32)" using assms(1) by simp
  then have "word_of_int a + 1 = (of_nat (Suc (nat a)) :: u32)" by (simp only: of_nat_Suc add.commute)
  then have "unat (word_of_int a + 1 :: u32) = Suc (nat a) mod 2 ^ 32"
    by (simp only: unat_of_nat) simp
  also have "\<dots> = Suc (nat a)" using assms by (simp add: nat_less_iff)
  finally show ?thesis .
qed

subsection \<open>Draining ends\<close>

text \<open>
  The loop of \<open>run\<close> once the shutdown flag is set, with fuel for the turns of the loop. The
  work left is bounded by the attempts each queued row still has.
\<close>

fun drain ::
  "nat \<Rightarrow> (message \<Rightarrow> string \<Rightarrow> 's \<Rightarrow> unit result \<times> 's) \<Rightarrow> delivery_worker \<Rightarrow>
   message_store \<Rightarrow> 's \<Rightarrow> (message_store \<times> 's) option" where
  "drain 0 deliver w st snk = None"
| "drain (Suc fuel) deliver w st snk =
     (case run_iter deliver w True st snk of
        (Claiming, st', snk') \<Rightarrow> drain fuel deliver w st' snk'
      | (_, st', snk') \<Rightarrow> Some (st', snk'))"

definition attempts_left :: "delivery_worker \<Rightarrow> outbox_row \<Rightarrow> nat" where
  "attempts_left w r = Suc (unat (max_retries w) - nat (ob_attempts r))"

definition work_left :: "delivery_worker \<Rightarrow> database \<Rightarrow> nat" where
  "work_left w db = sum_list (map (attempts_left w) (outbox db))"

text \<open>
  The next \<open>n\<close> readings of the clock lie between \<open>lo\<close> and \<open>hi\<close>. A turn of the loop reads it
  once, and once more when it buries a message.
\<close>

fun clock_within :: "i64 \<Rightarrow> i64 \<Rightarrow> nat \<Rightarrow> message_store \<Rightarrow> bool" where
  "clock_within lo hi 0 st = True"
| "clock_within lo hi (Suc n) st =
     (case unix_now st of (t, st') \<Rightarrow> lo \<le> t \<and> t \<le> hi \<and> clock_within lo hi n st')"

lemma unix_now_clock:
  assumes "clock st = clock st'"
  shows "fst (unix_now st) = fst (unix_now st')" "clock (snd (unix_now st)) = clock (snd (unix_now st'))"
  using assms by (simp_all add: unix_now_def split: list.split option.split)

lemma clock_within_cong: "clock st = clock st' \<Longrightarrow> clock_within lo hi n st = clock_within lo hi n st'"
proof (induction n arbitrary: st st')
  case (Suc n)
  from Suc.IH [OF unix_now_clock(2) [OF Suc.prems]] unix_now_clock(1) [OF Suc.prems] show ?case
    by (simp split: prod.split) (metis fst_conv snd_conv)
qed simp

lemma clock_within_fewer: "clock_within lo hi n st \<Longrightarrow> m \<le> n \<Longrightarrow> clock_within lo hi m st"
proof (induction n arbitrary: m st)
  case (Suc n)
  then show ?case by (cases m) (auto split: prod.splits)
qed simp

text \<open>Room in the dead-letter table, and counters that cannot wrap.\<close>

definition drainable :: "delivery_worker \<Rightarrow> database \<Rightarrow> bool" where
  "drainable w db \<longleftrightarrow>
     db_inv db \<and> max_retries w \<noteq> - 1 \<and> dead_seq db + int (length (outbox db)) \<le> i64_max \<and>
     (\<forall>r\<in>set (outbox db). ob_attempts r < 2 ^ 32 - 1)"

lemma sum_filter_key:
  "distinct (map k xs) \<Longrightarrow> r \<in> set xs \<Longrightarrow>
   sum_list (map f (filter (\<lambda>x. k x \<noteq> k r) xs)) + f r = sum_list (map (f :: 'a \<Rightarrow> nat) xs) \<and>
   length (filter (\<lambda>x. k x \<noteq> k r) xs) < length xs"
proof (induction xs)
  case Nil
  then show ?case by simp
next
  case (Cons x xs)
  show ?case
  proof (cases "x = r")
    case True
    with Cons.prems have "k r \<notin> k ` set xs" by simp
    then have "filter (\<lambda>x. k x \<noteq> k r) xs = xs" unfolding filter_id_conv by (metis image_eqI)
    with True show ?thesis by simp
  next
    case False
    with Cons show ?thesis by auto
  qed
qed

lemma sum_update_key:
  "distinct (map k xs) \<Longrightarrow> r \<in> set xs \<Longrightarrow>
   sum_list (map f (map (\<lambda>x. if k x = k r then g x else x) xs)) + f r =
     sum_list (map (f :: 'a \<Rightarrow> nat) xs) + f (g r)"
proof (induction xs)
  case Nil
  then show ?case by simp
next
  case (Cons x xs)
  show ?case
  proof (cases "x = r")
    case True
    with Cons.prems have "k r \<notin> k ` set xs" by simp
    then have "map (\<lambda>x. if k x = k r then g x else x) xs = xs" by (intro map_idI) (metis image_eqI)
    with True show ?thesis by simp
  next
    case False
    with Cons.prems have "k x \<noteq> k r" by auto
    with False Cons show ?thesis by auto
  qed
qed

lemma attempts_left_rescheduled:
  assumes "unat n = Suc (nat (ob_attempts r))" and "unat n \<le> unat (max_retries w)"
  shows "Suc (attempts_left w (rescheduled n at r)) = attempts_left w r"
proof -
  have "nat (ob_attempts (rescheduled n at r)) = Suc (nat (ob_attempts r))"
    using assms(1) by (simp add: rescheduled_def)
  with assms show ?thesis by (simp add: attempts_left_def)
qed

text \<open>A message that is rescheduled has fewer attempts left, and its count stays below the maximum.\<close>

lemma next_attempt_fits:
  assumes "drainable w (conn st)" and "r \<in> set (outbox (conn st))" and "sm = row_to_stored r"
    and "\<not> max_retries w < sm_attempts sm + 1"
  shows "uint (sm_attempts sm + 1) < 2 ^ 32 - 1"
    and "attempts_left w (rescheduled (sm_attempts sm + 1) at r) < attempts_left w r"
proof -
  let ?n = "sm_attempts sm + 1"
  have a: "0 \<le> ob_attempts r" "ob_attempts r < 2 ^ 32 - 1" "sm_attempts sm = word_of_int (ob_attempts r)"
    using assms(1-3) by (auto simp: drainable_def db_inv_def row_to_stored_def)
  have n: "unat ?n = Suc (nat (ob_attempts r))" unfolding a(3) by (rule next_attempts [OF a(1,2)])
  have le: "unat ?n \<le> unat (max_retries w)" using assms(4) by (simp add: word_less_nat_alt not_less)
  show "attempts_left w (rescheduled ?n at r) < attempts_left w r"
    using attempts_left_rescheduled [OF n le, of at] by simp
  have "unat (max_retries w) < 2 ^ 32 - 1"
    by (rule u32_less_max) (use assms(1) in \<open>simp add: drainable_def\<close>)
  with le have "unat ?n < 2 ^ 32 - 1" by linarith
  then have "int (unat ?n) < int (2 ^ 32 - 1)" by (simp only: of_nat_less_iff)
  then show "uint ?n < 2 ^ 32 - 1" by simp
qed

text \<open>One delivery uses up work, whatever the sink answers.\<close>

lemma delivery_progress:
  assumes "sql_faults st = []" and "drainable w (conn st)" and "rows (conn st) (sm_id sm) = Some r"
    and "sm = row_to_stored r"
  shows "let st' = store_step (delivery_call w sm now q) st in
    sql_faults st' = [] \<and> drainable w (conn st') \<and> work_left w (conn st') < work_left w (conn st)"
proof -
  let ?c = "delivery_call w sm now q" and ?i = "sm_id sm" and ?n = "sm_attempts sm + 1"
  have inv: "store_inv st" using assms(2) by (simp add: drainable_def)
  have d: "distinct (map ob_id (outbox (conn st)))" using inv by (simp add: db_inv_def)
  have r: "r \<in> set (outbox (conn st))" "ob_id r = ?i" using rows_Some [OF assms(3)] by simp_all
  have inv': "store_inv (store_step ?c st)" by (rule oq.step_inv [OF inv good_delivery_call])
  have gone: "work_left w (db\<lparr>outbox := filter (\<lambda>r. ob_id r \<noteq> ?i) (outbox (conn st))\<rparr>) < work_left w (conn st)"
    "length (filter (\<lambda>r. ob_id r \<noteq> ?i) (outbox (conn st))) < length (outbox (conn st))" for db
    using sum_filter_key [OF d r(1), of "attempts_left w"] r(2) by (auto simp: work_left_def attempts_left_def)
  show ?thesis
  proof (cases rule: delivery_call_cases [of q w sm now])
    case (ack u)
    with assms gone inv' show ?thesis
      by (auto simp: mark_delivered_no_fault drainable_def Let_def work_left_def)
  next
    case (bury err)
    let ?e = "error_to_string err"
    have "0 < length (outbox (conn st))" using r(1) by (cases "outbox (conn st)") auto
    then have "dead_seq (conn st) < i64_max" using assms(2) unfolding drainable_def by linarith
    from dead_letter_no_fault [OF assms(1) this, of ?i ?e] obtain st' where
      st': "dead_letter ?i ?e st = (Inr (), st')" "sql_faults st' = []"
      "outbox (conn st') = filter (\<lambda>r. ob_id r \<noteq> ?i) (outbox (conn st))"
      "dead_seq (conn st') = dead_seq (conn st) + 1" using assms(3) by auto
    with bury inv' have "store_inv st'" by simp
    with st' bury gone assms(2) show ?thesis
      by (auto simp: drainable_def Let_def work_left_def)
  next
    case (retry err at)
    note fit = next_attempt_fits [OF assms(2) r(1) assms(4) retry(2)]
    have "work_left w (db\<lparr>outbox := map (\<lambda>r. if ob_id r = ?i then rescheduled ?n at r else r) (outbox (conn st))\<rparr>)
        < work_left w (conn st)" for db
      using sum_update_key [OF d r(1), of "attempts_left w" "rescheduled ?n at"] r(2) fit(2) [of at]
      by (simp add: work_left_def)
    with retry(4) assms(1,2) inv' fit(1) show ?thesis
      by (auto simp: reschedule_no_fault drainable_def Let_def rescheduled_def)
  qed
qed

subsection \<open>Bounded attempts\<close>

text \<open>The rows after a delivery when the storage works, on each of the three branches.\<close>

lemma delivery_rows:
  assumes "sql_faults st = []" and "drainable w (conn st)" and "rows (conn st) (sm_id sm) = Some r"
    and "sm = row_to_stored r"
  shows "rows (conn (store_step (delivery_call w sm now q) st)) = (rows (conn st))(sm_id sm :=
    (case q of
       Inr u \<Rightarrow> None
     | Inl err \<Rightarrow>
         if max_retries w < sm_attempts sm + 1 then None
         else Some (rescheduled (sm_attempts sm + 1)
           (wrap_i64 (now + uint (backoff_seconds (retry_backoff w) (sm_attempts sm + 1) MAX_BACKOFF_SECONDS))) r)))"
    (is "_ = ?rhs")
proof (cases rule: delivery_call_cases [of q w sm now])
  case (ack u)
  obtain q' st' where m: "mark_delivered (sm_id sm) st = (q', st')" by fastforce
  with assms(1) have "q' = Inr ()" by (simp add: mark_delivered_no_fault)
  with m mark_delivered_ok(1) have "rows (conn st') = (rows (conn st))(sm_id sm := None)" by blast
  with ack m show ?thesis by simp
next
  case (bury err)
  have "outbox (conn st) \<noteq> []" using rows_Some [OF assms(3)] by (cases "outbox (conn st)") auto
  then have "0 < length (outbox (conn st))" by simp
  then have "dead_seq (conn st) < i64_max" using assms(2) unfolding drainable_def by linarith
  from dead_letter_no_fault [OF assms(1) this, of "sm_id sm" "error_to_string err"] obtain st'
    where d: "dead_letter (sm_id sm) (error_to_string err) st = (Inr (), st')" by blast
  with dead_letter_ok(1) [OF d] bury show ?thesis by simp
next
  case (retry err at)
  obtain q' st' where m: "reschedule (sm_id sm) (sm_attempts sm + 1) at st = (q', st')" by fastforce
  with assms(1) have "q' = Inr ()" by (simp add: reschedule_no_fault)
  with m reschedule_ok(1) have "rows (conn st') = (\<lambda>j. if j = sm_id sm
      then map_option (rescheduled (sm_attempts sm + 1) at) (rows (conn st) j) else rows (conn st) j)" by blast
  with retry m assms(3) show ?thesis by (auto simp: fun_eq_iff)
qed

subsection \<open>What a drain leaves\<close>

text \<open>One delivery leaves the other rows alone and reads the clock at most once more.\<close>

lemma delivery_clock:
  assumes "sql_faults st = []" and "drainable w (conn st)" and "rows (conn st) (sm_id sm) = Some r"
  shows "clock (store_step (delivery_call w sm now q) st) \<in> {clock st, clock (snd (unix_now st))}"
proof (cases rule: delivery_call_cases [of q w sm now])
  case (bury err)
  have "outbox (conn st) \<noteq> []" using rows_Some [OF assms(3)] by (cases "outbox (conn st)") auto
  then have "0 < length (outbox (conn st))" by simp
  then have "dead_seq (conn st) < i64_max" using assms(2) unfolding drainable_def by linarith
  from dead_letter_no_fault [OF assms(1) this, of "sm_id sm" "error_to_string err"] bury show ?thesis
    by fastforce
qed (use assms(1) in \<open>simp_all add: mark_delivered_no_fault reschedule_no_fault\<close>)

lemma delivery_clock_within:
  assumes "clock_within lo hi (Suc n) st" and "clock st' \<in> {clock st, clock (snd (unix_now st))}"
  shows "clock_within lo hi n st'"
proof -
  have "clock_within lo hi n st" by (rule clock_within_fewer [OF assms(1)]) simp
  moreover have "clock_within lo hi n (snd (unix_now st))" using assms(1) by (simp split: prod.splits)
  ultimately show ?thesis using assms(2) clock_within_cong [of st' _ lo hi n] by blast
qed

lemma delivery_other_rows:
  assumes "sql_faults st = []" and "drainable w (conn st)" and "rows (conn st) (sm_id sm) = Some r"
    and "sm = row_to_stored r" and "r' \<in> set (outbox (conn st))" and "ob_id r' \<noteq> sm_id sm"
  shows "r' \<in> set (outbox (conn (store_step (delivery_call w sm now q) st)))"
proof -
  have "rows (conn st) (ob_id r') = Some r'"
    using assms(2,5) by (simp add: drainable_def rows_member)
  then have "rows (conn (store_step (delivery_call w sm now q) st)) (ob_id r') = Some r'"
    using assms(6) by (simp add: delivery_rows [OF assms(1-4)])
  then show ?thesis by (rule rows_Some [THEN conjunct1])
qed

lemma drain_ends:
  assumes "sql_faults st = []" and "drainable w (conn st)" and "work_left w (conn st) < fuel"
  shows "\<exists>st' snk'. drain fuel deliver w st snk = Some (st', snk') \<and>
    (\<forall>lo hi. clock_within lo hi (2 * fuel) st \<longrightarrow>
       (\<forall>r\<in>set (outbox (conn st')). lo < next_attempt_at r) \<and>
       (\<forall>r\<in>set (outbox (conn st)). hi < next_attempt_at r \<longrightarrow> r \<in> set (outbox (conn st'))))"
  using assms
proof (induction fuel arbitrary: st snk)
  case 0
  then show ?case by simp
next
  case (Suc fuel)
  have inv: "store_inv st" using Suc.prems(2) by (simp add: drainable_def)
  obtain now st1 where now: "unix_now st = (now, st1)" by fastforce
  then have 1: "sql_faults st1 = []" "conn st1 = conn st"
    using unix_now_no_fault [OF now] unix_now_frame [OF now] Suc.prems(1) by simp_all
  from claim_no_fault [OF 1(1)] obtain a where a: "claim_next_ready now st1 = (Inr a, st1)" by blast
  show ?case
  proof (cases a)
    case None
    with a have "\<forall>r\<in>set (outbox (conn st)). now < next_attempt_at r"
      using claim_None(3) [of now st1 st1] 1 by auto
    with now a None 1 show ?thesis by (fastforce simp: run_iter_def)
  next
    case (Some sm)
    with a have c: "claim_next_ready now st1 = (Inr (Some sm), st1)" by simp
    have inv1: "store_inv st1" using inv 1 by simp
    from claim_Some(3) [OF inv1 c] obtain r where
      r: "rows (conn st1) (sm_id sm) = Some r" "sm = row_to_stored r" and due: "next_attempt_at r \<le> now" by blast
    obtain q snk' where d: "deliver (sm_message sm) (idempotency_key (sm_id sm)) snk = (q, snk')" by fastforce
    let ?st = "store_step (delivery_call w sm now q) st1"
    have dr1: "drainable w (conn st1)" using Suc.prems(2) 1 by simp
    have step: "run_iter deliver w True st snk = (Claiming, ?st, snk')"
      using now c d by (simp add: run_iter_def deliver_one_eq)
    have "sql_faults ?st = []" "drainable w (conn ?st)" "work_left w (conn ?st) < fuel"
      using delivery_progress [OF 1(1) dr1 r, of now q] Suc.prems 1 by (auto simp: Let_def)
    from Suc.IH [OF this, of snk'] obtain st' snk2 where
      e: "drain fuel deliver w ?st snk' = Some (st', snk2)" and
      k: "clock_within lo hi (2 * fuel) ?st \<Longrightarrow>
        (\<forall>r\<in>set (outbox (conn st')). lo < next_attempt_at r) \<and>
        (\<forall>r\<in>set (outbox (conn ?st)). hi < next_attempt_at r \<longrightarrow> r \<in> set (outbox (conn st')))" for lo hi
      by blast
    have "(\<forall>r\<in>set (outbox (conn st')). lo < next_attempt_at r) \<and>
        (\<forall>r\<in>set (outbox (conn st)). hi < next_attempt_at r \<longrightarrow> r \<in> set (outbox (conn st')))"
      if w: "clock_within lo hi (2 * Suc fuel) st" for lo hi
    proof -
      from w now have "now \<le> hi" and w1: "clock_within lo hi (Suc (2 * fuel)) st1" by auto
      have "clock_within lo hi (2 * fuel) ?st"
        by (rule delivery_clock_within [OF w1 delivery_clock [OF 1(1) dr1 r(1)]])
      moreover have "r' \<in> set (outbox (conn ?st))" if "r' \<in> set (outbox (conn st))" "hi < next_attempt_at r'" for r'
      proof -
        have "rows (conn st1) (ob_id r') = Some r'" using that(1) inv1 1(2) by (simp add: rows_member)
        with that(2) \<open>now \<le> hi\<close> due r(1) have "ob_id r' \<noteq> sm_id sm" by auto
        then show ?thesis using delivery_other_rows [OF 1(1) dr1 r] that(1) 1(2) by simp
      qed
      ultimately show ?thesis using k by blast
    qed
    with step e show ?thesis by simp
  qed
qed

definition left_for :: "delivery_worker \<Rightarrow> database \<Rightarrow> i64 \<Rightarrow> nat" where
  "left_for w db i = (case rows db i of None \<Rightarrow> 0 | Some r \<Rightarrow> attempts_left w r)"

lemma delivery_left:
  assumes "sql_faults st = []" and "drainable w (conn st)" and "rows (conn st) (sm_id sm) = Some r"
    and "sm = row_to_stored r"
  shows "left_for w (conn (store_step (delivery_call w sm now q) st)) i + (if i = sm_id sm then 1 else 0)
    \<le> left_for w (conn st) i"
proof (cases "i = sm_id sm")
  case False
  then show ?thesis by (simp add: left_for_def delivery_rows [OF assms])
next
  case True
  have a: "0 \<le> ob_attempts r" "ob_attempts r < 2 ^ 32 - 1" "sm_attempts sm = word_of_int (ob_attempts r)"
    using assms(2) rows_Some [OF assms(3)] by (auto simp: drainable_def db_inv_def row_attempts [OF assms(4)])
  have n: "unat (sm_attempts sm + 1) = Suc (nat (ob_attempts r))"
    unfolding a(3) by (rule next_attempts [OF a(1,2)])
  have "left_for w (conn st) i = attempts_left w r" "1 \<le> attempts_left w r"
    using True assms(3) by (simp_all add: left_for_def attempts_left_def)
  moreover have "attempts_left w (rescheduled (sm_attempts sm + 1) at r) + 1 \<le> attempts_left w r"
    if "\<not> max_retries w < sm_attempts sm + 1" for at
    using attempts_left_rescheduled [OF n, of w at] that by (simp add: word_less_nat_alt not_less)
  ultimately show ?thesis
    using True by (auto simp: left_for_def delivery_rows [OF assms] split: sum.split)
qed

lemma run_iter_no_fault:
  assumes "sql_faults st = []" and "drainable w (conn st)"
    and "run_iter deliver w sd st snk = (p, st', snk')"
  shows "sql_faults st' = [] \<and> drainable w (conn st')"
proof -
  obtain now st1 where now: "unix_now st = (now, st1)" by fastforce
  then have 1: "sql_faults st1 = []" "conn st1 = conn st"
    using unix_now_no_fault [OF now] unix_now_frame [OF now] assms(1) by simp_all
  from claim_no_fault [OF 1(1)] obtain a where a: "claim_next_ready now st1 = (Inr a, st1)" by blast
  show ?thesis
  proof (cases a)
    case None
    have "\<exists>n. idle_wait now st1 = (n, st1)"
      using 1(1)
      by (auto simp: idle_wait_def next_wakeup_def with_conn_no_fault exec_sql_no_fault sql_min_wakeup_def
          split: list.split)
    with now a None 1 assms(2,3) show ?thesis by (auto simp: run_iter_def split: if_splits)
  next
    case (Some sm)
    have inv1: "store_inv st1" using assms(2) 1 by (simp add: drainable_def)
    from Some a have c: "claim_next_ready now st1 = (Inr (Some sm), st1)" by simp
    from claim_Some(3) [OF inv1 c] obtain r where
      r: "rows (conn st1) (sm_id sm) = Some r" "sm = row_to_stored r" by blast
    obtain q snk1 where d: "deliver (sm_message sm) (idempotency_key (sm_id sm)) snk = (q, snk1)" by fastforce
    with now c assms(3) have "st' = store_step (delivery_call w sm now q) st1"
      by (simp add: run_iter_def deliver_one_eq)
    with delivery_progress [OF 1(1) _ r, of w now q] assms(2) 1 show ?thesis by (simp add: Let_def)
  qed
qed

text \<open>Turns of the loop one after the other, and a sink that records the keys it was called with.\<close>

fun turns ::
  "nat \<Rightarrow> (message \<Rightarrow> string \<Rightarrow> 's \<Rightarrow> unit result \<times> 's) \<Rightarrow> delivery_worker \<Rightarrow>
   message_store \<Rightarrow> 's \<Rightarrow> message_store \<times> 's" where
  "turns 0 deliver w st snk = (st, snk)"
| "turns (Suc n) deliver w st snk =
     (case run_iter deliver w False st snk of (p, st', snk') \<Rightarrow> turns n deliver w st' snk')"

definition recording ::
  "(message \<Rightarrow> string \<Rightarrow> 's \<Rightarrow> unit result \<times> 's) \<Rightarrow> message \<Rightarrow> string \<Rightarrow> 's \<times> string list \<Rightarrow>
   unit result \<times> 's \<times> string list" where
  "recording deliver m k s = (case deliver m k (fst s) of (r, s') \<Rightarrow> (r, s', snd s @ [k]))"

lemma turns_bounded:
  assumes "sql_faults st = []" and "drainable w (conn st)"
  shows "count_list (snd (snd (turns n (recording deliver) w st snk))) (idempotency_key i)
    \<le> count_list (snd snk) (idempotency_key i) + left_for w (conn st) i"
  using assms
proof (induction n arbitrary: st snk)
  case 0
  then show ?case by simp
next
  case (Suc n)
  obtain p st' snk' where it: "run_iter (recording deliver) w False st snk = (p, st', snk')"
    by (metis prod_cases3)
  note next_ok = run_iter_no_fault [OF Suc.prems it]
  have "count_list (snd snk') (idempotency_key i) + left_for w (conn st') i
      \<le> count_list (snd snk) (idempotency_key i) + left_for w (conn st) i"
    using it
  proof (cases rule: run_iter_cases)
    case (delivers now sm st1 st2 q)
    have inv1: "store_inv st1" using Suc.prems(2) delivers(2) by (simp add: drainable_def)
    from claim_Some(1,3) [OF inv1 delivers(4)] obtain r where
      r: "rows (conn st2) (sm_id sm) = Some r" "sm = row_to_stored r" "conn st2 = conn st"
      using delivers(2) by auto
    have "sql_faults st2 = []"
    proof -
      have "sql_faults st1 = []"
        using unix_now_no_fault [OF delivers(7)] Suc.prems(1) by simp
      then show ?thesis using claim_no_fault [of st1 now] delivers(4) by auto
    qed
    from delivery_left [OF this _ r(1,2), of w now q i] Suc.prems(2) r(3) delivers(5,6) show ?thesis
      by (auto simp: recording_def split: prod.splits if_splits)
  qed auto
  with Suc.IH [of st' snk'] next_ok it show ?case by (simp add: le_trans)
qed

subsection \<open>Properties\<close>

definition ex_worker :: delivery_worker where
  "ex_worker = \<lparr>max_retries = 2, retry_backoff = 60\<rparr>"

definition down :: "message \<Rightarrow> string \<Rightarrow> unit \<Rightarrow> unit result \<times> unit" where
  "down m k s = (Inl (Matrix ''down''), s)"

abbreviation ex_stored :: stored_message where
  "ex_stored \<equiv> \<lparr>sm_id = 1, sm_message = ex_message, sm_attempts = 0\<rparr>"

lemma ex_rows [simp]: "rows (conn ex_store1) 1 = Some ex_row" "ob_attempts ex_row = 0" "next_attempt_at ex_row = 0"
  "ob_id ex_row = 1"
  by (simp_all add: rows_def ex_store1_def ex_store_def empty_database_def) (simp_all add: ex_row_def)

lemma ex_drainable [simp]: "drainable ex_worker (conn ex_store1)"
  by (simp add: drainable_def ex_worker_def)
    (simp add: ex_store1_def ex_store_def empty_database_def i64_max_def)

text \<open>
  C16. The backoff is exactly \<open>base * 2 ^ (attempt - 1)\<close> seconds, cut off at the cap, for every
  64-bit base and cap and every 32-bit attempt count; the saturation of the intermediate
  products never shows, because the cap lies below it. Attempt 0 waits 0 seconds.
\<close>

theorem backoff_exact:
  "unat (backoff_seconds base attempt cap) =
     (if attempt = 0 then 0 else min (unat base * 2 ^ (unat attempt - 1)) (unat cap))"
  using unat_backoff [of attempt base cap] by (simp add: backoff_seconds_def)

text \<open>
  C20. What a delivery does to the outbox when the storage works: on success the row is
  removed; on failure it is kept with one attempt more and due \<open>backoff_seconds\<close> later, unless
  the attempts are used up, in which case it becomes the last dead letter, carrying the text
  of the error. No other row is touched.
\<close>

theorem deliver_one_outcome:
  assumes "sql_faults st = []" and "drainable w (conn st)" and "rows (conn st) i = Some r"
    and "deliver (sm_message (row_to_stored r)) (idempotency_key i) snk = (q, snk')"
    and "deliver_one deliver w (row_to_stored r) now st snk = (st', snk2)"
  shows "snk2 = snk' \<and>
    (let n = word_of_int (ob_attempts r) + 1 in
     case q of
       Inr u \<Rightarrow> rows (conn st') = (rows (conn st))(i := None) \<and> dead_letters (conn st') = dead_letters (conn st)
     | Inl err \<Rightarrow>
         if max_retries w < n then
           rows (conn st') = (rows (conn st))(i := None) \<and>
           (\<exists>failed. dead_letters (conn st') = dead_letters (conn st) @
              [dead_row_of (dead_seq (conn st) + 1) failed (error_to_string err) r])
         else
           rows (conn st') = (rows (conn st))(i \<mapsto> rescheduled n
             (wrap_i64 (now + uint (backoff_seconds (retry_backoff w) n MAX_BACKOFF_SECONDS))) r) \<and>
           dead_letters (conn st') = dead_letters (conn st))"
proof -
  let ?sm = "row_to_stored r"
  have i: "sm_id ?sm = i" and n: "sm_attempts ?sm = word_of_int (ob_attempts r)"
    using rows_Some [OF assms(3)] by (simp_all add: row_to_stored_def)
  have st': "st' = store_step (delivery_call w ?sm now q) st" and snk: "snk2 = snk'"
    using assms(4,5) i by (simp_all add: deliver_one_eq)
  have r: "rows (conn st) (sm_id ?sm) = Some r" using assms(3) i by simp
  note rows' = delivery_rows [OF assms(1,2) r refl, of now q]
  have dl: "dead_letters (conn st') = dead_letters (conn st) @
      (case q of Inr u \<Rightarrow> [] | Inl err \<Rightarrow> if max_retries w < sm_attempts ?sm + 1
         then [dead_row_of (dead_seq (conn st) + 1) (failed_at (last (dead_letters (conn st'))))
                 (error_to_string err) r] else [])"
  proof (cases rule: delivery_call_cases [of q w ?sm now])
    case (ack u)
    then show ?thesis using st' assms(1) by (simp add: mark_delivered_no_fault)
  next
    case (bury err)
    have "0 < length (outbox (conn st))" using rows_Some [OF assms(3)] by (cases "outbox (conn st)") auto
    then have "dead_seq (conn st) < i64_max" using assms(2) unfolding drainable_def by linarith
    from dead_letter_no_fault [OF assms(1) this, of i "error_to_string err"] obtain st1
      where d: "dead_letter i (error_to_string err) st = (Inr (), st1)" by blast
    with bury st' i have "st' = st1" by simp
    with dead_letter_ok(6) [OF d] assms(3) bury show ?thesis by (auto simp: dead_row_of_def)
  next
    case (retry err at)
    then show ?thesis using st' assms(1) by (simp add: reschedule_no_fault)
  qed
  show ?thesis
    using rows' dl snk i n unfolding st' [symmetric] by (auto simp: Let_def split: sum.split)
qed

theorem deliver_one_outcome_witness:
  "rows (conn (fst (deliver_one down ex_worker ex_stored 7 ex_store1 ()))) 1 =
     Some (rescheduled 1 67 ex_row)"
proof -
  obtain st' snk where d: "deliver_one down ex_worker (row_to_stored ex_row) 7 ex_store1 () = (st', snk)" by (meson surj_pair)
  have b: "backoff_seconds 60 1 MAX_BACKOFF_SECONDS = 60"
    by (simp add: backoff_seconds_def MAX_BACKOFF_SECONDS_def saturating_mul_def saturating_pow_def min_def)
  have e: "down (sm_message (row_to_stored ex_row)) (idempotency_key 1) () = (Inl (Matrix ''down''), ())"
    by (simp add: down_def)
  show ?thesis
    using deliver_one_outcome [OF ex_inv1(2) ex_drainable ex_rows(1) e d] d b
    by (simp add: ex_worker_def Let_def wrap_i64_def)
qed

text \<open>
  A failing message does not block the rest of the queue: after a failed delivery at time
  \<open>now\<close> (with a positive backoff, which the configuration demands, and a clock that does not
  overflow) the message is not what a claim at the same time returns.
\<close>

lemma failing_message_does_not_block:
  assumes "sql_faults st = []" and "drainable w (conn st)" and "rows (conn st) i = Some r"
    and "deliver (sm_message (row_to_stored r)) (idempotency_key i) snk = (Inl err, snk')"
    and "retry_backoff w \<noteq> 0" and "0 \<le> now" and "now \<le> i64_max - 900"
    and "deliver_one deliver w (row_to_stored r) now st snk = (st', snk2)"
    and "claim_next_ready now st' = (Inr (Some sm'), st'')"
  shows "sm_id sm' \<noteq> i"
proof
  assume i': "sm_id sm' = i"
  let ?sm = "row_to_stored r" and ?n = "sm_attempts (row_to_stored r) + 1"
  have i: "sm_id ?sm = i" using rows_Some [OF assms(3)] by (simp add: row_to_stored_def)
  have st': "st' = store_step (delivery_call w ?sm now (Inl err)) st"
    using assms(4,8) i by (simp add: deliver_one_eq)
  have r: "rows (conn st) (sm_id ?sm) = Some r" using assms(3) i by simp
  have "store_inv st" using assms(2) by (simp add: drainable_def)
  then have inv: "store_inv st'" unfolding st' by (rule oq.step_inv [OF _ good_delivery_call])
  from claim_Some(3) [OF inv assms(9)] i' obtain r' where
    r': "rows (conn st') i = Some r'" "next_attempt_at r' \<le> now" by auto
  have a: "0 \<le> ob_attempts r" "ob_attempts r < 2 ^ 32 - 1"
    using assms(2) rows_Some [OF assms(3)] by (auto simp: drainable_def db_inv_def)
  have "unat ?n = Suc (nat (ob_attempts r))"
    unfolding row_attempts [OF refl] by (rule next_attempts [OF a])
  then have n: "?n \<noteq> 0" by (metis unat_0 nat.distinct(1))
  let ?b = "uint (backoff_seconds (retry_backoff w) ?n MAX_BACKOFF_SECONDS)"
  have b: "0 < ?b" "?b \<le> 900" using backoff_pos [OF assms(5) n] uint_backoff_le by simp_all
  then have "is_i64 (now + ?b)" using assms(6,7) by (simp add: is_i64_def i64_max_def)
  then have "wrap_i64 (now + ?b) = now + ?b" by (rule wrap_i64_id)
  with r' b delivery_rows [OF assms(1,2) r refl, of now "Inl err"] i show False
    unfolding st' by (auto simp: rescheduled_def split: if_splits)
qed

definition ex_store2 :: message_store where
  "ex_store2 = ex_store1\<lparr>conn := (conn ex_store1)\<lparr>outbox := [ex_row, ex_row\<lparr>ob_id := 2\<rparr>], outbox_seq := 2\<rparr>\<rparr>"

lemma failing_message_does_not_block_witness:
  "\<exists>st' sm'. deliver_one down ex_worker ex_stored 7 ex_store2 () = (st', ()) \<and>
     fst (claim_next_ready 7 st') = Inr (Some sm') \<and> sm_id sm' \<noteq> 1"
proof -
  have nf: "sql_faults ex_store2 = []" by (simp add: ex_store2_def)
  have dr: "drainable ex_worker (conn ex_store2)"
    by (simp add: drainable_def db_inv_def ex_worker_def ex_store2_def)
      (simp add: ex_store1_def ex_store_def empty_database_def i64_max_def is_i64_def)
  have r: "rows (conn ex_store2) 1 = Some ex_row" by (simp add: rows_def ex_store2_def)
  have e: "down (sm_message (row_to_stored ex_row)) (idempotency_key 1) () = (Inl (Matrix ''down''), ())"
    by (simp add: down_def)
  have d: "deliver_one down ex_worker (row_to_stored ex_row) 7 ex_store2 () =
      (store_step (delivery_call ex_worker ex_stored 7 (Inl (Matrix ''down''))) ex_store2, ())"
    by (simp add: deliver_one_eq down_def)
  let ?st = "store_step (delivery_call ex_worker ex_stored 7 (Inl (Matrix ''down''))) ex_store2"
  have b: "backoff_seconds 60 1 MAX_BACKOFF_SECONDS = 60"
    by (simp add: backoff_seconds_def MAX_BACKOFF_SECONDS_def saturating_mul_def saturating_pow_def min_def)
  have "?st = ex_store2\<lparr>conn := (conn ex_store2)\<lparr>outbox := [rescheduled 1 67 ex_row, ex_row\<lparr>ob_id := 2\<rparr>]\<rparr>\<rparr>"
    by (simp add: delivery_call_def ex_worker_def b wrap_i64_def reschedule_no_fault nf)
      (simp add: ex_store2_def)
  then have c: "claim_next_ready 7 ?st = (Inr (Some (row_to_stored (ex_row\<lparr>ob_id := 2\<rparr>))), ?st)"
    by (simp add: claim_next_ready_def with_conn_no_fault exec_sql_no_fault nf sql_select_ready_def
        rescheduled_def)
  have "sm_id (row_to_stored (ex_row\<lparr>ob_id := 2\<rparr>)) \<noteq> 1"
    by (rule failing_message_does_not_block [OF nf dr r e _ _ _ d c]) (simp_all add: ex_worker_def i64_max_def)
  with c d show ?thesis by auto
qed

text \<open>
  C17. A message is attempted at most \<open>max_retries + 1\<close> times: however many turns the loop
  makes and whatever the sink answers, when the storage works the sink is called for a queued
  message at most once per attempt it has left.
\<close>

theorem bounded_attempts:
  assumes "sql_faults st = []" and "drainable w (conn st)" and "rows (conn st) i = Some r"
  shows "count_list (snd (snd (turns n (recording deliver) w st (snk, [])))) (idempotency_key i)
    \<le> unat (max_retries w) - nat (ob_attempts r) + 1"
  using turns_bounded [OF assms(1,2), of n deliver "(snk, [])" i] assms(3)
  by (simp add: left_for_def attempts_left_def)

theorem bounded_attempts_witness:
  "count_list (snd (snd (turns 9 (recording down) ex_worker ex_store1 ((), [])))) (idempotency_key 1) \<le> 3"
  using bounded_attempts [OF ex_inv1(2) ex_drainable ex_rows(1), of 9 down "()"] by (simp add: ex_worker_def)

text \<open>
  C19. Graceful drain ends, and not before its work is done: once the shutdown flag is set and
  the storage works, the loop of \<open>run\<close> returns after at most as many turns as there are delivery
  attempts left in the outbox (plus one), whatever the sink answers and whatever the clock
  reads. If the readings of the clock during the drain lie between \<open>lo\<close> and \<open>hi\<close>, no row that
  was due at \<open>lo\<close> is left when it returns (each was delivered, became a dead letter or has a
  later retry time), and no row with a retry time after \<open>hi\<close> was touched.
\<close>

theorem drain_terminates:
  assumes "sql_faults st = []" and "drainable w (conn st)"
  shows "\<exists>st' snk'. drain (work_left w (conn st) + 1) deliver w st snk = Some (st', snk') \<and>
    (\<forall>lo hi. clock_within lo hi (2 * (work_left w (conn st) + 1)) st \<longrightarrow>
       (\<forall>r\<in>set (outbox (conn st')). lo < next_attempt_at r) \<and>
       (\<forall>r\<in>set (outbox (conn st)). hi < next_attempt_at r \<longrightarrow> r \<in> set (outbox (conn st'))))"
  using drain_ends [OF assms, of "work_left w (conn st) + 1" deliver snk] by simp

definition ex_drained :: message_store where
  "ex_drained = ex_store1\<lparr>
     conn := (conn ex_store1)\<lparr>outbox := [ex_row, ex_row\<lparr>ob_id := 2, next_attempt_at := 500\<rparr>], outbox_seq := 2\<rparr>,
     clock := replicate 14 (Some 100)\<rparr>"

text \<open>
  The example has two messages, one due and one that is due at 500, a clock that reads 100
  and a sink that is down: the second row is as it was, and whatever else is left waits.
\<close>

theorem drain_terminates_witness:
  "\<exists>st' snk'. drain 7 down ex_worker ex_drained () = Some (st', snk') \<and>
     ex_row\<lparr>ob_id := 2, next_attempt_at := 500\<rparr> \<in> set (outbox (conn st')) \<and>
     (\<forall>r\<in>set (outbox (conn st')). 100 < next_attempt_at r)"
proof -
  have 1: "sql_faults ex_drained = []" by (simp add: ex_drained_def)
  have o: "outbox (conn ex_drained) = [ex_row, ex_row\<lparr>ob_id := 2, next_attempt_at := 500\<rparr>]"
    by (simp add: ex_drained_def)
  have 2: "drainable ex_worker (conn ex_drained)"
    by (simp add: drainable_def db_inv_def ex_worker_def ex_drained_def)
      (simp add: ex_store1_def ex_store_def empty_database_def i64_max_def is_i64_def)
  have w: "work_left ex_worker (conn ex_drained) = 6"
    by (simp add: work_left_def attempts_left_def o ex_worker_def)
  have n: "work_left ex_worker (conn ex_drained) + 1 = 7" "2 * (7 :: nat) = 14" by (simp_all add: w)
  have "clock_within 100 100 14 ex_drained"
    by (simp add: ex_drained_def numeral_eq_Suc unix_now_def wrap_i64_def)
  moreover have "ex_row\<lparr>ob_id := 2, next_attempt_at := 500\<rparr> \<in> set (outbox (conn ex_drained))" by (simp add: o)
  moreover have "(100 :: i64) < next_attempt_at (ex_row\<lparr>ob_id := 2, next_attempt_at := 500\<rparr>)" by simp
  ultimately show ?thesis
    using drain_terminates [OF 1 2, of down "()", unfolded n] by (metis old.unit.exhaust)
qed

text \<open>
  Idempotency keys identify messages for the lifetime of the database: two messages
  accepted at different times never get the same key, whatever happened to the queue in
  between (deliveries, removals, failures), because row ids are never reused.
\<close>

lemma keys_never_shared:
  assumes "store_inv st" and "wf_message m" and "enqueue m st = (Inr i, st1)"
    and "\<forall>c\<in>set cs. good_call wf_message c"
    and "wf_message m'" and "enqueue m' (fold store_step cs st1) = (Inr j, st2)"
  shows "idempotency_key j \<noteq> idempotency_key i"
  using oq.ids_never_reused [OF assms] by simp

lemma keys_never_shared_witness:
  "\<exists>j st2. enqueue ex_message (fold store_step [Ack_call 1] ex_store1) = (Inr j, st2) \<and>
     idempotency_key j \<noteq> idempotency_key 1"
proof -
  have e: "\<exists>st2. enqueue ex_message (fold store_step [Ack_call 1] ex_store1) = (Inr 2, st2)"
    by (simp add: mark_delivered_no_fault) (simp add: store_eval ex_store1_def ex_store_def empty_database_def i64_max_def)
  then obtain st2 where "enqueue ex_message (fold store_step [Ack_call 1] ex_store1) = (Inr 2, st2)" ..
  moreover have "idempotency_key 2 \<noteq> idempotency_key 1"
    by (rule keys_never_shared [OF ex_inv(1) ex_wf ex_enqueue _ ex_wf calculation]) (simp add: good_call_def)
  ultimately show ?thesis by blast
qed

end
