(* ===== verification/Delivery.thy ===== *)
theory Delivery
  imports Worker
begin

section \<open>The delivery worker when the storage works and when it does not\<close>

text \<open>
  Two consequences of the worker's model: with a working storage and a sink that takes every
  message, a draining worker delivers everything that is due; and with a storage that can be
  read and not written, a message is sent again without a pause.
\<close>

subsection \<open>Draining into a sink that is up\<close>

definition sink_up :: "(message \<Rightarrow> string \<Rightarrow> 's \<Rightarrow> unit result \<times> 's) \<Rightarrow> bool" where
  "sink_up deliver \<longleftrightarrow> (\<forall>m k s. \<exists>s'. deliver m k s = (Inr (), s'))"

lemma recording_up:
  "sink_up deliver \<Longrightarrow> \<exists>s'. recording deliver m k (s, ks) = (Inr (), (s', ks @ [k]))"
  by (auto simp: sink_up_def recording_def split: prod.split)
    (metis prod.inject)

text \<open>One turn with a sink that is up: nothing is due, or one row goes and its key is sent.\<close>

lemma turn_up:
  assumes "sql_faults st = []" and "store_inv st" and "sink_up deliver"
  obtains
    (idle) st' where "run_iter (recording deliver) w True st (snk, ks) = (Stopped, st', (snk, ks))"
      "conn st' = conn st" "\<forall>r\<in>set (outbox (conn st)). fst (unix_now st) < next_attempt_at r"
  | (sent) r st' snk' where
      "run_iter (recording deliver) w True st (snk, ks) = (Claiming, st', (snk', ks @ [idempotency_key (ob_id r)]))"
      "r \<in> set (outbox (conn st))" "sql_faults st' = []" "store_inv st'"
      "next_attempt_at r \<le> fst (unix_now st)" "clock st' = clock (snd (unix_now st))"
      "outbox (conn st') = filter (\<lambda>r'. ob_id r' \<noteq> ob_id r) (outbox (conn st))"
      "dead_letters (conn st') = dead_letters (conn st)"
proof -
  obtain now st1 where now: "unix_now st = (now, st1)" by fastforce
  then have 1: "sql_faults st1 = []" "conn st1 = conn st" "store_inv st1"
    using unix_now_no_fault [OF now] unix_now_frame [OF now] assms(1,2) by simp_all
  from claim_no_fault [OF 1(1)] obtain a where a: "claim_next_ready now st1 = (Inr a, st1)" by blast
  show thesis
  proof (cases a)
    case None
    with a have "\<forall>r\<in>set (outbox (conn st)). now < next_attempt_at r"
      using claim_None(3) [of now st1 st1] 1(2) by auto
    with now a None 1(2) show thesis by (intro idle [of st1]) (auto simp: run_iter_def)
  next
    case (Some sm)
    with a have c: "claim_next_ready now st1 = (Inr (Some sm), st1)" by simp
    from claim_Some(3) [OF 1(3) c] obtain r where
      r: "rows (conn st1) (sm_id sm) = Some r" "sm = row_to_stored r" "next_attempt_at r \<le> now" by blast
    have id: "ob_id r = sm_id sm" "r \<in> set (outbox (conn st))" using rows_Some [OF r(1)] 1(2) by simp_all
    from recording_up [OF assms(3)] obtain snk' where
      d: "recording deliver (sm_message sm) (idempotency_key (sm_id sm)) (snk, ks) =
        (Inr (), (snk', ks @ [idempotency_key (sm_id sm)]))" by blast
    let ?st = "snd (mark_delivered (sm_id sm) st1)"
    have "store_inv ?st" using oq.ack_inv [OF 1(3)] by (metis surjective_pairing)
    moreover have "run_iter (recording deliver) w True st (snk, ks) =
        (Claiming, ?st, (snk', ks @ [idempotency_key (ob_id r)]))"
      using now c d id by (simp add: run_iter_def deliver_one_def)
    ultimately show thesis
      using id 1 r(3) now by (intro sent [of ?st snk' r]) (simp_all add: mark_delivered_no_fault)
  qed
qed

lemma drain_up:
  assumes "sql_faults st = []" and "store_inv st" and "sink_up deliver" and "length (outbox (conn st)) < fuel"
    and "clock_within lo hi fuel st"
  shows "\<exists>st' snk' sent. drain fuel (recording deliver) w st (snk, ks) = Some (st', (snk', ks @ sent)) \<and>
    distinct sent \<and>
    set sent \<subseteq> (\<lambda>r. idempotency_key (ob_id r)) ` {r \<in> set (outbox (conn st)). next_attempt_at r \<le> hi} \<and>
    set (outbox (conn st')) = {r \<in> set (outbox (conn st)). idempotency_key (ob_id r) \<notin> set sent} \<and>
    (\<forall>r\<in>set (outbox (conn st')). lo < next_attempt_at r) \<and> dead_letters (conn st') = dead_letters (conn st)"
  using assms
proof (induction fuel arbitrary: st snk ks)
  case 0
  then show ?case by simp
next
  case (Suc fuel)
  have now: "lo \<le> fst (unix_now st)" "fst (unix_now st) \<le> hi" "clock_within lo hi fuel (snd (unix_now st))"
    using Suc.prems(5) by (simp_all split: prod.splits)
  from Suc.prems(1-3) show ?case
  proof (cases rule: turn_up [of st deliver w snk ks])
    case (idle st')
    with now(1) show ?thesis by (intro exI [of _ st'] exI [of _ snk] exI [of _ "[]"]) fastforce
  next
    case (sent r st' snk')
    have "length (outbox (conn st')) < length (outbox (conn st))"
      unfolding sent(7) by (rule length_filter_less [OF sent(2)]) simp
    then have l: "length (outbox (conn st')) < fuel" using Suc.prems(4) by linarith
    have c: "clock_within lo hi fuel st'" using now(3) clock_within_cong [OF sent(6)] by blast
    from Suc.IH [OF sent(3,4) Suc.prems(3) l c, of snk' "ks @ [idempotency_key (ob_id r)]"]
    obtain st2 snk2 sent2 where d:
      "drain fuel (recording deliver) w st' (snk', ks @ [idempotency_key (ob_id r)]) =
        Some (st2, (snk2, (ks @ [idempotency_key (ob_id r)]) @ sent2))" and k: "distinct sent2"
      "set sent2 \<subseteq> (\<lambda>r. idempotency_key (ob_id r)) ` {r \<in> set (outbox (conn st')). next_attempt_at r \<le> hi}"
      "set (outbox (conn st2)) = {r \<in> set (outbox (conn st')). idempotency_key (ob_id r) \<notin> set sent2}"
      "\<forall>r\<in>set (outbox (conn st2)). lo < next_attempt_at r" "dead_letters (conn st2) = dead_letters (conn st')"
      by blast
    have fresh: "idempotency_key (ob_id r) \<notin> set sent2" using k(2) unfolding sent(7) by auto
    have "drain (Suc fuel) (recording deliver) w st (snk, ks) =
        Some (st2, (snk2, ks @ (idempotency_key (ob_id r) # sent2)))" using sent(1) d by simp
    moreover have "distinct (idempotency_key (ob_id r) # sent2)" using fresh k(1) by simp
    moreover have "set (idempotency_key (ob_id r) # sent2) \<subseteq>
        (\<lambda>r. idempotency_key (ob_id r)) ` {r \<in> set (outbox (conn st)). next_attempt_at r \<le> hi}"
    proof -
      have "{r \<in> set (outbox (conn st')). next_attempt_at r \<le> hi} \<subseteq>
          {r \<in> set (outbox (conn st)). next_attempt_at r \<le> hi}" unfolding sent(7) by auto
      with k(2) have "set sent2 \<subseteq>
          (\<lambda>r. idempotency_key (ob_id r)) ` {r \<in> set (outbox (conn st)). next_attempt_at r \<le> hi}" by blast
      moreover have "next_attempt_at r \<le> hi" using sent(5) now(2) by (rule order_trans)
      ultimately show ?thesis using sent(2) by auto
    qed
    moreover have "set (outbox (conn st2)) =
        {r' \<in> set (outbox (conn st)). idempotency_key (ob_id r') \<notin> set (idempotency_key (ob_id r) # sent2)}"
      unfolding k(3) sent(7) by auto
    moreover note k(4) k(5) [unfolded sent(8)]
    ultimately show ?thesis by blast
  qed
qed

subsection \<open>Properties\<close>

text \<open>
  C18. Everything due is delivered when nothing is broken: with a working storage and a sink that
  takes every message, a draining worker stops after at most one turn per queued message and
  one more. With readings of the clock between \<open>lo\<close> and \<open>hi\<close> during these turns, every row
  that was due at \<open>lo\<close> is gone, the rows that are gone are exactly those whose keys were sent,
  each key was sent once, nothing was sent before its time (no key of a row that waits past
  \<open>hi\<close>), and no message became a dead letter.
\<close>

theorem due_mail_is_delivered:
  assumes "sql_faults st = []" and "store_inv st" and "\<forall>m k s. \<exists>s'. deliver m k s = (Inr (), s')"
    and "clock_within lo hi (length (outbox (conn st)) + 1) st"
  shows "\<exists>st' snk' sent.
    drain (length (outbox (conn st)) + 1) (recording deliver) w st (snk, []) = Some (st', (snk', sent)) \<and>
    distinct sent \<and>
    set sent \<subseteq> (\<lambda>r. idempotency_key (ob_id r)) ` {r \<in> set (outbox (conn st)). next_attempt_at r \<le> hi} \<and>
    set (outbox (conn st')) = {r \<in> set (outbox (conn st)). idempotency_key (ob_id r) \<notin> set sent} \<and>
    (\<forall>r\<in>set (outbox (conn st')). lo < next_attempt_at r) \<and> dead_letters (conn st') = dead_letters (conn st)"
  using drain_up [OF assms(1,2) _ _ assms(4), of deliver w snk "[]"] assms(3)
  by (simp add: sink_up_def)

definition always_up :: "message \<Rightarrow> string \<Rightarrow> unit \<Rightarrow> unit result \<times> unit" where
  "always_up m k s = (Inr (), s)"

lemma distinct_singleton_list: "distinct xs \<Longrightarrow> set xs = {x} \<Longrightarrow> xs = [x]"
  by (cases xs; cases "tl xs") auto

text \<open>In the example one of the two messages is due: it is delivered, and the other one waits.\<close>

theorem due_mail_is_delivered_witness:
  "\<exists>st' snk'. drain 3 (recording always_up) ex_worker ex_drained ((), []) =
       Some (st', (snk', [idempotency_key 1])) \<and>
     set (outbox (conn st')) = {ex_row\<lparr>ob_id := 2, next_attempt_at := 500\<rparr>}"
proof -
  let ?r2 = "ex_row\<lparr>ob_id := 2, next_attempt_at := 500\<rparr>"
  have 1: "sql_faults ex_drained = []" by (simp add: ex_drained_def)
  have o: "outbox (conn ex_drained) = [ex_row, ?r2]" by (simp add: ex_drained_def)
  have 2: "store_inv ex_drained"
    by (simp add: db_inv_def ex_drained_def)
      (simp add: ex_store1_def ex_store_def empty_database_def i64_max_def is_i64_def)
  have n: "length (outbox (conn ex_drained)) + 1 = 3" by (simp add: o)
  have 3: "clock_within 100 100 3 ex_drained"
    by (simp add: ex_drained_def numeral_eq_Suc unix_now_def wrap_i64_def)
  have up: "\<forall>m k s. \<exists>s'. always_up m k s = (Inr (), s')" by (simp add: always_up_def)
  from due_mail_is_delivered [OF 1 2 up, unfolded n, OF 3, of ex_worker "()"] obtain st' snk' sent where
    d: "drain 3 (recording always_up) ex_worker ex_drained ((), []) = Some (st', (snk', sent))"
    "distinct sent" and s: "set sent \<subseteq> (\<lambda>r. idempotency_key (ob_id r)) ` {r \<in> {ex_row, ?r2}. next_attempt_at r \<le> 100}"
    and l: "set (outbox (conn st')) = {r \<in> {ex_row, ?r2}. idempotency_key (ob_id r) \<notin> set sent}"
    "\<forall>r\<in>set (outbox (conn st')). 100 < next_attempt_at r" unfolding o by auto
  have "ex_row \<notin> set (outbox (conn st'))" using l(2) by auto
  then have "idempotency_key 1 \<in> set sent" using l(1) by simp
  moreover have "set sent \<subseteq> {idempotency_key 1}" using s by auto
  ultimately have e: "set sent = {idempotency_key 1}" by blast
  from d(2) this have "sent = [idempotency_key 1]" by (rule distinct_singleton_list)
  with d(1) have "drain 3 (recording always_up) ex_worker ex_drained ((), []) = Some (st', (snk', [idempotency_key 1]))"
    by (simp only:)
  moreover have "set (outbox (conn st')) = {?r2}" unfolding l(1) e by auto
  ultimately show ?thesis by blast
qed

text \<open>
  The SQL statements of the write that follows an attempt: one delete, one update, or the
  four of the dead-letter transaction (begin, insert, delete, commit). The failures ahead say
  which of the blocking job (none before it) and these statements fails.
\<close>

definition write_statements :: "delivery_worker \<Rightarrow> stored_message \<Rightarrow> unit result \<Rightarrow> nat" where
  "write_statements w sm r =
     (case r of Inr _ \<Rightarrow> 1 | Inl _ \<Rightarrow> if max_retries w < sm_attempts sm + 1 then 4 else 1)"

definition fails_at :: "nat \<Rightarrow> message_store \<Rightarrow> bool" where
  "fails_at k st \<longleftrightarrow> (\<exists>e fs. sql_faults st = replicate k None @ Some e # fs)"

lemma fails_at_clock: "unix_now st = (t, st') \<Longrightarrow> fails_at k st' = fails_at k st"
  using unix_now_no_fault by (simp add: fails_at_def)

lemma statement_fails:
  assumes "fails_at k st" and "k \<le> 1"
  shows "conn (snd (with_conn (exec_sql stmt) st)) = conn st"
proof -
  from assms(2) consider "k = 0" | "k = 1" by linarith
  then show ?thesis
    using assms(1) by cases (auto simp: fails_at_def with_conn_def exec_sql_def next_fault_def)
qed

lemma transaction_fails:
  assumes "fails_at k st" and "k \<le> 4"
  shows "conn (snd (with_conn (dead_letter_tx i t x) st)) = conn st"
proof -
  from assms(2) consider "k = 0" | "k = 1" | "k = 2" | "k = 3" | "k = 4" by linarith
  then show ?thesis
    using assms(1)
    by cases (auto simp: fails_at_def with_conn_def dead_letter_tx_def exec_sql_def next_fault_def
        numeral_eq_Suc split: sum.split prod.split)
qed

lemma write_fails:
  assumes "fails_at k st" and "k \<le> write_statements w sm r"
  shows "conn (store_step (delivery_call w sm now r) st) = conn st"
proof (cases rule: delivery_call_cases [of r w sm now])
  case (ack u)
  with assms statement_fails [of k st] show ?thesis
    by (simp add: write_statements_def mark_delivered_def remove_def)
next
  case (bury err)
  obtain t st0 where t: "unix_now st = (t, st0)" by fastforce
  from bury assms(2) have "k \<le> 4" by (simp add: write_statements_def)
  with bury t assms(1) fails_at_clock [OF t] unix_now_frame [OF t] transaction_fails [of k st0] show ?thesis
    by (simp add: dead_letter_def)
next
  case (retry err at)
  with assms statement_fails [of k st] show ?thesis by (simp add: write_statements_def reschedule_def)
qed

text \<open>
  C30. A storage that can be read and not written is not waited for: when the write after a
  delivery attempt fails (the removal, the dead letter or the new retry time), whether the
  blocking job fails or any of its SQL statements, the worker goes on without the pause it
  makes after a failed read, the tables are unchanged, and the same message is what the next
  claim at the same time returns, whatever the sink answered and however often it was tried.
\<close>

theorem failed_write_retried_at_once:
  assumes "store_inv st" and "unix_now st = (now, st1)"
    and "claim_next_ready now st1 = (Inr (Some sm), st2)"
    and "deliver (sm_message sm) (idempotency_key (sm_id sm)) snk = (r, snk')"
    and "fails_at k st2" and "k \<le> write_statements w sm r"
  shows "\<exists>st'. run_iter deliver w shutdown st snk = (Claiming, st', snk') \<and> conn st' = conn st \<and>
    (\<forall>st3. conn st3 = conn st \<and> sql_faults st3 = [] \<longrightarrow> claim_next_ready now st3 = (Inr (Some sm), st3))"
proof -
  have c1: "conn st1 = conn st" using unix_now_frame [OF assms(2)] by simp
  have inv1: "store_inv st1" using assms(1) c1 by simp
  have c2: "conn st2 = conn st1" by (rule claim_Some(1) [OF inv1 assms(3)])
  have "run_iter deliver w shutdown st snk = (Claiming, store_step (delivery_call w sm now r) st2, snk')"
    using assms(2-4) by (simp add: run_iter_def deliver_one_eq)
  moreover have "sql_select_ready now (conn st1) = Inr (Some sm, conn st2)"
    using assms(3) by (auto elim: claim_next_ready_cases)
  ultimately show ?thesis
    using c1 c2 write_fails [OF assms(5,6), of now]
    by (auto simp: claim_next_ready_def with_conn_no_fault exec_sql_no_fault)
qed

text \<open>The claim succeeds (its job and its query), and the delete that follows the delivery does not.\<close>

definition ex_read_only :: message_store where
  "ex_read_only = ex_store1\<lparr>clock := [Some 7],
     sql_faults := [None, None, None, Some ''attempt to write a readonly database'']\<rparr>"

theorem failed_write_retried_at_once_witness:
  "\<exists>st'. run_iter always_up ex_worker False ex_read_only () = (Claiming, st', ()) \<and> conn st' = conn ex_read_only"
proof -
  let ?st1 = "ex_read_only\<lparr>clock := []\<rparr>" and ?sm = "\<lparr>sm_id = 1, sm_message = ex_message, sm_attempts = 0\<rparr>"
  let ?st2 = "?st1\<lparr>sql_faults := [None, Some ''attempt to write a readonly database'']\<rparr>"
  have 1: "store_inv ex_read_only" using ex_inv1(1) by (simp add: ex_read_only_def)
  have 2: "unix_now ex_read_only = (7, ?st1)" by (simp add: unix_now_def ex_read_only_def wrap_i64_def)
  have 3: "claim_next_ready 7 ?st1 = (Inr (Some ?sm), ?st2)"
    by (simp add: claim_next_ready_def with_conn_def exec_sql_def next_fault_def sql_select_ready_def
        ex_read_only_def ex_store1_def)
  have 4: "fails_at 1 ?st2" by (simp add: fails_at_def)
  have 5: "always_up (sm_message ?sm) (idempotency_key (sm_id ?sm)) () = (Inr (), ())" by (simp add: always_up_def)
  from failed_write_retried_at_once [where deliver = always_up and w = ex_worker and shutdown = False, OF 1 2 3 5 4]
  show ?thesis by (auto simp: write_statements_def)
qed

end
