(* ===== verification/Relay.thy ===== *)
theory Relay
  imports Worker
begin

section \<open>The relay as a specification\<close>

text \<open>
  What the program promises about a message, without queues, tasks, sockets or tables: a
  message is accepted under a fresh id, may be sent under the key made of its id any number of
  times, and leaves the relay when a send was acknowledged, or for the dead letters when the
  attempts it is allowed are used up. The detailed systems (\<open>worker_step\<close>, \<open>system_step\<close>) are
  shown to refine it, by the locale \<open>simulation\<close>.

  Lemmas: the invariant of the relay, which the detailed systems inherit.
\<close>

subsection \<open>The relay\<close>

text \<open>
  \<open>rl_pending\<close> maps ids to what is stored for them (message and attempts made), \<open>rl_sent\<close> is
  what the far side has acknowledged, \<open>rl_tried\<close> what was sent to it, \<open>rl_dead\<close> the dead
  letters, \<open>rl_issued\<close> the ids that were handed out, and \<open>rl_accepted\<close> the messages accepted in
  the history of the relay.
\<close>

record relay =
  rl_pending :: "i64 \<rightharpoonup> stored_message"
  rl_sent :: "(string \<times> message) set"
  rl_tried :: "(string \<times> message) set"
  rl_dead :: "message list"
  rl_issued :: "i64 set"
  rl_accepted :: "(i64 \<times> message) set"

definition relay_init :: "relay \<Rightarrow> bool" where
  "relay_init a \<longleftrightarrow>
     rl_sent a = {} \<and> rl_tried a = {} \<and> rl_accepted a = {} \<and>
     (\<forall>i sm. rl_pending a i = Some sm \<longrightarrow> sm_id sm = i \<and> i \<in> rl_issued a)"

inductive relay_step :: "(message \<Rightarrow> bool) \<Rightarrow> u32 \<Rightarrow> relay \<Rightarrow> relay \<Rightarrow> bool"
  for good :: "message \<Rightarrow> bool" and retries :: u32 where
  accept: "i \<notin> rl_issued a \<Longrightarrow> good m \<Longrightarrow>
    relay_step good retries a
      (a\<lparr>rl_pending := (rl_pending a)(i \<mapsto> \<lparr>sm_id = i, sm_message = m, sm_attempts = 0\<rparr>),
         rl_issued := insert i (rl_issued a), rl_accepted := insert (i, m) (rl_accepted a)\<rparr>)"
| attempt: "rl_pending a i = Some sm \<Longrightarrow>
    relay_step good retries a (a\<lparr>rl_tried := insert (idempotency_key i, sm_message sm) (rl_tried a)\<rparr>)"
| send: "rl_pending a i = Some sm \<Longrightarrow>
    relay_step good retries a
      (a\<lparr>rl_sent := insert (idempotency_key i, sm_message sm) (rl_sent a),
         rl_tried := insert (idempotency_key i, sm_message sm) (rl_tried a)\<rparr>)"
| release: "rl_pending a i = Some sm \<Longrightarrow> (idempotency_key i, sm_message sm) \<in> rl_sent a \<Longrightarrow>
    relay_step good retries a (a\<lparr>rl_pending := (rl_pending a)(i := None)\<rparr>)"
| retry: "rl_pending a i = Some sm \<Longrightarrow> \<not> retries < sm_attempts sm + 1 \<Longrightarrow>
    relay_step good retries a
      (a\<lparr>rl_pending := (rl_pending a)(i \<mapsto> sm\<lparr>sm_attempts := sm_attempts sm + 1\<rparr>)\<rparr>)"
| bury: "rl_pending a i = Some sm \<Longrightarrow> retries < sm_attempts sm + 1 \<Longrightarrow>
    relay_step good retries a
      (a\<lparr>rl_pending := (rl_pending a)(i := None), rl_dead := rl_dead a @ [sm_message sm]\<rparr>)"

inductive_cases relay_stepE: "relay_step good retries a b"

subsection \<open>Its invariant\<close>

text \<open>Where an accepted message is.\<close>

definition settled :: "relay \<Rightarrow> i64 \<Rightarrow> message \<Rightarrow> bool" where
  "settled a i m \<longleftrightarrow>
     (\<exists>sm. rl_pending a i = Some sm \<and> sm_message sm = m) \<or> (idempotency_key i, m) \<in> rl_sent a \<or> m \<in> set (rl_dead a)"

text \<open>What was sent under a key is one message only, the one that is or was stored under its id.\<close>

definition keyed :: "relay \<Rightarrow> bool" where
  "keyed a \<longleftrightarrow>
     (\<forall>k m. (k, m) \<in> rl_tried a \<longrightarrow>
        (\<exists>i. k = idempotency_key i \<and> i \<in> rl_issued a \<and>
           (rl_pending a i = None \<or> map_option sm_message (rl_pending a i) = Some m))) \<and>
     (\<forall>k m m'. (k, m) \<in> rl_tried a \<and> (k, m') \<in> rl_tried a \<longrightarrow> m' = m)"

definition relay_inv :: "(message \<Rightarrow> bool) \<Rightarrow> relay \<Rightarrow> bool" where
  "relay_inv good a \<longleftrightarrow>
     (\<forall>i sm. rl_pending a i = Some sm \<longrightarrow> sm_id sm = i \<and> i \<in> rl_issued a) \<and>
     (\<forall>i m. (i, m) \<in> rl_accepted a \<longrightarrow> i \<in> rl_issued a \<and> good m \<and> settled a i m) \<and>
     (\<forall>i m m'. (i, m) \<in> rl_accepted a \<and> (i, m') \<in> rl_accepted a \<longrightarrow> m' = m) \<and>
     rl_sent a \<subseteq> rl_tried a \<and> keyed a"

lemma settled_mono:
  assumes "settled a i m" and "rl_sent a \<subseteq> rl_sent b" and "set (rl_dead a) \<subseteq> set (rl_dead b)"
    and "\<And>sm. rl_pending a i = Some sm \<Longrightarrow> settled b i (sm_message sm)"
  shows "settled b i m"
  using assms by (auto simp: settled_def)

text \<open>Nothing sent, and no entry but kept or gone.\<close>

lemma keyed_frame:
  assumes "keyed a" and "rl_tried b = rl_tried a" and "rl_issued a \<subseteq> rl_issued b"
    and "\<And>i. i \<in> rl_issued a \<Longrightarrow>
      rl_pending b i = None \<or> map_option sm_message (rl_pending b i) = map_option sm_message (rl_pending a i)"
  shows "keyed b"
proof -
  have "\<exists>i. k = idempotency_key i \<and> i \<in> rl_issued b \<and>
      (rl_pending b i = None \<or> map_option sm_message (rl_pending b i) = Some m)"
    if "(k, m) \<in> rl_tried b" for k m
  proof -
    from that assms(2) have "(k, m) \<in> rl_tried a" by simp
    with assms(1) obtain i where i: "k = idempotency_key i" "i \<in> rl_issued a"
      "rl_pending a i = None \<or> map_option sm_message (rl_pending a i) = Some m"
      unfolding keyed_def by blast
    from assms(4) [OF i(2)] i assms(3) show ?thesis by (intro exI [of _ i]) auto
  qed
  with assms(1,2) show ?thesis unfolding keyed_def by simp
qed

lemma keyed_attempt:
  assumes "keyed a" and "rl_pending a i = Some sm" and "i \<in> rl_issued a"
  shows "keyed (a\<lparr>rl_sent := x, rl_tried := insert (idempotency_key i, sm_message sm) (rl_tried a)\<rparr>)"
    and "keyed (a\<lparr>rl_tried := insert (idempotency_key i, sm_message sm) (rl_tried a)\<rparr>)"
proof -
  have "m = sm_message sm" if "(idempotency_key i, m) \<in> rl_tried a" for m
    using assms(1,2) that unfolding keyed_def by fastforce
  with assms show "keyed (a\<lparr>rl_sent := x, rl_tried := insert (idempotency_key i, sm_message sm) (rl_tried a)\<rparr>)"
    "keyed (a\<lparr>rl_tried := insert (idempotency_key i, sm_message sm) (rl_tried a)\<rparr>)"
    unfolding keyed_def by auto
qed

lemma settled_step:
  assumes "relay_inv good a" and "relay_step good n a b" and "(j, x) \<in> rl_accepted a"
  shows "settled b j x"
proof -
  have a: "settled a j x" "j \<in> rl_issued a" "\<And>i sm. rl_pending a i = Some sm \<Longrightarrow> sm_id sm = i"
    using assms(1,3) unfolding relay_inv_def by blast+
  from assms(2) show ?thesis
    by cases (rule settled_mono [OF a(1)], use a in \<open>auto simp: settled_def\<close>)+
qed

lemma relay_inv_step:
  assumes "relay_inv good a" and "relay_step good n a b"
  shows "relay_inv good b"
proof -
  have inv: "\<And>i sm. rl_pending a i = Some sm \<Longrightarrow> sm_id sm = i \<and> i \<in> rl_issued a" "keyed a"
    "rl_sent a \<subseteq> rl_tried a" "\<And>i m. (i, m) \<in> rl_accepted a \<Longrightarrow> i \<in> rl_issued a \<and> good m \<and> settled a i m"
    "\<And>i m m'. (i, m) \<in> rl_accepted a \<and> (i, m') \<in> rl_accepted a \<Longrightarrow> m' = m"
    using assms(1) unfolding relay_inv_def by blast+
  note old = settled_step [OF assms]
  from assms(2) show ?thesis
  proof cases
    case (accept i m)
    have "keyed b" by (rule keyed_frame [OF inv(2)]) (use accept in auto)
    moreover have "m' = m" if "(i, m') \<in> rl_accepted a" for m' using inv(4) [OF that] accept(2) by simp
    ultimately show ?thesis using inv accept old unfolding relay_inv_def by (auto simp: settled_def)
  next
    case (attempt i sm)
    have "keyed b" unfolding attempt(1) by (rule keyed_attempt(2) [OF inv(2) attempt(2)]) (use inv(1) attempt(2) in blast)
    then show ?thesis using inv attempt(1) old unfolding relay_inv_def by auto
  next
    case (send i sm)
    have "keyed b" unfolding send(1) by (rule keyed_attempt(1) [OF inv(2) send(2)]) (use inv(1) send(2) in blast)
    then show ?thesis using inv send(1) old unfolding relay_inv_def by auto
  next
    case (release i sm)
    have "keyed b" by (rule keyed_frame [OF inv(2)]) (use release in auto)
    then show ?thesis using inv release(1) old unfolding relay_inv_def by simp
  next
    case (retry i sm)
    have "keyed b" by (rule keyed_frame [OF inv(2)]) (use retry in auto)
    then show ?thesis using inv retry(1,2) old unfolding relay_inv_def by simp
  next
    case (bury i sm)
    have "keyed b" by (rule keyed_frame [OF inv(2)]) (use bury in auto)
    then show ?thesis using inv bury(1) old unfolding relay_inv_def by simp
  qed
qed

interpretation relay: step_invariant relay_init "relay_step good n" "relay_inv good"
  for good :: "message \<Rightarrow> bool" and n :: u32
proof
  show "relay_init a \<Longrightarrow> relay_inv good a" for a
    by (simp add: relay_init_def relay_inv_def keyed_def)
qed (rule relay_inv_step)

end
