(* ===== verification/Worker_Run.thy ===== *)
theory Worker_Run
  imports Relay
begin

section \<open>The worker among other tasks\<close>

text \<open>
  The interleaved steps of the worker (\<open>task_step\<close>, \<open>worker_step\<close> of \<open>Worker\<close>) refine the
  specification of \<open>Relay\<close>, for every sink that keeps the contract \<open>worker_env\<close>. The worker
  never sleeps past mail it was signalled (\<open>awake\<close>), and what it has in hand is still queued
  (\<open>in_hand\<close>). One undisturbed turn (\<open>run_iter\<close>) is a run of these steps.
\<close>

subsection \<open>Entries of the outbox\<close>

definition entry :: "message_store \<Rightarrow> i64 \<rightharpoonup> stored_message" where
  "entry st i = map_option row_to_stored (rows (conn st) i)"

definition relay_of ::
  "('s \<Rightarrow> (string \<times> message) list) \<Rightarrow> ('s \<Rightarrow> (string \<times> message) list) \<Rightarrow> 's worker_sys \<Rightarrow> relay" where
  "relay_of log tried s =
     \<lparr>rl_pending = entry (w_store s), rl_sent = set (log (w_sink s)), rl_tried = set (tried (w_sink s)), rl_dead = buried (w_store s),
      rl_issued = issued (w_store s), rl_accepted = set (w_accepted s)\<rparr>"

lemma entry_same: "conn st' = conn st \<Longrightarrow> entry st' = entry st"
  by (simp add: entry_def fun_eq_iff)

lemma queued_entry: "queued st i = map_option sm_message (entry st i)"
  by (simp add: queued_def entry_def option.map_comp comp_def)

lemma entry_id: "entry st i = Some sm \<Longrightarrow> sm_id sm = i"
  by (auto simp: entry_def row_to_stored_def dest: rows_Some)

lemma entry_issued: "store_inv st \<Longrightarrow> entry st i = Some sm \<Longrightarrow> i \<in> issued st"
  using oq.queued_issued [of st i "sm_message sm"] by (simp add: queued_entry)

lemma entry_enqueue:
  assumes "store_inv st" and "wf_message m" and "enqueue m st = (Inr i, st')"
  shows "entry st' = (entry st)(i \<mapsto> \<lparr>sm_id = i, sm_message = m, sm_attempts = 0\<rparr>)"
proof -
  from enqueue_ok(7) [OF assms] obtain r where r: "rows (conn st') = (rows (conn st))(i \<mapsto> r)"
    "sm_message (row_to_stored r) = m" "ob_attempts r = 0" by blast
  have "ob_id r = i" using rows_Some [of "conn st'" i r] r(1) by simp
  with r(2,3) have "row_to_stored r = \<lparr>sm_id = i, sm_message = m, sm_attempts = 0\<rparr>"
    by (simp add: row_to_stored_def)
  with r(1) show ?thesis by (simp add: entry_def fun_eq_iff)
qed

lemma entry_remove: "rows (conn st') = (rows (conn st))(i := None) \<Longrightarrow> entry st' = (entry st)(i := None)"
  by (simp add: entry_def fun_eq_iff)

lemma entry_retry:
  assumes "reschedule i n at st = (Inr u, st')" and "entry st i = Some sm"
  shows "entry st' = (entry st)(i \<mapsto> sm\<lparr>sm_attempts := n\<rparr>)"
proof -
  from assms(2) obtain r where r: "rows (conn st) i = Some r" "sm = row_to_stored r" by (auto simp: entry_def)
  have "row_to_stored (rescheduled n at r) = sm\<lparr>sm_attempts := n\<rparr>"
    by (simp add: row_to_stored_def rescheduled_def r(2))
  with reschedule_ok(1) [OF assms(1)] r(1) show ?thesis by (auto simp: entry_def fun_eq_iff)
qed

lemma conn_refresh [simp]: "conn (refresh f c st) = conn st" "notify (refresh f c st) = notify st"
  by (simp_all add: refresh_def)

lemma conn_reboot [simp]: "conn (reboot st) = conn st"
  by (simp add: reboot_def)

lemma conn_notified: "notified st = Some st' \<Longrightarrow> conn st' = conn st"
  by (auto simp: notified_def split: if_splits)

subsection \<open>A sleeping worker\<close>

text \<open>
  A worker that goes to sleep or sleeps has a permit waiting, which ends its sleep, or nothing
  in the outbox is due before its timer fires. Rows whose wake-up was not posted are left out.
\<close>

definition not_due :: "i64 set \<Rightarrow> message_store \<Rightarrow> i64 \<Rightarrow> bool" where
  "not_due missed st t \<longleftrightarrow> (\<forall>r\<in>set (outbox (conn st)). ob_id r \<notin> missed \<longrightarrow> t < next_attempt_at r)"

definition awake :: "i64 set \<Rightarrow> 's worker_sys \<Rightarrow> bool" where
  "awake missed s \<longleftrightarrow>
     (case w_phase s of
        Idling t \<Rightarrow> notify (w_store s) \<or> not_due missed (w_store s) t
      | Sleeping t n \<Rightarrow> notify (w_store s) \<or>
          not_due missed (w_store s) t \<and> sleep_ok missed (conn (w_store s)) t n
      | _ \<Rightarrow> True)"

lemma awake_rows:
  assumes "awake x s" and "w_phase t = w_phase s" and "notify (w_store s) \<longrightarrow> notify (w_store t)"
    and "\<And>r. r \<in> set (outbox (conn (w_store t))) \<Longrightarrow> ob_id r \<notin> y \<Longrightarrow>
      r \<in> set (outbox (conn (w_store s))) \<and> ob_id r \<notin> x"
  shows "awake y t"
  using assms unfolding awake_def not_due_def sleep_ok_def by (cases "w_phase s") (simp_all, blast+)

lemma awake_frame:
  "awake x s \<Longrightarrow> conn (w_store t) = conn (w_store s) \<Longrightarrow> notify (w_store t) = notify (w_store s) \<Longrightarrow>
   w_phase t = w_phase s \<Longrightarrow> awake x t"
  by (auto simp: awake_def not_due_def split: phase.splits)

lemma awake_notified: "notify (w_store s) \<Longrightarrow> awake x s"
  by (simp add: awake_def split: phase.split)

subsection \<open>The message in hand\<close>

text \<open>
  The message the worker has in hand is still queued as it was claimed, and a send that was
  answered with success is in the log of the sink.
\<close>

definition in_hand :: "('s \<Rightarrow> (string \<times> message) list) \<Rightarrow> 's worker_sys \<Rightarrow> bool" where
  "in_hand log s \<longleftrightarrow>
     (case w_phase s of
        Delivering now sm \<Rightarrow> entry (w_store s) (sm_id sm) = Some sm
      | Settling now sm r \<Rightarrow> entry (w_store s) (sm_id sm) = Some sm \<and>
          (is_ok r \<longrightarrow> (idempotency_key (sm_id sm), sm_message sm) \<in> set (log (w_sink s)))
      | _ \<Rightarrow> True)"

lemma in_hand_frame:
  assumes "in_hand log s" and "w_phase t = w_phase s" and "set (log (w_sink s)) \<subseteq> set (log (w_sink t))"
    and "\<And>i sm. entry (w_store s) i = Some sm \<Longrightarrow> entry (w_store t) i = Some sm"
  shows "in_hand log t"
  using assms by (auto simp: in_hand_def split: phase.splits)

lemma in_hand_same:
  assumes "in_hand log s" and "w_phase t = w_phase s" and "w_sink t = w_sink s"
    and "conn (w_store t) = conn (w_store s)"
  shows "in_hand log t"
  by (rule in_hand_frame [OF assms(1,2)]) (use assms(3) entry_same [OF assms(4)] in simp_all)

lemma relay_of_same:
  "conn (w_store t) = conn (w_store s) \<Longrightarrow> log (w_sink t) = log (w_sink s) \<Longrightarrow>
   tried (w_sink t) = tried (w_sink s) \<Longrightarrow> set (w_accepted t) = set (w_accepted s) \<Longrightarrow> relay_of log tried t = relay_of log tried s"
  using same_conn [of "w_store t" "w_store s"] entry_same [of "w_store t" "w_store s"] by (simp add: relay_of_def)

lemma in_hand_mail:
  assumes "in_hand log s" and "store_inv (w_store s)" and "wf_message m" and "enqueue m (w_store s) = (Inr i, st)"
    and "w_phase t = w_phase s" and "w_sink t = w_sink s" and "conn (w_store t) = conn st"
  shows "in_hand log t"
proof (rule in_hand_frame [OF assms(1,5)])
  show "entry (w_store t) k = Some sm" if "entry (w_store s) k = Some sm" for k sm
    using that entry_same [OF assms(7)] entry_enqueue [OF assms(2-4)] entry_issued [OF assms(2) that]
      enqueue_ok(2) [OF assms(2-4)] by auto
qed (simp add: assms(6))

lemma relay_mail:
  assumes "store_inv (w_store s)" and "wf_message m" and "good m" and "enqueue m (w_store s) = (Inr i, st)"
    and "conn (w_store t) = conn st" and "w_sink t = w_sink s" and "w_accepted t = (i, m) # w_accepted s"
  shows "relay_step good n (relay_of log tried s) (relay_of log tried t)"
proof -
  note e = enqueue_ok [OF assms(1,2,4)] and c = same_conn [OF assms(5)] and k = entry_enqueue [OF assms(1,2,4)]
  have "relay_of log tried t = (relay_of log tried s)
      \<lparr>rl_pending := (rl_pending (relay_of log tried s))(i \<mapsto> \<lparr>sm_id = i, sm_message = m, sm_attempts = 0\<rparr>),
       rl_issued := insert i (rl_issued (relay_of log tried s)), rl_accepted := insert (i, m) (rl_accepted (relay_of log tried s))\<rparr>"
    using e c k entry_same [OF assms(5)] assms(6,7) by (simp add: relay_of_def)
  moreover have "i \<notin> rl_issued (relay_of log tried s)" using e(2) by (simp add: relay_of_def)
  ultimately show ?thesis using relay_step.accept [of i "relay_of log tried s" good m n] assms(3) by simp
qed

subsection \<open>The steps of the task\<close>

text \<open>
  The contract of the sink, extended by the connection attempts: connecting sends nothing.
\<close>

locale worker_env = delivery_sink deliver log tried
  for deliver :: "message \<Rightarrow> string \<Rightarrow> 's \<Rightarrow> unit result \<times> 's"
    and log :: "'s \<Rightarrow> (string \<times> message) list" and tried :: "'s \<Rightarrow> (string \<times> message) list" +
  fixes connect :: "'s \<Rightarrow> unit result \<times> 's" and w :: delivery_worker
  assumes connect_log: "connect s = (r, s') \<Longrightarrow> log s' = log s \<and> tried s' = tried s"
begin

lemma settle_eq: "settle w sm now r st = store_step (delivery_call w sm now r) st"
  by (simp add: settle_def delivery_call_def handle_failure_def Let_def split: sum.split)

lemma claim_step_cases:
  assumes "claim_step sd st = (p, st')" and "store_inv st"
  obtains
    (claims) now sm where "p = Delivering now sm" "conn st' = conn st" "same_frame st st'"
      "entry st' (sm_id sm) = Some sm"
  | (stops) "p = Stopped" "sd" "conn st' = conn st" "same_frame st st'"
  | (idles) now where "p = Idling now" "conn st' = conn st" "same_frame st st'"
      "\<forall>r\<in>set (outbox (conn st)). now < next_attempt_at r"
  | (pauses) "p = Pausing STORAGE_ERROR_BACKOFF" "conn st' = conn st" "same_frame st st'"
proof -
  obtain now st1 where now: "unix_now st = (now, st1)" by fastforce
  have f1: "conn st1 = conn st" "same_frame st st1" using unix_now_frame [OF now] by simp_all
  obtain q st2 where q: "claim_next_ready now st1 = (q, st2)" by fastforce
  have f2: "conn st2 = conn st" "same_frame st st2"
    using q f1 by (auto elim!: claim_next_ready_cases intro: same_frame_trans)
  consider (err) e where "q = Inl e" | (none) "q = Inr None" | (some) sm where "q = Inr (Some sm)"
    by (cases q) auto
  then show thesis
  proof cases
    case err
    with assms(1) now q f2 show thesis by (intro pauses) (auto simp: claim_step_def)
  next
    case none
    have "\<forall>r\<in>set (outbox (conn st)). now < next_attempt_at r"
      using claim_None(3) [of now st1 st2] q none f1 by auto
    with none assms(1) now q f2 show thesis
      by (cases sd) (auto simp: claim_step_def intro: stops idles [of now])
  next
    case (some sm)
    have "store_inv st1" using assms(2) f1 by simp
    from claim_Some(1,3) [OF this, of now sm st2] q some have "entry st2 (sm_id sm) = Some sm"
      by (auto simp: entry_def)
    with some assms(1) now q f2 show thesis by (intro claims [of now sm]) (auto simp: claim_step_def)
  qed
qed

lemma settle_inv: "store_inv st \<Longrightarrow> store_inv (settle w sm now r st)"
  by (simp add: settle_eq oq.step_inv good_delivery_call)

text \<open>
  The call of the store after a send is a step of the relay, or fails and changes nothing; one
  lemma for each of the three calls.
\<close>

lemma ack_relay:
  assumes "mark_delivered (sm_id sm) (w_store s) = (q, st)" and "t = s\<lparr>w_phase := p, w_store := st\<rparr>"
    and "rl_pending (relay_of log tried s) (sm_id sm) = Some sm"
    and "(idempotency_key (sm_id sm), sm_message sm) \<in> rl_sent (relay_of log tried s)"
  shows "relay_of log tried t = relay_of log tried s \<or> relay_step good n (relay_of log tried s) (relay_of log tried t)"
proof (cases q)
  case (Inl e)
  with assms(1) mark_delivered_err have "conn st = conn (w_store s)" by blast
  then show ?thesis by (intro disjI1 relay_of_same) (simp_all add: assms(2))
next
  case (Inr v)
  note d = mark_delivered_ok [OF assms(1) [unfolded Inr]]
  have "relay_of log tried t =
      (relay_of log tried s)\<lparr>rl_pending := (rl_pending (relay_of log tried s))(sm_id sm := None)\<rparr>"
    using entry_remove [OF d(1)] d(3,4) by (simp add: relay_of_def assms(2))
  then show ?thesis using relay_step.release [OF assms(3,4)] by simp
qed

lemma bury_relay:
  assumes "dead_letter (sm_id sm) reason (w_store s) = (q, st)" and "t = s\<lparr>w_phase := p, w_store := st\<rparr>"
    and "rl_pending (relay_of log tried s) (sm_id sm) = Some sm" and "entry (w_store s) (sm_id sm) = Some sm"
    and "n < sm_attempts sm + 1"
  shows "relay_of log tried t = relay_of log tried s \<or> relay_step good n (relay_of log tried s) (relay_of log tried t)"
proof (cases q)
  case (Inl e)
  with assms(1) dead_letter_err have "conn st = conn (w_store s)" by blast
  then show ?thesis by (intro disjI1 relay_of_same) (simp_all add: assms(2))
next
  case (Inr v)
  note d = dead_letter_ok [OF assms(1) [unfolded Inr]]
  have "buried st = buried (w_store s) @ [sm_message sm]" using d(5) assms(4) by (simp add: queued_entry)
  then have "relay_of log tried t =
      (relay_of log tried s)\<lparr>rl_pending := (rl_pending (relay_of log tried s))(sm_id sm := None),
        rl_dead := rl_dead (relay_of log tried s) @ [sm_message sm]\<rparr>"
    using entry_remove [OF d(1)] d(3) by (simp add: relay_of_def assms(2))
  then show ?thesis using relay_step.bury [OF assms(3,5)] by simp
qed

lemma retry_relay:
  assumes "reschedule (sm_id sm) (sm_attempts sm + 1) at (w_store s) = (q, st)" and "t = s\<lparr>w_phase := p, w_store := st\<rparr>"
    and "rl_pending (relay_of log tried s) (sm_id sm) = Some sm" and "entry (w_store s) (sm_id sm) = Some sm"
    and "\<not> n < sm_attempts sm + 1"
  shows "relay_of log tried t = relay_of log tried s \<or> relay_step good n (relay_of log tried s) (relay_of log tried t)"
proof (cases q)
  case (Inl e)
  with assms(1) reschedule_err have "conn st = conn (w_store s)" by blast
  then show ?thesis by (intro disjI1 relay_of_same) (simp_all add: assms(2))
next
  case (Inr v)
  have "relay_of log tried t = (relay_of log tried s)\<lparr>rl_pending :=
      (rl_pending (relay_of log tried s))(sm_id sm \<mapsto> sm\<lparr>sm_attempts := sm_attempts sm + 1\<rparr>)\<rparr>"
    using entry_retry [OF assms(1) [unfolded Inr] assms(4)] reschedule_same [OF assms(1)] by (simp add: relay_of_def assms(2))
  then show ?thesis using relay_step.retry [OF assms(3,5)] by simp
qed

lemma settle_relay:
  assumes "in_hand log s" and "w_phase s = Settling now sm r"
    and "t = s\<lparr>w_phase := p, w_store := settle w sm now r (w_store s)\<rparr>"
  shows "relay_of log tried t = relay_of log tried s \<or> relay_step good (max_retries w) (relay_of log tried s) (relay_of log tried t)"
proof -
  have sm: "rl_pending (relay_of log tried s) (sm_id sm) = Some sm" "entry (w_store s) (sm_id sm) = Some sm"
    "is_ok r \<Longrightarrow> (idempotency_key (sm_id sm), sm_message sm) \<in> rl_sent (relay_of log tried s)"
    using assms(1,2) by (simp_all add: in_hand_def relay_of_def)
  note t = assms(3) [unfolded settle_eq]
  show ?thesis
  proof (cases rule: delivery_call_cases [of r w sm now])
    case (ack u)
    show ?thesis by (rule ack_relay [OF prod.collapse [symmetric] _ sm(1)]) (use t ack sm(3) in simp_all)
  next
    case (bury err)
    show ?thesis by (rule bury_relay [OF prod.collapse [symmetric] _ sm(1,2)]) (use t bury in simp_all)
  next
    case (retry err at)
    show ?thesis by (rule retry_relay [OF prod.collapse [symmetric] _ sm(1,2)]) (use t retry in simp_all)
  qed
qed

lemma task_inv:
  assumes "store_inv (w_store s)" and "task_step connect deliver w s t"
  shows "store_inv (w_store t)"
  using assms(2)
proof cases
  case (claim p st)
  from claim(3) assms(1) show ?thesis by (cases rule: claim_step_cases) (simp_all add: claim(1) assms(1))
qed (use assms(1) in \<open>auto simp: settle_inv conn_notified dest: idle_wait_frame\<close>)

lemma task_relay:
  assumes "store_inv (w_store s)" and "in_hand log s" and "task_step connect deliver w s t"
  shows "relay_of log tried t = relay_of log tried s \<or> relay_step good (max_retries w) (relay_of log tried s) (relay_of log tried t)"
  using assms(3)
proof cases
  case (connect p snk)
  then have "log snk = log (w_sink s)" "tried snk = tried (w_sink s)"
    using connect_log by (auto simp: reconnect_iter_def split: if_splits prod.splits sum.splits)
  then show ?thesis unfolding connect(1) by (intro disjI1 relay_of_same) simp_all
next
  case (claim p st)
  from claim(3) assms(1) have "conn st = conn (w_store s)" by (cases rule: claim_step_cases) auto
  then show ?thesis unfolding claim(1) by (intro disjI1 relay_of_same) simp_all
next
  case (send now stored r snk)
  let ?a = "relay_of log tried s" and ?x = "(idempotency_key (sm_id stored), sm_message stored)"
  have p: "rl_pending ?a (sm_id stored) = Some stored"
    using assms(2) send(2) by (simp add: in_hand_def relay_of_def)
  show ?thesis
  proof (cases r)
    case (Inr u)
    have "relay_of log tried t = ?a\<lparr>rl_sent := insert ?x (rl_sent ?a), rl_tried := insert ?x (rl_tried ?a)\<rparr>"
      using deliver_ok [OF send(3) [unfolded Inr]] by (simp add: send(1) relay_of_def)
    then show ?thesis using relay_step.send [OF p] by simp
  next
    case (Inl e)
    have "relay_of log tried t = ?a \<or> relay_of log tried t = ?a\<lparr>rl_tried := insert ?x (rl_tried ?a)\<rparr>"
      using deliver_err [OF send(3) [unfolded Inl]] by (auto simp: send(1) relay_of_def)
    then show ?thesis using relay_step.attempt [OF p] by auto
  qed
next
  case (settle now stored r)
  show ?thesis by (rule settle_relay [OF assms(2) settle(2,1)])
next
  case (idle now n st)
  then show ?thesis using idle_wait_frame [OF idle(3)] by (intro disjI1 relay_of_same) simp_all
next
  case (wake_notified t n st)
  then show ?thesis using conn_notified by (intro disjI1 relay_of_same) simp_all
qed (intro disjI1 relay_of_same; simp)+

lemma in_hand_task:
  assumes "store_inv (w_store s)" and "in_hand log s" and "task_step connect deliver w s t"
  shows "in_hand log t"
  using assms(3)
proof cases
  case (connect p snk)
  then show ?thesis by (auto simp: in_hand_def reconnect_iter_def split: if_splits prod.splits sum.splits)
next
  case (claim p st)
  from claim(3) assms(1) show ?thesis
    by (cases rule: claim_step_cases) (simp_all add: claim(1) in_hand_def)
next
  case (send now stored r snk)
  have "is_ok r \<Longrightarrow> (idempotency_key (sm_id stored), sm_message stored) \<in> set (log snk)"
    using deliver_accepted send(3) by (cases r) auto
  with send assms(2) show ?thesis by (simp add: in_hand_def)
qed (auto simp: in_hand_def)

lemma awake_task:
  assumes "store_inv (w_store s)" and "awake x s" and "task_step connect deliver w s t"
  shows "awake x t"
  using assms(3)
proof cases
  case (claim p st)
  from claim(3) assms(1) show ?thesis
    by (cases rule: claim_step_cases) (simp_all add: claim(1) awake_def not_due_def)
next
  case (idle now n st)
  note f = idle_wait_frame [OF idle(3)]
  show ?thesis
  proof (cases "notify (w_store s)")
    case True
    then have "notify st" using f same_frame_notify by blast
    with idle(1) show ?thesis by (simp add: awake_def)
  next
    case False
    then have d: "not_due x (w_store s) now"
      using assms(2) idle(2) by (simp add: awake_def)
    have "sleep_ok x (conn (w_store s)) now n"
      using idle_wait_cases [OF idle(3), of x] d unfolding not_due_def by blast
    with d f idle(1) show ?thesis by (simp add: awake_def not_due_def)
  qed
next
  case (connect p snk)
  then show ?thesis
    by (auto simp: awake_def reconnect_iter_def split: if_splits prod.splits sum.splits)
qed (auto simp: awake_def)

text \<open>A claim that found nothing due has seen every row.\<close>

lemma awake_idling:
  assumes "store_inv (w_store s)" and "awake x s" and "task_step connect deliver w s t" and "w_phase t = Idling now"
  shows "awake {} t"
  using assms(3)
proof cases
  case (claim p st)
  from claim(3) assms(1) show ?thesis
    by (cases rule: claim_step_cases) (simp_all add: claim(1) awake_def not_due_def)
next
  case (connect p snk)
  then show ?thesis using assms(4) by (auto simp: reconnect_iter_def split: if_splits prod.splits sum.splits)
qed (use assms(4) in \<open>auto split: if_splits\<close>)

lemma awake_step:
  assumes "store_inv (w_store s)" and "awake x s" and "worker_step connect deliver w s t"
  shows "awake x t"
  using assms(3)
proof cases
  case task
  show ?thesis by (rule awake_task [OF assms(1,2) task])
next
  case (mail_ok m i st)
  moreover from assms(1) mail_ok have "notify st"
    using enqueue_ok(5) by blast
  ultimately show ?thesis by (simp add: awake_notified)
next
  case (mail_refused m e st)
  note e = enqueue_err [OF mail_refused(2)]
  show ?thesis unfolding mail_refused(1)
    by (rule awake_frame [OF assms(2)]) (use e same_frame_notify [of "w_store s" st] in simp_all)
next
  case shutdown
  show ?thesis unfolding shutdown by (rule awake_frame [OF assms(2)]) simp_all
next
  case (environment faults clk)
  show ?thesis unfolding environment by (rule awake_frame [OF assms(2)]) simp_all
next
  case crash
  then show ?thesis by (simp add: awake_def)
qed

text \<open>The worker with its environment keeps its invariant, and refines the relay.\<close>

definition run_inv :: "'s worker_sys \<Rightarrow> bool" where
  "run_inv s \<longleftrightarrow> store_inv (w_store s) \<and> in_hand log s \<and> awake {} s"

lemma run_inv_step:
  assumes "run_inv s" and "worker_step connect deliver w s t"
  shows "run_inv t"
proof -
  have inv: "store_inv (w_store s)" "in_hand log s" "awake {} s" using assms(1) by (simp_all add: run_inv_def)
  from assms(2) have "store_inv (w_store t) \<and> in_hand log t"
  proof cases
    case task
    then show ?thesis using task_inv [OF inv(1)] in_hand_task [OF inv(1,2)] by blast
  next
    case (mail_ok m i st)
    have "in_hand log t" by (rule in_hand_mail [OF inv(2,1) mail_ok(2,3)]) (simp_all add: mail_ok(1))
    then show ?thesis using enqueue_inv [OF inv(1) mail_ok(3)] mail_ok(1) by simp
  next
    case (mail_refused m e st)
    have "conn st = conn (w_store s)" using enqueue_err [OF mail_refused(2)] by simp
    with inv show ?thesis unfolding mail_refused(1) by (auto intro: in_hand_same)
  next
    case crash
    with inv(1) show ?thesis by (simp add: in_hand_def)
  qed (use inv in \<open>auto intro: in_hand_same\<close>)
  with awake_step [OF inv(1,3) assms(2)] show ?thesis by (simp add: run_inv_def)
qed

lemma run_relay:
  assumes "run_inv s" and "worker_step connect deliver w s t"
  shows "(relay_step wf_message (max_retries w))\<^sup>*\<^sup>* (relay_of log tried s) (relay_of log tried t)"
proof -
  have inv: "store_inv (w_store s)" "in_hand log s" using assms(1) by (simp_all add: run_inv_def)
  have one: ?thesis if "relay_of log tried t = relay_of log tried s \<or> relay_step wf_message (max_retries w) (relay_of log tried s) (relay_of log tried t)"
    using that by auto
  from assms(2) show ?thesis
  proof cases
    case task
    show ?thesis by (rule one [OF task_relay [OF inv task]])
  next
    case (mail_ok m i st)
    show ?thesis
      by (rule one, rule disjI2, rule relay_mail [of s m wf_message i st])
        (use inv(1) mail_ok(2,3) in \<open>simp_all add: mail_ok(1)\<close>)
  next
    case (mail_refused m e st)
    have "conn st = conn (w_store s)" using enqueue_err [OF mail_refused(2)] by simp
    then show ?thesis by (intro one disjI1 relay_of_same) (simp_all add: mail_refused(1))
  qed (intro one disjI1 relay_of_same; simp)+
qed

text \<open>A turn of the loop with nothing in between is a run of the steps.\<close>

lemma run_iter_claim:
  "run_iter deliver w sd st snk =
     (case claim_step sd st of
        (Delivering now sm, st1) \<Rightarrow>
          (case deliver (sm_message sm) (idempotency_key (sm_id sm)) snk of
             (r, snk') \<Rightarrow> (Claiming, settle w sm now r st1, snk'))
      | (Idling now, st1) \<Rightarrow> (case idle_wait now st1 of (n, st2) \<Rightarrow> (Sleeping now n, st2, snk))
      | (p, st1) \<Rightarrow> (p, st1, snk))"
  by (auto simp: run_iter_def claim_step_def deliver_one_eq settle_eq
      split: prod.split sum.split option.split)

lemma run_iter_steps:
  assumes "w_phase s = Claiming"
    and "run_iter deliver w (w_shutdown s) (w_store s) (w_sink s) = (p, st, snk)"
  shows "(task_step connect deliver w)\<^sup>*\<^sup>* s (s\<lparr>w_phase := p, w_store := st, w_sink := snk\<rparr>)"
proof -
  obtain p1 st1 where c: "claim_step (w_shutdown s) (w_store s) = (p1, st1)" by fastforce
  let ?s1 = "s\<lparr>w_phase := p1, w_store := st1\<rparr>"
  have 1: "task_step connect deliver w s ?s1" by (rule task_step.claim [OF assms(1) c])
  show ?thesis
  proof (cases p1)
    case (Delivering now sm)
    obtain r snk1 where d: "deliver (sm_message sm) (idempotency_key (sm_id sm)) (w_sink s) = (r, snk1)" by fastforce
    let ?s2 = "?s1\<lparr>w_phase := Settling now sm r, w_sink := snk1\<rparr>"
    let ?s3 = "?s2\<lparr>w_phase := Claiming, w_store := settle w sm now r (w_store ?s2)\<rparr>"
    have "task_step connect deliver w ?s1 ?s2" by (rule task_step.send) (use d Delivering in simp_all)
    moreover have "task_step connect deliver w ?s2 ?s3" by (rule task_step.settle) simp
    moreover have "?s3 = s\<lparr>w_phase := p, w_store := st, w_sink := snk\<rparr>"
      using assms(2) c d Delivering by (cases s) (auto simp: run_iter_claim)
    ultimately show ?thesis using 1 by (metis converse_rtranclp_into_rtranclp r_into_rtranclp)
  next
    case (Idling now)
    obtain n st2 where i: "idle_wait now st1 = (n, st2)" by fastforce
    let ?s2 = "?s1\<lparr>w_phase := Sleeping now n, w_store := st2\<rparr>"
    have "task_step connect deliver w ?s1 ?s2" by (rule task_step.idle) (use i Idling in simp_all)
    moreover have "?s2 = s\<lparr>w_phase := p, w_store := st, w_sink := snk\<rparr>"
      using assms(2) c i Idling by (cases s) (auto simp: run_iter_claim)
    ultimately show ?thesis using 1 by (metis converse_rtranclp_into_rtranclp r_into_rtranclp)
  qed (use 1 assms(2) c in \<open>cases s; auto simp: run_iter_claim\<close>)+
qed

end

sublocale worker_env \<subseteq> live: simulation "\<lambda>s. worker_init s \<and> log (w_sink s) = [] \<and> tried (w_sink s) = []" "worker_step connect deliver w"
    run_inv relay_init "relay_step wf_message (max_retries w)" "relay_of log tried"
proof unfold_locales
  fix s
  assume i: "worker_init s \<and> log (w_sink s) = [] \<and> tried (w_sink s) = []"
  then show "run_inv s" by (simp add: run_inv_def worker_init_def awake_def in_hand_def)
  show "relay_init (relay_of log tried s)"
    using i entry_id entry_issued by (auto simp: relay_init_def relay_of_def worker_init_def)
qed (fact run_inv_step run_relay)+

end
