(* ===== verification/Smtp_Reader.thy ===== *)
theory Smtp_Reader
  imports Errors
begin

section \<open>Reading lines and DATA blocks from a connection (src/smtp/server.rs, second half)\<close>

text \<open>
  A connection delivers its bytes in chunks of any size, can fail, and can stall. The buffered
  reader over it is a record: the bytes read and not yet consumed, and what the connection has
  in store. An exhausted list of events is the end of the stream; \<open>Stalled\<close> stands at the
  place where the deadline of the surrounding \<open>timeout\<close> passes, whether the client sends
  nothing or sends too slowly.

  Theorems: what the readers return depends on the bytes and not on how they are cut into
  chunks; the memory bounds; the round trip of dot-stuffing; a block that ends without its
  terminator is never returned.
\<close>

datatype read_event = Chunk bytes | Read_error string | Stalled

record buf_reader =
  rd_buf :: bytes
  rd_events :: "read_event list"

text \<open>The result of \<open>timeout\<close>.\<close>

datatype 'a timed = Done 'a | Elapsed

definition fill_buf :: "buf_reader \<Rightarrow> bytes result timed \<times> buf_reader" where
  "fill_buf r =
     (if rd_buf r \<noteq> [] then (Done (Inr (rd_buf r)), r)
      else
        (case rd_events r of
           [] \<Rightarrow> (Done (Inr []), r)
         | Chunk c # es \<Rightarrow> (Done (Inr c), \<lparr>rd_buf = c, rd_events = es\<rparr>)
         | Read_error e # es \<Rightarrow> (Done (Inl (Io e)), r\<lparr>rd_events := es\<rparr>)
         | Stalled # es \<Rightarrow> (Elapsed, r\<lparr>rd_events := es\<rparr>)))"

definition consume :: "nat \<Rightarrow> buf_reader \<Rightarrow> buf_reader" where
  "consume n r = r\<lparr>rd_buf := drop n (rd_buf r)\<rparr>"

definition turns_left :: "buf_reader \<Rightarrow> nat" where
  "turns_left r = 2 * length (rd_events r) + (if rd_buf r = [] then 0 else 1)"

lemma fill_buf_cases:
  assumes "fill_buf r = (q, r')"
  obtains
    (some) c where "q = Done (Inr c)" "c \<noteq> []" "rd_buf r' = c" "turns_left r' \<le> turns_left r"
      "rd_buf r = c \<and> r' = r \<or> rd_buf r = [] \<and> rd_events r = Chunk c # rd_events r'"
  | (eof) "q = Done (Inr [])" "rd_buf r = []"
      "rd_events r = [] \<and> r' = r \<or> rd_events r = Chunk [] # rd_events r' \<and> rd_buf r' = []"
  | (failed) e where "q = Done (Inl (Io e))" "rd_buf r = []" "rd_events r = Read_error e # rd_events r'" "rd_buf r' = []"
  | (stalled) "q = Elapsed" "rd_buf r = []" "rd_events r = Stalled # rd_events r'" "rd_buf r' = []"
proof (cases "rd_buf r = []")
  case False
  with assms show thesis by (intro some) (auto simp: fill_buf_def)
next
  case True
  show thesis
  proof (cases "rd_events r")
    case Nil
    with True assms show thesis by (intro eof) (auto simp: fill_buf_def)
  next
    case (Cons e es)
    show thesis
    proof (cases e)
      case (Chunk c)
      show thesis
      proof (cases "c = []")
        case True
        with \<open>rd_buf r = []\<close> Cons Chunk assms show thesis by (intro eof) (auto simp: fill_buf_def)
      next
        case False
        with True Cons Chunk assms show thesis
          by (intro some [of c]) (auto simp: fill_buf_def turns_left_def)
      qed
    next
      case (Read_error x)
      with True Cons assms show thesis by (intro failed) (auto simp: fill_buf_def)
    next
      case Stalled
      with True Cons assms show thesis by (intro stalled) (auto simp: fill_buf_def)
    qed
  qed
qed

subsection \<open>One line\<close>

text \<open>
  The loop of \<open>read_line_limited_bytes\<close> from the buffer \<open>buf\<close> on, whose first \<open>start\<close> bytes
  were there before. The result is the outcome, the buffer and the reader.
\<close>

function read_line_loop ::
  "usize \<Rightarrow> nat \<Rightarrow> bytes \<Rightarrow> buf_reader \<Rightarrow> usize result timed \<times> bytes \<times> buf_reader" where
  "read_line_loop max_bytes start buf r =
     (case fill_buf r of
        (Elapsed, r1) \<Rightarrow> (Elapsed, buf, r1)
      | (Done (Inl e), r1) \<Rightarrow> (Done (Inl e), buf, r1)
      | (Done (Inr available), r1) \<Rightarrow>
          if available = [] then (Done (Inr (length buf - start)), buf, r1)
          else
            (case position (\<lambda>b. b = LF) available of
               Some idx \<Rightarrow>
                 let n = idx + 1 in
                 if max_bytes < length buf - start + n then (Done (Inl SmtpLineTooLong), buf, r1)
                 else
                   let buf = buf @ take n available
                   in (Done (Inr (length buf - start)), buf, consume n r1)
             | None \<Rightarrow>
                 let n = length available in
                 if max_bytes < length buf - start + n then (Done (Inl SmtpLineTooLong), buf, r1)
                 else read_line_loop max_bytes start (buf @ available) (consume n r1)))"
  by pat_completeness auto
termination
proof (relation "measure (\<lambda>(max_bytes, start, buf, r). turns_left r)", goal_cases)
  case 1
  show ?case by simp
next
  case (2 max_bytes start buf r q r1 x available n)
  from 2(1)[symmetric] show ?case
    by (rule fill_buf_cases) (use 2 in \<open>auto simp: turns_left_def consume_def\<close>)
qed

declare read_line_loop.simps [simp del]

definition read_line_limited_bytes :: "buf_reader \<Rightarrow> bytes \<Rightarrow> usize \<Rightarrow> usize result timed \<times> bytes \<times> buf_reader" where
  "read_line_limited_bytes r buf max_bytes = read_line_loop max_bytes (length buf) buf r"

definition read_line_limited :: "buf_reader \<Rightarrow> string \<Rightarrow> usize \<Rightarrow> usize result timed \<times> string \<times> buf_reader" where
  "read_line_limited r buf max_bytes =
     (case read_line_limited_bytes r [] max_bytes of
        (Done (Inr n), raw, r1) \<Rightarrow>
          (case from_utf8 raw of
             None \<Rightarrow> (Done (Inl (Smtp ''invalid UTF-8 in SMTP command'')), buf, r1)
           | Some text \<Rightarrow> (Done (Inr n), buf @ text, r1))
      | (Done (Inl e), raw, r1) \<Rightarrow> (Done (Inl e), buf, r1)
      | (Elapsed, raw, r1) \<Rightarrow> (Elapsed, buf, r1))"

subsection \<open>What is consumed\<close>

fun event_size :: "read_event \<Rightarrow> nat" where
  "event_size (Chunk c) = length c"
| "event_size _ = 0"

definition rd_size :: "buf_reader \<Rightarrow> nat" where
  "rd_size r = length (rd_buf r) + sum_list (map event_size (rd_events r))"

lemma fill_buf_size: "fill_buf r = (q, r') \<Longrightarrow> rd_size r' \<le> rd_size r"
  by (erule fill_buf_cases) (auto simp: rd_size_def)

text \<open>
  The loop appends at most \<open>max_bytes\<close> bytes to the buffer, whatever the connection does, and
  consumes exactly the bytes it reports.
\<close>

lemma read_line_loop_inv:
  "read_line_loop mx start buf r = (q, buf', r') \<Longrightarrow> start \<le> length buf \<Longrightarrow> length buf \<le> start + mx \<Longrightarrow>
   length buf' \<le> start + mx \<and> length buf \<le> length buf' \<and>
   rd_size r' + (length buf' - length buf) \<le> rd_size r \<and>
   (\<forall>n. q = Done (Inr n) \<longrightarrow> n = length buf' - start)"
proof (induction mx start buf r arbitrary: q buf' r' rule: read_line_loop.induct)
  case (1 mx start buf r)
  obtain f r1 where f: "fill_buf r = (f, r1)" by fastforce
  note size = fill_buf_size [OF f]
  note step = "1.prems" (1) [unfolded read_line_loop.simps [of mx start buf r]]
  from f show ?case
  proof (cases rule: fill_buf_cases)
    case (some c)
    note c = some
    show ?thesis
    proof (cases "position (\<lambda>b. b = LF) c")
      case None
      show ?thesis
      proof (cases "mx < length buf - start + length c")
        case True
        with step f c None size "1.prems" show ?thesis by auto
      next
        case False
        with step f c None have "read_line_loop mx start (buf @ c) (consume (length c) r1) = (q, buf', r')"
          by simp
        moreover have "start \<le> length (buf @ c)" "length (buf @ c) \<le> start + mx"
          using "1.prems"(2,3) False by simp_all
        ultimately have "length buf' \<le> start + mx \<and> length buf + length c \<le> length buf' \<and>
          rd_size r' + (length buf' - (length buf + length c)) \<le> rd_size (consume (length c) r1) \<and>
          (\<forall>n. q = Done (Inr n) \<longrightarrow> n = length buf' - start)"
          using "1.IH" [OF f [symmetric] c(1) refl c(2) None refl False] by (simp only: length_append) blast
        moreover have "rd_size (consume (length c) r1) + length c = rd_size r1"
          using c by (simp add: consume_def rd_size_def)
        ultimately show ?thesis using size by auto
      qed
    next
      case (Some i)
      with position_less have "i < length c" by blast
      with step f c Some size "1.prems" show ?thesis
        by (auto simp: Let_def consume_def rd_size_def split: if_splits)
    qed
  next
    case eof
    with step f size "1.prems" show ?thesis by auto
  next
    case failed
    with step f size "1.prems" show ?thesis by auto
  next
    case stalled
    with step f size "1.prems" show ?thesis by auto
  qed
qed

lemma read_line_size:
  "read_line_limited_bytes r [] mx = (q, line, r') \<Longrightarrow>
   rd_size r' + length line \<le> rd_size r \<and> length line \<le> mx \<and> (\<forall>n. q = Done (Inr n) \<longrightarrow> n = length line)"
  using read_line_loop_inv [of mx 0 "[]" r q line r'] by (simp add: read_line_limited_bytes_def)

subsection \<open>The DATA block\<close>

definition is_terminator :: "bytes \<Rightarrow> bool" where
  "is_terminator line \<longleftrightarrow> line = ''.'' @ crlf \<or> line = ''.'' @ [LF]"

definition unstuff :: "bytes \<Rightarrow> bytes" where
  "unstuff line = (if starts_with line ''..'' then drop 1 line else line)"

function read_data_loop :: "usize \<Rightarrow> bytes \<Rightarrow> buf_reader \<Rightarrow> bytes result \<times> buf_reader" where
  "read_data_loop max_size data r =
     (let remaining = usize_saturating_add (usize_saturating_sub max_size (length data)) 4 in
      case read_line_limited_bytes r [] remaining of
        (Elapsed, line, r1) \<Rightarrow> (Inl (Smtp ''SMTP data read timed out''), r1)
      | (Done (Inl e), line, r1) \<Rightarrow> (Inl (if e = SmtpLineTooLong then SmtpSizeExceeded else e), r1)
      | (Done (Inr n), line, r1) \<Rightarrow>
          if n = 0 then (Inl SmtpDataIncomplete, r1)
          else if is_terminator line then (Inr data, r1)
          else
            let line = unstuff line in
            if max_size < length data + length line then (Inl SmtpSizeExceeded, r1)
            else read_data_loop max_size (data @ line) r1)"
  by pat_completeness auto
termination
proof (relation "measure (\<lambda>(max_size, data, r). rd_size r)", goal_cases)
  case 1
  show ?case by simp
next
  case (2 max_size data r remaining q p x n line r1)
  then have "read_line_limited_bytes r [] remaining = (Done (Inr n), line, r1)" by simp
  from read_line_size [OF this] 2 show ?case by (cases line) auto
qed

declare read_data_loop.simps [simp del]

definition read_data :: "buf_reader \<Rightarrow> usize \<Rightarrow> string result \<times> buf_reader" where
  "read_data r max_size =
     (case read_data_loop max_size [] r of
        (Inr data, r1) \<Rightarrow> (Inr (from_utf8_lossy data), r1)
      | (Inl e, r1) \<Rightarrow> (Inl e, r1))"

lemma read_data_loop_inv:
  "read_data_loop mx data r = (q, r') \<Longrightarrow> length data \<le> mx \<Longrightarrow>
   rd_size r' \<le> rd_size r \<and> (\<forall>d. q = Inr d \<longrightarrow> length d \<le> mx)"
proof (induction mx data r rule: read_data_loop.induct)
  case (1 mx data r)
  let ?m = "usize_saturating_add (usize_saturating_sub mx (length data)) 4"
  obtain f line r1 where f: "read_line_limited_bytes r [] ?m = (f, line, r1)" by (metis prod_cases3)
  note size = read_line_size [OF f]
  note step = "1.prems"(1) [unfolded read_data_loop.simps [of mx data r] Let_def f]
  consider e where "f = Done (Inl e)" | "f = Elapsed" | n where "f = Done (Inr n)" "n = 0 \<or> is_terminator line"
    | n where "f = Done (Inr n)" "n \<noteq> 0" "\<not> is_terminator line"
    by (cases f) (metis sum.exhaust)+
  then show ?case
  proof cases
    case 4
    show ?thesis
    proof (cases "mx < length data + length (unstuff line)")
      case True
      with 4 step size show ?thesis by auto
    next
      case False
      with 4 step have "read_data_loop mx (data @ unstuff line) r1 = (q, r')" by simp
      with "1.IH" [OF refl f [symmetric] 4(1) refl refl 4(2,3) refl False] False size show ?thesis by auto
    qed
  qed (use step size "1.prems"(2) in \<open>auto split: if_splits\<close>)
qed

lemma read_data_size: "read_data r mx = (q, r') \<Longrightarrow> rd_size r' \<le> rd_size r"
  using read_data_loop_inv [of mx "[]" r]
  by (auto simp: read_data_def split: prod.splits sum.splits)

subsection \<open>The stream behind the chunks\<close>

text \<open>A reader whose connection neither fails nor stalls, and the bytes that are left in it.\<close>

definition healthy :: "buf_reader \<Rightarrow> bool" where
  "healthy r \<longleftrightarrow> (\<forall>e\<in>set (rd_events r). case e of Chunk c \<Rightarrow> c \<noteq> [] | _ \<Rightarrow> False)"

fun event_bytes :: "read_event \<Rightarrow> bytes" where
  "event_bytes (Chunk c) = c"
| "event_bytes _ = []"

definition stream_of :: "buf_reader \<Rightarrow> bytes" where
  "stream_of r = rd_buf r @ concat (map event_bytes (rd_events r))"

definition first_line :: "bytes \<Rightarrow> bytes" where
  "first_line s = (case position (\<lambda>b. b = LF) s of Some i \<Rightarrow> take (i + 1) s | None \<Rightarrow> s)"

lemma healthy_fill:
  assumes "fill_buf r = (q, r')" and "healthy r"
  shows "\<exists>c. q = Done (Inr c) \<and> rd_buf r' = c \<and> healthy r' \<and> stream_of r' = stream_of r \<and>
    (c = [] \<longleftrightarrow> stream_of r = [])"
  using assms(1)
proof (cases rule: fill_buf_cases)
  case (some c)
  with assms(2) show ?thesis by (auto simp: healthy_def stream_of_def)
next
  case eof
  with assms(2) show ?thesis by (auto simp: healthy_def stream_of_def)
qed (use assms(2) in \<open>auto simp: healthy_def\<close>)

lemma healthy_consume:
  "healthy r \<Longrightarrow> n \<le> length (rd_buf r) \<Longrightarrow>
   healthy (consume n r) \<and> stream_of (consume n r) = drop n (stream_of r)"
  by (simp add: healthy_def consume_def stream_of_def)

lemma position_member: "position (\<lambda>b. b = x) c = Some i \<Longrightarrow> x \<in> set c"
  by (auto simp: position_Some)

lemma first_line_append:
  "first_line (c @ s) = (if LF \<in> set c then first_line c else c @ first_line s)"
proof (cases "position (\<lambda>b. b = LF) c")
  case None
  then have "LF \<notin> set c" by (auto simp: position_None)
  with None show ?thesis
    by (cases "position (\<lambda>b. b = LF) s") (simp_all add: first_line_def position_append)
next
  case (Some i)
  then have "LF \<in> set c" "i < length c" by (rule position_member, rule position_less)
  with Some show ?thesis by (simp add: first_line_def position_append)
qed

text \<open>One chunk: it has the line feed, or the line goes on behind it.\<close>

lemma chunk_with_LF:
  assumes "fill_buf r = (Done (Inr c), r1)" and "rd_buf r1 = c" and "healthy r1" and "stream_of r1 = stream_of r"
    and "stream_of r = c @ rest" and "position (\<lambda>b. b = LF) c = Some i" and "start \<le> length buf"
  shows "let l = buf @ first_line (stream_of r) in
    if length l \<le> start + mx then
      \<exists>r'. read_line_loop mx start buf r = (Done (Inr (length l - start)), l, r') \<and>
           healthy r' \<and> stream_of r = first_line (stream_of r) @ stream_of r'
    else \<exists>b r'. read_line_loop mx start buf r = (Done (Inl SmtpLineTooLong), b, r')"
proof -
  have i: "i < length c" "LF \<in> set c" "c \<noteq> []" using assms(6) position_less position_member by fastforce+
  have l: "first_line (stream_of r) = take (i + 1) c"
    using assms(6) i by (simp add: assms(5) first_line_append) (simp add: first_line_def)
  from healthy_consume [OF assms(3), of "i + 1"] i assms(2,4) have h: "healthy (consume (i + 1) r1)"
    "stream_of (consume (i + 1) r1) = drop (i + 1) (stream_of r)" by auto
  have len: "length (buf @ first_line (stream_of r)) \<le> start + mx \<longleftrightarrow> \<not> mx < length buf - start + (i + 1)"
    using assms(7) i by (auto simp: l)
  note step = read_line_loop.simps [of mx start buf r]
  show ?thesis
  proof (cases "mx < length buf - start + (i + 1)")
    case True
    with len have "\<not> length (buf @ first_line (stream_of r)) \<le> start + mx" by simp
    then show ?thesis using True step assms(1,6) i(3) by (simp add: Let_def)
  next
    case False
    have "read_line_loop mx start buf r =
        (Done (Inr (length (buf @ first_line (stream_of r)) - start)), buf @ first_line (stream_of r), consume (i + 1) r1)"
      using False step assms(1,6) i(3) by (simp add: l Let_def)
    moreover have "stream_of r = first_line (stream_of r) @ stream_of (consume (i + 1) r1)"
      unfolding l using h(2) i by (simp add: assms(5))
    ultimately show ?thesis using len False h(1) by (auto simp: Let_def)
  qed
qed

lemma chunk_without_LF:
  assumes "fill_buf r = (Done (Inr c), r1)" and "c \<noteq> []" and "position (\<lambda>b. b = LF) c = None"
  shows "read_line_loop mx start buf r =
    (if mx < length buf - start + length c then (Done (Inl SmtpLineTooLong), buf, r1)
     else read_line_loop mx start (buf @ c) (consume (length c) r1))"
  using read_line_loop.simps [of mx start buf r] assms by (simp add: Let_def)

lemma read_line_loop_stream:
  "healthy r \<Longrightarrow> start \<le> length buf \<Longrightarrow> length buf \<le> start + mx \<Longrightarrow>
   (let l = buf @ first_line (stream_of r) in
    if length l \<le> start + mx then
      \<exists>r'. read_line_loop mx start buf r = (Done (Inr (length l - start)), l, r') \<and>
           healthy r' \<and> stream_of r = first_line (stream_of r) @ stream_of r'
    else \<exists>b r'. read_line_loop mx start buf r = (Done (Inl SmtpLineTooLong), b, r'))"
proof (induction mx start buf r rule: read_line_loop.induct)
  case (1 mx start buf r)
  obtain f r1 where f: "fill_buf r = (f, r1)" by fastforce
  from healthy_fill [OF f "1.prems"(1)] obtain c where c: "f = Done (Inr c)" "rd_buf r1 = c"
    "healthy r1" "stream_of r1 = stream_of r" "c = [] \<longleftrightarrow> stream_of r = []" by blast
  note fc = f [unfolded c(1)]
  have "stream_of r1 = c @ concat (map event_bytes (rd_events r1))" by (simp add: stream_of_def c(2))
  with c(4) obtain rest where rest: "stream_of r = c @ rest" by metis
  consider "c = []" | i where "position (\<lambda>b. b = LF) c = Some i" | "c \<noteq> []" "position (\<lambda>b. b = LF) c = None" by blast
  then show ?case
  proof cases
    case 1
    with c have "stream_of r = []" by simp
    then show ?thesis using read_line_loop.simps [of mx start buf r] fc 1 c(3,4) "1.prems" by (auto simp: first_line_def)
  next
    case (2 i)
    show ?thesis by (rule chunk_with_LF [OF fc c(2,3,4) rest 2 "1.prems"(2)])
  next
    case 3
    then have lf: "LF \<notin> set c" by (auto simp: position_None)
    have l: "first_line (c @ rest) = c @ first_line rest" using lf by (simp add: first_line_append)
    note step = chunk_without_LF [OF fc 3, of mx start buf]
    from healthy_consume [OF c(3), of "length c"] c(2,4) have h: "healthy (consume (length c) r1)"
      "stream_of (consume (length c) r1) = rest" by (simp_all add: rest)
    show ?thesis
    proof (cases "mx < length buf - start + length c")
      case True
      then have "\<not> length (buf @ c @ first_line rest) \<le> start + mx" using "1.prems"(2) by simp
      then show ?thesis using True step by (simp add: rest l Let_def)
    next
      case nb: False
      then have "start \<le> length (buf @ c)" "length (buf @ c) \<le> start + mx" using "1.prems"(2,3) by simp_all
      note "1.IH" [OF f [symmetric] c(1) refl 3(1) 3(2) refl nb h(1) this]
      moreover have "read_line_loop mx start buf r = read_line_loop mx start (buf @ c) (consume (length c) r1)"
        using nb step by simp
      ultimately show ?thesis using l by (simp only: h append_assoc rest same_append_eq)
    qed
  qed
qed

lemma read_line_stream:
  assumes "healthy r" and "length (first_line (stream_of r)) \<le> mx"
  obtains r' where "read_line_limited_bytes r [] mx = (Done (Inr (length (first_line (stream_of r)))), first_line (stream_of r), r')"
    and "healthy r'" and "stream_of r = first_line (stream_of r) @ stream_of r'"
proof -
  from read_line_loop_stream [OF assms(1), of 0 "[]" mx] assms(2)
  have "\<exists>r'. read_line_limited_bytes r [] mx = (Done (Inr (length (first_line (stream_of r)))), first_line (stream_of r), r') \<and>
      healthy r' \<and> stream_of r = first_line (stream_of r) @ stream_of r'"
    by (simp only: read_line_limited_bytes_def Let_def append_Nil list.size(3) add_0 diff_zero if_True le0)
  then show ?thesis using that by blast
qed

lemma read_line_long:
  assumes "healthy r" and "mx < length (first_line (stream_of r))"
  obtains b r' where "read_line_limited_bytes r [] mx = (Done (Inl SmtpLineTooLong), b, r')"
proof -
  from assms(2) have "\<not> length (first_line (stream_of r)) \<le> mx" by simp
  with read_line_loop_stream [OF assms(1), of 0 "[]" mx]
  have "\<exists>b r'. read_line_limited_bytes r [] mx = (Done (Inl SmtpLineTooLong), b, r')"
    by (simp only: read_line_limited_bytes_def Let_def append_Nil list.size(3) add_0 diff_zero if_False le0)
  then show ?thesis using that by blast
qed

lemma first_line_Nil [simp]: "first_line s = [] \<longleftrightarrow> s = []"
  by (cases s) (auto simp: first_line_def split: option.split)

lemma first_line_empty [simp]: "first_line [] = []"
  by (simp add: first_line_def)

definition is_line :: "bytes \<Rightarrow> bool" where
  "is_line l \<longleftrightarrow> l \<noteq> [] \<and> last l = LF \<and> LF \<notin> set (butlast l)"

lemma first_line_is_line: "is_line l \<Longrightarrow> first_line (l @ s) = l"
proof -
  assume l: "is_line l"
  then have "l = butlast l @ [LF]" by (metis is_line_def append_butlast_last_id)
  then obtain x where x: "l = x @ [LF]" "LF \<notin> set x" using l by (auto simp: is_line_def)
  then have "position (\<lambda>b. b = LF) x = None" by (auto simp: position_None)
  then show ?thesis by (simp add: x first_line_def position_append)
qed

lemma first_line_shape: "is_line (first_line s) \<or> first_line s = s"
proof (cases "position (\<lambda>b. b = LF) s")
  case (Some i)
  then have i: "i < length s" "s ! i = LF" "\<forall>b\<in>set (take i s). b \<noteq> LF" by (auto simp: position_Some)
  then have "take (i + 1) s = take i s @ [LF]" by (simp add: take_Suc_conv_app_nth)
  with i(3) Some show ?thesis by (auto simp: first_line_def is_line_def)
qed (simp add: first_line_def)

lemma terminator_is_line: "is_terminator t \<Longrightarrow> is_line t"
  by (auto simp: is_terminator_def is_line_def)

lemma read_data_eof: "healthy r \<Longrightarrow> stream_of r = [] \<Longrightarrow> \<exists>r'. read_data_loop mx data r = (Inl SmtpDataIncomplete, r')"
  by (rule read_line_stream [of r "usize_saturating_add (usize_saturating_sub mx (length data)) 4"])
    (simp_all add: read_data_loop.simps [of mx data r] Let_def)

subsection \<open>What is consumed from any connection\<close>

text \<open>
  From \<open>r\<close> to \<open>r'\<close> the bytes \<open>bs\<close> were consumed, and all the connection did on the way was to
  deliver the chunks \<open>cs\<close>: it did not fail, stall or end.
\<close>

definition consumes :: "buf_reader \<Rightarrow> bytes \<Rightarrow> buf_reader \<Rightarrow> bool" where
  "consumes r bs r' \<longleftrightarrow>
     (\<exists>cs. rd_events r = map Chunk cs @ rd_events r' \<and> rd_buf r @ concat cs = bs @ rd_buf r')"

lemma consumes_refl [simp]: "consumes r [] r"
  unfolding consumes_def by (intro exI [of _ "[]"]) simp

lemma consumes_trans [trans]:
  assumes "consumes r1 x r2" and "consumes r2 y r3"
  shows "consumes r1 (x @ y) r3"
proof -
  from assms obtain cs ds where
    "rd_events r1 = map Chunk cs @ rd_events r2" "rd_buf r1 @ concat cs = x @ rd_buf r2"
    "rd_events r2 = map Chunk ds @ rd_events r3" "rd_buf r2 @ concat ds = y @ rd_buf r3"
    by (auto simp: consumes_def)
  moreover from this have "rd_buf r1 @ concat (cs @ ds) = (x @ y) @ rd_buf r3"
    by (metis append.assoc concat_append)
  ultimately show ?thesis unfolding consumes_def by (intro exI [of _ "cs @ ds"]) simp
qed

lemma consumes_stream: "consumes r x r' \<Longrightarrow> stream_of r = x @ stream_of r'"
  by (auto simp: consumes_def stream_of_def comp_def)

lemma consumes_events: "consumes r x r' \<Longrightarrow> Chunk [] \<notin> set (rd_events r) \<Longrightarrow> Chunk [] \<notin> set (rd_events r')"
  by (auto simp: consumes_def)

lemma fill_buf_consumes: "fill_buf r = (Done (Inr c), r') \<Longrightarrow> c \<noteq> [] \<Longrightarrow> consumes r [] r' \<and> rd_buf r' = c"
proof (erule fill_buf_cases)
  fix d
  assume "c \<noteq> []" "Done (Inr c) = (Done (Inr d) :: bytes result timed)" "rd_buf r' = d"
    "rd_buf r = d \<and> r' = r \<or> rd_buf r = [] \<and> rd_events r = Chunk d # rd_events r'"
  then show ?thesis by (auto simp: consumes_def intro: exI [of _ "[d]"])
qed simp_all

lemma consume_consumes: "n \<le> length (rd_buf r) \<Longrightarrow> consumes r (take n (rd_buf r)) (consume n r)"
  unfolding consumes_def consume_def by (intro exI [of _ "[]"]) simp

lemma is_line_append: "is_line x \<Longrightarrow> LF \<notin> set c \<Longrightarrow> is_line (c @ x)"
  by (auto simp: is_line_def butlast_append)

lemma is_line_take:
  assumes "position (\<lambda>b. b = LF) c = Some i"
  shows "is_line (take (i + 1) c)" and "i + 1 \<le> length c"
proof -
  from assms have i: "i < length c" "c ! i = LF" "\<forall>b\<in>set (take i c). b \<noteq> LF" by (auto simp: position_Some)
  then show "i + 1 \<le> length c" by simp
  from i have "take (i + 1) c = take i c @ [LF]" by (simp add: take_Suc_conv_app_nth)
  with i(3) show "is_line (take (i + 1) c)" by (auto simp: is_line_def)
qed

text \<open>
  A line that is returned was consumed, and ends in a line feed unless the connection has ended;
  a line that is too long was consumed in part; every other error is the connection's.
\<close>

lemma read_line_loop_consumes:
  "read_line_loop mx start buf r = (q, buf', r') \<Longrightarrow> Chunk [] \<notin> set (rd_events r) \<Longrightarrow>
   (\<forall>n. q = Done (Inr n) \<longrightarrow>
      (\<exists>x. buf' = buf @ x \<and> consumes r x r' \<and> (is_line x \<or> rd_buf r' = [] \<and> rd_events r' = []))) \<and>
   (\<forall>e. q = Done (Inl e) \<longrightarrow> (\<exists>m. e = Io m) \<or> e = SmtpLineTooLong \<and> (\<exists>x. LF \<notin> set x \<and> consumes r x r'))"
proof (induction mx start buf r rule: read_line_loop.induct)
  case (1 mx start buf r)
  obtain f r1 where f: "fill_buf r = (f, r1)" by fastforce
  note step = "1.prems"(1) [unfolded read_line_loop.simps [of mx start buf r]]
  from f show ?case
  proof (cases rule: fill_buf_cases)
    case (some c)
    from fill_buf_consumes [of r c r1] f some(1,2) have c: "consumes r [] r1" "rd_buf r1 = c" by simp_all
    show ?thesis
    proof (cases "position (\<lambda>b. b = LF) c")
      case (Some i)
      note l = is_line_take [OF Some]
      have x: "consumes r (take (i + 1) c) (consume (i + 1) r1)"
        using consumes_trans [OF c(1) consume_consumes [of "i + 1" r1]] l(2) c(2) by simp
      from step f some(1,2) Some l(1) x c(1) show ?thesis
        by (simp only: prod.case timed.case sum.case Let_def option.case if_False)
            (auto split: if_splits intro: exI [of _ "[]"])
    next
      case None
      then have lf: "LF \<notin> set c" by (auto simp: position_None)
      show ?thesis
      proof (cases "mx < length buf - start + length c")
        case True
        with None step f some(1,2) c(1) show ?thesis by (auto simp: Let_def intro: exI [of _ "[]"])
      next
        case False
        let ?r = "consume (length c) r1"
        from False None step f some(1,2) have rec: "read_line_loop mx start (buf @ c) ?r = (q, buf', r')"
          by (simp add: Let_def)
        have x: "consumes r c ?r"
          using consumes_trans [OF c(1) consume_consumes [of "length c" r1]] c(2) by simp
        note ih = "1.IH" [OF f [symmetric] some(1) refl some(2) None refl False rec
          consumes_events [OF x "1.prems"(2)]]
        have "\<exists>y. buf' = buf @ y \<and> consumes r y r' \<and> (is_line y \<or> rd_buf r' = [] \<and> rd_events r' = [])"
          if "q = Done (Inr n)" for n
        proof -
          from ih that obtain y where "buf' = (buf @ c) @ y" "consumes ?r y r'"
            "is_line y \<or> rd_buf r' = [] \<and> rd_events r' = []" by blast
          with consumes_trans [OF x] is_line_append [OF _ lf] show ?thesis
            by (intro exI [of _ "c @ y"]) auto
        qed
        moreover have "(\<exists>m. e = Io m) \<or> e = SmtpLineTooLong \<and> (\<exists>y. LF \<notin> set y \<and> consumes r y r')" if "q = Done (Inl e)" for e
        proof -
          from ih that consider m where "e = Io m" | y where "e = SmtpLineTooLong" "LF \<notin> set y" "consumes ?r y r'" by auto
          then show ?thesis
          proof cases
            case 2
            with lf consumes_trans [OF x 2(3)] show ?thesis by (auto intro: exI [of _ "c @ y"])
          qed simp
        qed
        ultimately show ?thesis by simp
      qed
    qed
  next
    case eof
    with "1.prems"(2) have "rd_buf r1 = []" "rd_events r1 = []" "r1 = r" by auto
    with step f eof(1) show ?thesis by auto
  next
    case failed
    with step f show ?thesis by auto
  next
    case stalled
    with step f show ?thesis by auto
  qed
qed

lemma read_line_consumes:
  assumes "read_line_limited_bytes r [] mx = (Done (Inr n), x, r')" and "Chunk [] \<notin> set (rd_events r)"
  shows "consumes r x r'" and "is_line x \<or> rd_buf r' = [] \<and> rd_events r' = []"
  using read_line_loop_consumes [of mx 0 "[]" r] assms by (auto simp: read_line_limited_bytes_def)

lemma read_line_error:
  assumes "read_line_limited_bytes r [] mx = (Done (Inl e), x, r')" and "Chunk [] \<notin> set (rd_events r)"
  shows "(\<exists>m. e = Io m) \<or> e = SmtpLineTooLong \<and> (\<exists>y. LF \<notin> set y \<and> consumes r y r')"
  using read_line_loop_consumes [of mx 0 "[]" r] assms by (auto simp: read_line_limited_bytes_def)

lemma at_end_consumes: "consumes r x r' \<Longrightarrow> rd_buf r = [] \<Longrightarrow> rd_events r = [] \<Longrightarrow> x = []"
  by (auto simp: consumes_def)

text \<open>A block that is returned was consumed to the end of its terminator line.\<close>

lemma read_data_loop_consumes:
  "read_data_loop mx data r = (Inr d, r') \<Longrightarrow> Chunk [] \<notin> set (rd_events r) \<Longrightarrow>
   \<exists>ls t. is_terminator t \<and> consumes r (concat ls @ t) r' \<and>
     (\<forall>l\<in>set ls. is_line l \<and> \<not> is_terminator l) \<and> d = data @ concat (map unstuff ls)"
proof (induction mx data r rule: read_data_loop.induct)
  case (1 mx data r)
  let ?m = "usize_saturating_add (usize_saturating_sub mx (length data)) 4"
  obtain q l r1 where f: "read_line_limited_bytes r [] ?m = (q, l, r1)" by (metis prod_cases3)
  note step = "1.prems"(1) [unfolded read_data_loop.simps [of mx data r] Let_def f]
  from step obtain n where n: "q = Done (Inr n)" "n \<noteq> 0" by (auto split: timed.splits sum.splits if_splits)
  note l = read_line_consumes [OF f [unfolded n(1)] "1.prems"(2)]
  show ?case
  proof (cases "is_terminator l")
    case True
    with step n have "d = data" "r' = r1" by auto
    with True l(1) show ?thesis by (intro exI [of _ "[]"] exI [of _ l]) simp
  next
    case False
    with step n have fits: "\<not> mx < length data + length (unstuff l)"
      and rec: "read_data_loop mx (data @ unstuff l) r1 = (Inr d, r')" by (auto split: if_splits)
    from "1.IH" [OF refl f [symmetric] n(1) refl refl n(2) False refl fits rec consumes_events [OF l(1) "1.prems"(2)]]
    obtain ls t where ls: "is_terminator t" "consumes r1 (concat ls @ t) r'"
      "\<forall>l\<in>set ls. is_line l \<and> \<not> is_terminator l" "d = (data @ unstuff l) @ concat (map unstuff ls)" by blast
    have "t \<noteq> []" using ls(1) by (auto simp: is_terminator_def)
    with at_end_consumes [OF ls(2)] l(2) have "is_line l" by auto
    with ls False consumes_trans [OF l(1) ls(2)] show ?thesis
      by (intro exI [of _ "l # ls"] exI [of _ t]) simp
  qed
qed

text \<open>A block that is too large was consumed in part: the connection is as it was left.\<close>

lemma read_data_loop_exceeded:
  "read_data_loop mx data r = (Inl SmtpSizeExceeded, r') \<Longrightarrow> Chunk [] \<notin> set (rd_events r) \<Longrightarrow>
   \<exists>x. consumes r x r'"
proof (induction mx data r rule: read_data_loop.induct)
  case (1 mx data r)
  let ?m = "usize_saturating_add (usize_saturating_sub mx (length data)) 4"
  obtain q l r1 where f: "read_line_limited_bytes r [] ?m = (q, l, r1)" by (metis prod_cases3)
  note step = "1.prems"(1) [unfolded read_data_loop.simps [of mx data r] Let_def f]
  show ?case
  proof (cases "\<exists>n. q = Done (Inr n)")
    case True
    then obtain n where n: "q = Done (Inr n)" by blast
    note l = read_line_consumes [OF f [unfolded n] "1.prems"(2)]
    show ?thesis
    proof (cases "r' = r1")
      case True
      with l(1) show ?thesis by blast
    next
      case False
      with step n have k: "n \<noteq> 0" "\<not> is_terminator l" "\<not> mx < length data + length (unstuff l)"
        and rec: "read_data_loop mx (data @ unstuff l) r1 = (Inl SmtpSizeExceeded, r')" by (auto split: if_splits)
      from "1.IH" [OF refl f [symmetric] n refl refl k(1,2) refl k(3) rec consumes_events [OF l(1) "1.prems"(2)]]
        consumes_trans [OF l(1)] show ?thesis by blast
    qed
  next
    case False
    with step obtain e where e: "q = Done (Inl e)" "r' = r1" "e = SmtpLineTooLong \<or> e = SmtpSizeExceeded"
      by (auto split: timed.splits sum.splits if_splits)
    with read_line_error [OF f [unfolded e(1)] "1.prems"(2)] show ?thesis by auto
  qed
qed

lemma read_data_consumes:
  assumes "read_data r mx = (Inr txt', r')" and "Chunk [] \<notin> set (rd_events r)"
  obtains ls t where "is_terminator t" "consumes r (concat ls @ t) r'"
    "\<forall>l\<in>set ls. is_line l \<and> \<not> is_terminator l" "txt' = from_utf8_lossy (concat (map unstuff ls))"
    "length (concat (map unstuff ls)) \<le> mx"
proof -
  from assms(1) obtain d where d: "read_data_loop mx [] r = (Inr d, r')" "txt' = from_utf8_lossy d"
    by (auto simp: read_data_def split: prod.splits sum.splits)
  from read_data_loop_consumes [OF d(1) assms(2)] read_data_loop_inv [OF d(1)] d(2) that show thesis by force
qed

lemma read_data_exceeded:
  "read_data r mx = (Inl SmtpSizeExceeded, r') \<Longrightarrow> Chunk [] \<notin> set (rd_events r) \<Longrightarrow> \<exists>x. consumes r x r'"
  using read_data_loop_exceeded [of mx "[]" r] by (auto simp: read_data_def split: prod.splits sum.splits)

lemma healthy_no_empty: "healthy r \<Longrightarrow> Chunk [] \<notin> set (rd_events r)"
  by (auto simp: healthy_def)

lemma read_data_loop_sound:
  assumes "healthy r" and "read_data_loop mx data r = (Inr d, r')"
  shows "\<exists>ls t. is_terminator t \<and> stream_of r = concat ls @ t @ stream_of r' \<and>
     (\<forall>l\<in>set ls. is_line l \<and> \<not> is_terminator l) \<and> d = data @ concat (map unstuff ls)"
  using read_data_loop_consumes [OF assms(2) healthy_no_empty [OF assms(1)]] consumes_stream by fastforce

text \<open>What a client does to a line before it sends it in a block (RFC 5321, 4.5.2).\<close>

definition stuff :: "bytes \<Rightarrow> bytes" where
  "stuff l = (if starts_with l ''.'' then CHR ''.'' # l else l)"

lemma unstuff_stuff [simp]: "unstuff (stuff l) = l"
  by (auto simp: unstuff_def stuff_def starts_with_iff)

lemma stuff_is_line: "is_line l \<Longrightarrow> is_line (stuff l)"
  by (auto simp: stuff_def is_line_def)

lemma stuff_not_terminator: "is_line l \<Longrightarrow> \<not> is_terminator (stuff l)"
  by (auto simp: is_terminator_def stuff_def is_line_def starts_with_def)

lemma length_stuff: "length (stuff l) \<le> length l + 1"
  by (simp add: stuff_def)

lemma read_data_loop_complete:
  "healthy r \<Longrightarrow> stream_of r = concat (map stuff ls) @ ''.'' @ crlf @ rest \<Longrightarrow> \<forall>l\<in>set ls. is_line l \<Longrightarrow>
   length data + length (concat ls) \<le> mx \<Longrightarrow> mx + 4 \<le> usize_max \<Longrightarrow>
   \<exists>r'. read_data_loop mx data r = (Inr (data @ concat ls), r') \<and> healthy r' \<and> stream_of r' = rest"
proof (induction ls arbitrary: data r)
  case Nil
  let ?m = "usize_saturating_add (usize_saturating_sub mx (length data)) 4"
  have "first_line (stream_of r) = ''.'' @ crlf"
    using first_line_is_line [of "''.'' @ crlf" rest] Nil(2) by (simp add: is_line_def)
  moreover from this have "length (first_line (stream_of r)) \<le> ?m"
    using Nil by (simp add: usize_saturating_add_def usize_max_def)
  from Nil(1) this obtain r1 where "read_line_limited_bytes r [] ?m =
      (Done (Inr (length (first_line (stream_of r)))), first_line (stream_of r), r1)"
    "healthy r1" "stream_of r = first_line (stream_of r) @ stream_of r1" by (rule read_line_stream)
  ultimately show ?case using Nil(2)
    by (intro exI [of _ r1]) (simp add: read_data_loop.simps [of mx data r] Let_def is_terminator_def)
next
  case (Cons l ls)
  let ?m = "usize_saturating_add (usize_saturating_sub mx (length data)) 4"
  from Cons.prems(3) have l: "is_line l" by simp
  have f: "first_line (stream_of r) = stuff l"
    using first_line_is_line [OF stuff_is_line [OF l]] Cons.prems(2) by simp
  have "length (first_line (stream_of r)) \<le> ?m"
    using Cons.prems(4,5) length_stuff [of l] by (simp add: f usize_saturating_add_def usize_saturating_sub_def)
  with Cons.prems(1) obtain r1 where r0: "read_line_limited_bytes r [] ?m =
      (Done (Inr (length (first_line (stream_of r)))), first_line (stream_of r), r1)"
    "healthy r1" "stream_of r = first_line (stream_of r) @ stream_of r1" by (rule read_line_stream)
  then have r1: "read_line_limited_bytes r [] ?m = (Done (Inr (length (stuff l))), stuff l, r1)"
    "stream_of r = stuff l @ stream_of r1" unfolding f by simp_all
  have "stuff l \<noteq> []" using stuff_is_line [OF l] by (simp add: is_line_def)
  then have "read_data_loop mx data r = read_data_loop mx (data @ l) r1"
    using r1(1) stuff_not_terminator [OF l] Cons.prems(4)
    by (simp add: read_data_loop.simps [of mx data r] Let_def)
  moreover have "\<exists>r'. read_data_loop mx (data @ l) r1 = (Inr ((data @ l) @ concat ls), r') \<and> healthy r' \<and> stream_of r' = rest"
    by (rule Cons.IH) (use Cons.prems r0(2) r1(2) in simp_all)
  ultimately show ?case by simp
qed

text \<open>
  A block that outgrows the limit. The line \<open>l\<close> is the first with which it does; what is left
  of the stream begins with a part \<open>x\<close> of that line (as it was sent), which is empty when the
  line fits the reader's own limit, and depends on the chunks when it does not.
\<close>

lemma healthy_consumes: "healthy r \<Longrightarrow> consumes r x r' \<Longrightarrow> healthy r'"
  by (auto simp: healthy_def consumes_def)

lemma line_prefix:
  assumes "is_line l" and "l @ rest = y @ s" and "LF \<notin> set y"
  shows "\<exists>x. l = y @ x \<and> s = x @ rest"
proof -
  from assms(2) consider u where "l = y @ u" "s = u @ rest" | u where "y = l @ u" by (auto simp: append_eq_append_conv2)
  then show ?thesis
  proof cases
    case 2
    with assms(1,3) have "LF \<in> set y" by (metis Un_iff is_line_def last_in_set set_append)
    with assms(3) show ?thesis by contradiction
  qed blast
qed

lemma read_line_partial:
  assumes "healthy r" and "stream_of r = l @ rest" and "is_line l" and "mx < length l"
  obtains b r' y x where "read_line_limited_bytes r [] mx = (Done (Inl SmtpLineTooLong), b, r')"
    "healthy r'" "l = y @ x" "stream_of r' = x @ rest"
proof -
  have "mx < length (first_line (stream_of r))" using assms(2-4) by (simp add: first_line_is_line)
  with assms(1) obtain b r' where f: "read_line_limited_bytes r [] mx = (Done (Inl SmtpLineTooLong), b, r')"
    by (rule read_line_long)
  from read_line_error [OF f healthy_no_empty [OF assms(1)]] obtain y where
    y: "LF \<notin> set y" "consumes r y r'" by auto
  then have "l @ rest = y @ stream_of r'" using consumes_stream [OF y(2)] assms(2) by simp
  from line_prefix [OF assms(3) this y(1)] f healthy_consumes [OF assms(1) y(2)] that show thesis by blast
qed

lemma read_data_loop_overflow:
  "healthy r \<Longrightarrow> stream_of r = concat (map stuff ls) @ stuff l @ rest \<Longrightarrow> \<forall>k\<in>set (l # ls). is_line k \<Longrightarrow>
   length data + length (concat ls) \<le> mx \<Longrightarrow> mx < length data + length (concat ls) + length l \<Longrightarrow>
   mx + 4 \<le> usize_max \<Longrightarrow>
   \<exists>r' y x. read_data_loop mx data r = (Inl SmtpSizeExceeded, r') \<and> healthy r' \<and>
     stuff l = y @ x \<and> stream_of r' = x @ rest"
proof (induction ls arbitrary: data r)
  case Nil
  let ?m = "usize_saturating_add (usize_saturating_sub mx (length data)) 4"
  have l: "is_line l" using Nil.prems(3) by simp
  note sl = stuff_is_line [OF l]
  have st: "stream_of r = stuff l @ rest" using Nil.prems(2) by simp
  show ?case
  proof (cases "length (stuff l) \<le> ?m")
    case True
    have f: "first_line (stream_of r) = stuff l" using first_line_is_line [OF sl] st by simp
    with True have "length (first_line (stream_of r)) \<le> ?m" by simp
    with Nil.prems(1) obtain r1 where r1: "read_line_limited_bytes r [] ?m =
        (Done (Inr (length (first_line (stream_of r)))), first_line (stream_of r), r1)"
      "healthy r1" "stream_of r = first_line (stream_of r) @ stream_of r1" by (rule read_line_stream)
    have "stuff l \<noteq> []" using sl by (simp add: is_line_def)
    then have "read_data_loop mx data r = (Inl SmtpSizeExceeded, r1)"
      using r1(1) stuff_not_terminator [OF l] Nil.prems(5)
      by (simp add: f read_data_loop.simps [of mx data r] Let_def)
    moreover have "stream_of r1 = rest" using r1(3) [unfolded f] st by simp
    ultimately show ?thesis using r1(2) by (intro exI [of _ r1] exI [of _ "stuff l"] exI [of _ "[]"]) simp
  next
    case False
    then have "?m < length (stuff l)" by simp
    with Nil.prems(1) st sl obtain b r1 y x where r1:
      "read_line_limited_bytes r [] ?m = (Done (Inl SmtpLineTooLong), b, r1)"
      "healthy r1" "stuff l = y @ x" "stream_of r1 = x @ rest" by (rule read_line_partial)
    then have "read_data_loop mx data r = (Inl SmtpSizeExceeded, r1)"
      by (simp add: read_data_loop.simps [of mx data r] Let_def)
    with r1 show ?thesis by blast
  qed
next
  case (Cons k ls)
  let ?m = "usize_saturating_add (usize_saturating_sub mx (length data)) 4"
  have k: "is_line k" using Cons.prems(3) by simp
  have f: "first_line (stream_of r) = stuff k"
    using first_line_is_line [OF stuff_is_line [OF k]] Cons.prems(2) by simp
  have "length (first_line (stream_of r)) \<le> ?m"
    using Cons.prems(4,6) length_stuff [of k] by (simp add: f usize_saturating_add_def usize_saturating_sub_def)
  with Cons.prems(1) obtain r1 where r1: "read_line_limited_bytes r [] ?m =
      (Done (Inr (length (first_line (stream_of r)))), first_line (stream_of r), r1)"
    "healthy r1" "stream_of r = first_line (stream_of r) @ stream_of r1" by (rule read_line_stream)
  have "stuff k \<noteq> []" using stuff_is_line [OF k] by (simp add: is_line_def)
  then have "read_data_loop mx data r = read_data_loop mx (data @ k) r1"
    using r1(1) stuff_not_terminator [OF k] Cons.prems(4)
    by (simp add: f read_data_loop.simps [of mx data r] Let_def)
  moreover have "\<exists>r' y x. read_data_loop mx (data @ k) r1 = (Inl SmtpSizeExceeded, r') \<and> healthy r' \<and>
      stuff l = y @ x \<and> stream_of r' = x @ rest"
    by (rule Cons.IH) (use Cons.prems r1(2) r1(3) [unfolded f] in simp_all)
  ultimately show ?case by simp
qed

subsection \<open>Properties\<close>

text \<open>
  C26. What the line reader returns depends on the bytes of the stream alone, however the network
  cuts them into chunks: the first line with its terminator (or what is left at the end of the
  stream) when it fits, and consumes exactly that; the length error when it does not fit.
\<close>

theorem line_from_stream:
  assumes "healthy r"
  shows "(if length (first_line (stream_of r)) \<le> mx then
      (\<exists>r'. read_line_limited_bytes r [] mx = (Done (Inr (length (first_line (stream_of r)))), first_line (stream_of r), r') \<and>
         healthy r' \<and> stream_of r = first_line (stream_of r) @ stream_of r')
    else \<exists>b r'. read_line_limited_bytes r [] mx = (Done (Inl SmtpLineTooLong), b, r'))"
proof (cases "length (first_line (stream_of r)) \<le> mx")
  case True
  from read_line_stream [OF assms this] True show ?thesis by (metis (no_types, lifting))
next
  case False
  then have "mx < length (first_line (stream_of r))" by simp
  from read_line_long [OF assms this] False show ?thesis by (metis (no_types, lifting))
qed

definition ex_reader :: buf_reader where
  "ex_reader = \<lparr>rd_buf = ''.'', rd_events = [Chunk ''.a'', Chunk [CR], Chunk ([LF] @ ''.''), Chunk (crlf @ ''QU''), Chunk ''IT'']\<rparr>"

lemma ex_reader_healthy [simp]: "healthy ex_reader" "stream_of ex_reader = ''..a'' @ crlf @ ''.'' @ crlf @ ''QUIT''"
  by (simp_all add: ex_reader_def healthy_def stream_of_def)

theorem line_from_stream_witness:
  "\<exists>r'. read_line_limited_bytes ex_reader [] 5 = (Done (Inr 5), ''..a'' @ crlf, r') \<and> healthy r' \<and>
     stream_of r' = ''.'' @ crlf @ ''QUIT''"
proof -
  have "first_line (stream_of ex_reader) = ''..a'' @ crlf" by (simp add: first_line_def)
  with line_from_stream [OF ex_reader_healthy(1), of 5] show ?thesis by auto
qed

lemma read_data_ex:
  "\<exists>r'. read_data ex_reader 100 = (Inr (from_utf8_lossy (concat [''.a'' @ crlf])), r') \<and> healthy r' \<and> stream_of r' = ''QUIT''"
proof -
  obtain r' where "read_data_loop 100 [] ex_reader = (Inr ([] @ concat [''.a'' @ crlf]), r')" "healthy r'" "stream_of r' = ''QUIT''"
    using read_data_loop_complete [of ex_reader "[''.a'' @ crlf]" "''QUIT''" "[]" 100]
    by (auto simp: stuff_def starts_with_def is_line_def usize_max_def)
  then show ?thesis by (simp add: read_data_def)
qed

text \<open>
  C10. Round trip of the DATA block: the lines a client sends, with dots stuffed and a terminator
  behind them, arrive as they were (read as UTF-8), for every way the bytes are cut into
  chunks, and what follows the terminator is left for the next command.
\<close>

theorem data_roundtrip:
  assumes "healthy r" and "stream_of r = concat (map stuff ls) @ ''.'' @ crlf @ rest"
    and "\<forall>l\<in>set ls. is_line l" and "length (concat ls) \<le> max_size" and "max_size + 4 \<le> usize_max"
  shows "\<exists>r'. read_data r max_size = (Inr (from_utf8_lossy (concat ls)), r') \<and> healthy r' \<and> stream_of r' = rest"
proof -
  from read_data_loop_complete [OF assms(1,2,3) _ assms(5), of "[]"] assms(4)
  obtain r' where "read_data_loop max_size [] r = (Inr (concat ls), r')" "healthy r'" "stream_of r' = rest" by auto
  then show ?thesis by (simp add: read_data_def)
qed

theorem data_roundtrip_witness:
  "\<exists>r'. read_data ex_reader 100 = (Inr (from_utf8_lossy (concat [''.a'' @ crlf])), r') \<and> healthy r' \<and> stream_of r' = ''QUIT''"
  by (rule data_roundtrip) (simp_all add: stuff_def starts_with_def is_line_def usize_max_def)

text \<open>
  C25. No truncated and no oversized message, whatever the connection does: when a block is
  returned, its terminator line was read, and from the start of the block to the end of that
  line the connection delivered bytes only: it did not fail, stall or end. The text is that of
  exactly the lines before the terminator with dots unstuffed, none of which is a terminator
  (a line that only ends in a period is not), and its bytes are within the limit. So a block
  that is cut off by a timeout, a reset or the end of the connection is not returned. (An
  empty read is how a connection ends, so no chunk in the middle of one is empty.)
\<close>

theorem data_complete:
  assumes "Chunk [] \<notin> set (rd_events r)" and "read_data r max_size = (Inr text, r')"
  shows "\<exists>cs ls t. rd_events r = map Chunk cs @ rd_events r' \<and>
    rd_buf r @ concat cs = concat ls @ t @ rd_buf r' \<and> t \<in> {''.'' @ crlf, ''.'' @ [LF]} \<and>
    list_all (\<lambda>l. is_line l \<and> l \<notin> {''.'' @ crlf, ''.'' @ [LF]}) ls \<and>
    text = from_utf8_lossy (concat (map unstuff ls)) \<and> length (concat (map unstuff ls)) \<le> max_size"
  using assms(2,1)
proof (rule read_data_consumes)
  fix ls t
  assume "is_terminator t" "consumes r (concat ls @ t) r'" "\<forall>l\<in>set ls. is_line l \<and> \<not> is_terminator l"
    "text = from_utf8_lossy (concat (map unstuff ls))" "length (concat (map unstuff ls)) \<le> max_size"
  then show ?thesis by (auto simp: consumes_def is_terminator_def list_all_iff simp del: map_append concat_append)
qed

text \<open>In the example the connection fails after the block; a text line ends in a period.\<close>

definition ex_cut_reader :: buf_reader where
  "ex_cut_reader = \<lparr>rd_buf = ''a'', rd_events = [Chunk ''.'', Chunk (crlf @ ''.''), Chunk crlf, Read_error ''reset'', Chunk ''QUIT'']\<rparr>"

theorem data_complete_witness:
  "\<exists>cs ls t. rd_events ex_cut_reader = map Chunk cs @ [Read_error ''reset'', Chunk ''QUIT''] \<and>
    rd_buf ex_cut_reader @ concat cs = concat ls @ t \<and> t \<in> {''.'' @ crlf, ''.'' @ [LF]} \<and>
    ''a.'' @ crlf = from_utf8_lossy (concat (map unstuff ls))"
proof -
  have 1: "Chunk [] \<notin> set (rd_events ex_cut_reader)" by (simp add: ex_cut_reader_def)
  have 2: "read_data ex_cut_reader 100 =
      (Inr (''a.'' @ crlf), \<lparr>rd_buf = [], rd_events = [Read_error ''reset'', Chunk ''QUIT'']\<rparr>)"
    by (simp add: ex_cut_reader_def read_data_def read_data_loop.simps read_line_limited_bytes_def read_line_loop.simps
        fill_buf_def consume_def Let_def usize_saturating_add_def usize_saturating_sub_def usize_max_def
        is_terminator_def unstuff_def starts_with_def utf8_head_def byte_at_def)
  from data_complete [OF 1 2] show ?thesis by fastforce
qed

text \<open>
  C27. Bounded memory: whatever the client sends, and however the connection fails or stalls, the
  line buffer grows by at most the given number of bytes, and the reported count is what was
  appended.
\<close>

theorem line_memory_bounded:
  assumes "read_line_limited_bytes r buf max_bytes = (q, buf', r')"
  shows "length buf' \<le> length buf + max_bytes \<and> (\<forall>n. q = Done (Inr n) \<longrightarrow> length buf' = length buf + n)"
proof -
  from assms have "read_line_loop max_bytes (length buf) buf r = (q, buf', r')"
    by (simp only: read_line_limited_bytes_def)
  note inv = read_line_loop_inv [OF this]
  then have "length buf' \<le> length buf + max_bytes" "length buf \<le> length buf'" by simp_all
  moreover have "n = length buf' - length buf" if "q = Done (Inr n)" for n using inv that by simp
  ultimately show ?thesis by fastforce
qed

theorem line_memory_bounded_witness:
  "length (''..a'' @ crlf) \<le> length ([] :: bytes) + 5 \<and> length (''..a'' @ crlf) = length ([] :: bytes) + 5"
proof -
  have l: "first_line (stream_of ex_reader) = ''..a'' @ crlf" by (simp add: first_line_def)
  then have "length (first_line (stream_of ex_reader)) \<le> 5" by simp
  with ex_reader_healthy(1) obtain r' where "read_line_limited_bytes ex_reader [] 5 =
      (Done (Inr (length (first_line (stream_of ex_reader)))), first_line (stream_of ex_reader), r')"
    by (rule read_line_stream)
  then have "read_line_limited_bytes ex_reader [] 5 = (Done (Inr 5), ''..a'' @ crlf, r')" unfolding l by simp
  from line_memory_bounded [OF this] show ?thesis by blast
qed

end
