(* ===== verification/Html.thy ===== *)
theory Html
  imports Errors
begin

section \<open>HTML reduced to text (src/smtp/mime.rs, second half)\<close>

text \<open>
  The fallback for mail without a plain-text part: drop the content of a few elements, turn
  block-level tags into line breaks, decode entities, and tidy the white space. Each function
  of the source is one function here; the loops that move a cursor through the text recurse
  on the cursor or on the remaining text.

  Theorems: no tag survives, decoding undoes escaping, what the tidied text looks like, and
  that an element whose name merely starts with a dropped name is dropped as well.
\<close>

subsection \<open>Dropping elements\<close>

text \<open>
  One pass of \<open>strip_elements\<close> for one name, from the byte offset \<open>cursor\<close> on. The next
  cursor lies behind the closing tag, or at the end when the element or its closing tag is
  not closed.
\<close>

definition next_cursor :: "string \<Rightarrow> string \<Rightarrow> nat \<Rightarrow> nat" where
  "next_cursor name out start =
     (let lower = to_ascii_lowercase out; close = ''</'' @ name in
      case find_sub close (drop start lower) of
        Some e \<Rightarrow>
          (case position (\<lambda>c. c = CHR ''>'') (drop (start + e) lower) of
             Some gt \<Rightarrow> start + e + gt + 1
           | None \<Rightarrow> length out)
      | None \<Rightarrow> length out)"

lemma length_to_ascii_lowercase [simp]: "length (to_ascii_lowercase s) = length s"
  by (simp add: to_ascii_lowercase_def)

lemma next_cursor_gt: "start < length out \<Longrightarrow> start < next_cursor name out start"
  by (auto simp: next_cursor_def Let_def split: option.split)

lemma find_sub_drop_less:
  "find_sub p (drop i s) = Some k \<Longrightarrow> p \<noteq> [] \<Longrightarrow> i + k < length s"
  using find_sub_len [of p "drop i s" k] by (cases p) auto

function strip_element :: "string \<Rightarrow> string \<Rightarrow> nat \<Rightarrow> string" where
  "strip_element name out cursor =
     (case find_sub (CHR ''<'' # name) (drop cursor (to_ascii_lowercase out)) of
        None \<Rightarrow> drop cursor out
      | Some k \<Rightarrow>
          take k (drop cursor out) @ strip_element name out (next_cursor name out (cursor + k)))"
  by pat_completeness auto
termination
proof (relation "measure (\<lambda>(name, out, cursor). length out - cursor)", goal_cases)
  case 1
  show ?case by simp
next
  case (2 name out cursor k)
  then have "cursor + k < length out" using find_sub_drop_less by fastforce
  with next_cursor_gt [OF this, of name] show ?case by simp
qed

declare strip_element.simps [simp del]

definition strip_elements :: "string \<Rightarrow> string list \<Rightarrow> string" where
  "strip_elements html names = fold (\<lambda>name out. strip_element name out 0) names html"

subsection \<open>Tags\<close>

fun until_tag_break :: "string \<Rightarrow> string" where
  "until_tag_break [] = []"
| "until_tag_break (c # s) =
     (if ws_len (c # s) \<noteq> 0 \<or> c = CHR ''/'' \<or> c = CHR ''>'' then [] else c # until_tag_break s)"

definition breaks_line :: "string \<Rightarrow> bool" where
  "breaks_line tag =
     (let name = to_ascii_lowercase (until_tag_break (dropWhile (\<lambda>c. c = CHR ''/'') tag))
      in name \<in> set [''br'', ''p'', ''div'', ''tr'', ''li'', ''h1'', ''h2'', ''h3'', ''h4'', ''h5'', ''h6'',
                     ''table'', ''blockquote'', ''hr''])"

text \<open>The loop of \<open>html_to_text\<close>: a tag runs to the next \<open>>\<close> or to the end of the text.\<close>

function strip_tags :: "string \<Rightarrow> string" where
  "strip_tags [] = []"
| "strip_tags (c # s) =
     (if c \<noteq> CHR ''<'' then c # strip_tags s
      else
        (if breaks_line (takeWhile (\<lambda>x. x \<noteq> CHR ''>'') s) then [CHR 0x0A] else []) @
        strip_tags (drop 1 (dropWhile (\<lambda>x. x \<noteq> CHR ''>'') s)))"
  by pat_completeness auto
termination
  by (relation "measure length") (auto simp: less_Suc_eq_le le_diff_conv intro: le_trans [OF length_dropWhile_le])

subsection \<open>Entities\<close>

definition named_entity :: "string \<Rightarrow> string option" where
  "named_entity entity =
     (let e = to_ascii_lowercase entity in
      if e = ''amp'' then Some ''&''
      else if e = ''lt'' then Some ''<''
      else if e = ''gt'' then Some ''>''
      else if e = ''quot'' then Some [CHR 0x22]
      else if e = ''apos'' \<or> e = ''#39'' then Some [CHR 0x27]
      else if e = ''nbsp'' then Some '' ''
      else None)"

definition numeric_entity :: "string \<Rightarrow> string option" where
  "numeric_entity entity =
     (case strip_prefix ''#'' entity of
        None \<Rightarrow> None
      | Some digits \<Rightarrow>
          Option.bind
            (case digits of
               c # hex \<Rightarrow>
                 if c = CHR ''x'' \<or> c = CHR ''X'' then u32_from_str_radix 16 hex
                 else u32_from_str_radix 10 digits
             | [] \<Rightarrow> u32_from_str_radix 10 digits)
            char_from_u32)"

definition entity_end :: "string \<Rightarrow> nat option" where
  "entity_end tail =
     (case position (\<lambda>c. c = CHR '';'') (drop 1 tail) of
        Some i \<Rightarrow> if i + 1 \<le> 10 then Some (i + 1) else None
      | None \<Rightarrow> None)"

definition decode_entity :: "string \<Rightarrow> nat \<Rightarrow> string" where
  "decode_entity tail e =
     (let entity = take (e - 1) (drop 1 tail) in
      case named_entity entity of
        Some decoded \<Rightarrow> decoded
      | None \<Rightarrow> (case numeric_entity entity of Some decoded \<Rightarrow> decoded | None \<Rightarrow> take (e + 1) tail))"

function decode_entities :: "string \<Rightarrow> string" where
  "decode_entities [] = []"
| "decode_entities (c # s) =
     (if c \<noteq> CHR ''&'' then c # decode_entities s
      else
        (case entity_end (c # s) of
           None \<Rightarrow> CHR ''&'' # decode_entities s
         | Some e \<Rightarrow> decode_entity (c # s) e @ decode_entities (drop e s)))"
  by pat_completeness auto
termination
  by (relation "measure length") auto

subsection \<open>Tidying\<close>

definition collapse_spaces :: "string \<Rightarrow> string" where
  "collapse_spaces line = join '' '' (split_whitespace line)"

fun tidy_loop :: "string list \<Rightarrow> nat \<Rightarrow> string list \<Rightarrow> string list" where
  "tidy_loop [] blank_run ls = ls"
| "tidy_loop (l # text) blank_run ls =
     (let line = trim l in
      if line = [] then
        (if 1 < blank_run + 1 \<or> ls = [] then tidy_loop text (blank_run + 1) ls
         else tidy_loop text (blank_run + 1) (ls @ [[]]))
      else tidy_loop text 0 (ls @ [collapse_spaces line]))"

definition tidy_lines :: "string \<Rightarrow> string list" where
  "tidy_lines text = rev (dropWhile (\<lambda>l. l = []) (rev (tidy_loop (lines text) 0 [])))"

definition tidy :: "string \<Rightarrow> string" where
  "tidy text = join [CHR 0x0A] (tidy_lines text)"

definition normalise_newlines :: "string \<Rightarrow> string" where
  "normalise_newlines body = join [CHR 0x0A] (lines body)"

definition html_to_text :: "string \<Rightarrow> string" where
  "html_to_text html =
     tidy (decode_entities (strip_tags (strip_elements html [''script'', ''style'', ''head''])))"

subsection \<open>Dropped elements and tags\<close>

lemma strip_tags_no_tag: "CHR ''<'' \<notin> set (strip_tags s)"
  by (induction s rule: strip_tags.induct) auto

lemma strip_tags_plain: "CHR ''<'' \<notin> set s \<Longrightarrow> strip_tags s = s"
  by (induction s) auto

lemma strip_element_plain:
  assumes "CHR ''<'' \<notin> set s"
  shows "strip_element name s 0 = s"
proof -
  from assms have "CHR ''<'' \<notin> set (to_ascii_lowercase s)"
    by (auto simp: to_ascii_lowercase_def ascii_lower_lt dest: sym)
  then show ?thesis by (subst strip_element.simps) (simp add: find_sub_absent)
qed

lemma strip_elements_plain: "CHR ''<'' \<notin> set s \<Longrightarrow> strip_elements s names = s"
  by (induction names) (simp_all add: strip_elements_def strip_element_plain)

lemma next_cursor_le: "start \<le> length out \<Longrightarrow> next_cursor name out start \<le> length out"
  by (auto simp: next_cursor_def Let_def dest!: position_less split: option.split)

lemma strip_element_shift: "c \<le> length out \<Longrightarrow> strip_element name out c = strip_element name (drop c out) 0"
proof (induction "length out - c" arbitrary: c out rule: less_induct)
  case less
  let ?d = "drop c out" and ?p = "CHR ''<'' # name"
  have lower: "to_ascii_lowercase ?d = drop c (to_ascii_lowercase out)"
    by (simp add: to_ascii_lowercase_def drop_map)
  have cur: "next_cursor name out (c + k) = c + next_cursor name ?d k" if "c + k < length out" for k
    using that by (auto simp: next_cursor_def Let_def lower add_ac split: option.split)
  show ?case
  proof (cases "find_sub ?p (to_ascii_lowercase ?d)")
    case None
    then show ?thesis by (simp add: strip_element.simps [of name out c] strip_element.simps [of name ?d 0] lower)
  next
    case (Some k)
    then have k: "c + k < length out" using find_sub_drop_less [of ?p c "to_ascii_lowercase out" k] by (simp add: lower)
    have n: "next_cursor name ?d k \<le> length ?d" using k by (intro next_cursor_le) simp
    have g: "k < next_cursor name ?d k" using next_cursor_gt [of k ?d name] k by simp
    have "strip_element name out c = take k ?d @ strip_element name out (c + next_cursor name ?d k)"
      using Some cur [OF k] by (simp add: strip_element.simps [of name out c] lower)
    also have "strip_element name out (c + next_cursor name ?d k) = strip_element name (drop (c + next_cursor name ?d k) out) 0"
      using n g k by (intro less.hyps) auto
    also have "\<dots> = strip_element name ?d (next_cursor name ?d k)"
      using less.hyps [of ?d "next_cursor name ?d k"] n g k by (simp add: add.commute)
    finally show ?thesis using Some by (simp add: strip_element.simps [of name ?d 0])
  qed
qed

lemma strip_element_behind: "strip_element name (h @ b) (length h) = strip_element name b 0"
  using strip_element_shift [of "length h" "h @ b" name] by simp

text \<open>
  C38. An element on the drop list goes with all its content, however its tags are spelled
  (any mix of cases, attributes, white space before the closing bracket): the text before it
  and the result for the text after it are all that is left.
\<close>

theorem strip_element_drops:
  assumes a: "CHR ''<'' \<notin> set a" and name: "name \<in> set [''script'', ''style'', ''head'']"
    and content: "\<not> contains (to_ascii_lowercase content) (''</'' @ name)" and gap: "CHR ''>'' \<notin> set gap"
    and names: "to_ascii_lowercase open_name = name" "to_ascii_lowercase close_name = name"
  shows "strip_element name (a @ ''<'' @ open_name @ content @ ''</'' @ close_name @ gap @ ''>'' @ b) 0 =
    a @ strip_element name b 0"
proof -
  let ?out = "a @ ''<'' @ open_name @ content @ ''</'' @ close_name @ gap @ ''>'' @ b"
  let ?l = "to_ascii_lowercase" and ?k = "length a" and ?m = "Suc (length name + length content)"
  let ?e = "length (''</'' @ name @ gap)"
  have low: "?l ?out = ?l a @ (CHR ''<'' # name) @ ?l content @ (''</'' @ name) @ ?l gap @ ''>'' @ ?l b"
    using names by (simp add: to_ascii_lowercase_def ascii_lower_def)
  have len: "length open_name = length name" "length close_name = length name"
    using names by (metis length_to_ascii_lowercase)+
  have 1: "CHR ''<'' \<notin> set (?l a)"
    using a by (auto simp: to_ascii_lowercase_def ascii_lower_lt dest: sym)
  have 2: "CHR ''<'' \<notin> set name" "CHR ''>'' \<notin> set (''</'' @ name)" "hd name \<noteq> CHR ''/''" "name \<noteq> []"
    using name by auto
  have 3: "CHR ''>'' \<notin> set (?l gap)"
    using gap by (auto simp: to_ascii_lowercase_def ascii_lower_gt dest: sym)
  have "find_sub (CHR ''<'' # name) (?l ?out) = Some ?k"
    unfolding low find_sub_skip [OF 1] by (simp add: starts_with_iff)
  then have "strip_element name ?out 0 = a @ strip_element name ?out (next_cursor name ?out ?k)"
    by (subst strip_element.simps) simp
  also have "next_cursor name ?out ?k = ?k + ?m + ?e + 1"
  proof -
    have d: "drop ?k (?l ?out) = CHR ''<'' # name @ ?l content @ (CHR ''<'' # CHR ''/'' # name) @ ?l gap @ ''>'' @ ?l b"
      unfolding low by simp
    let ?r = "?l content @ CHR ''<'' # CHR ''/'' # name @ ?l gap @ ''>'' @ ?l b"
    have "find_sub (CHR ''<'' # CHR ''/'' # name) ?r = Some (length content)"
      using find_sub_shift [of "?l content" "CHR ''<''" "CHR ''/'' # name" "?l gap @ ''>'' @ ?l b"] content 2(1) by simp
    then have "find_sub (CHR ''<'' # CHR ''/'' # name) (name @ ?r) = Some (length name + length content)"
      by (simp add: find_sub_skip [OF 2(1)])
    moreover have "\<not> starts_with (CHR ''<'' # name @ ?r) (CHR ''<'' # CHR ''/'' # name)"
      using 2(3,4) by (cases name) (auto simp: starts_with_iff)
    ultimately have c: "find_sub (''</'' @ name) (drop ?k (?l ?out)) = Some ?m"
      unfolding d by simp
    have "drop (?k + ?m) (?l ?out) = (''</'' @ name @ ?l gap) @ CHR ''>'' # ?l b"
      unfolding low by simp
    then have "position (\<lambda>c. c = CHR ''>'') (drop (?k + ?m) (?l ?out)) = Some ?e"
      using position_skip [of "CHR ''>''" "''</'' @ name @ ?l gap" "?l b"] 2(2) 3 by simp
    with c show ?thesis by (simp add: next_cursor_def Let_def)
  qed
  also have "?k + ?m + ?e + 1 = length (a @ ''<'' @ open_name @ content @ ''</'' @ close_name @ gap @ ''>'')" (is "_ = length ?h")
    by (simp add: len)
  also have "strip_element name ?out (length ?h) = strip_element name b 0"
    using strip_element_behind [of name ?h b] by (simp only: append_assoc)
  finally show ?thesis .
qed

theorem strip_element_drops_witness:
  "strip_element ''script'' (''a'' @ ''<'' @ ''Script'' @ '' src=x>f(1<2);'' @ ''</'' @ ''SCRIPT'' @ '' '' @ ''>'' @ ''b'') 0 =
     ''a'' @ strip_element ''script'' ''b'' 0"
  by (rule strip_element_drops) code_simp+

subsection \<open>Escaped text\<close>

text \<open>The escaping an HTML writer applies to text.\<close>

fun escape_char :: "char \<Rightarrow> string" where
  "escape_char c =
     (if c = CHR ''&'' then ''&amp;''
      else if c = CHR ''<'' then ''&lt;''
      else if c = CHR ''>'' then ''&gt;''
      else if c = CHR 0x22 then ''&quot;''
      else if c = CHR 0x27 then ''&#39;''
      else [c])"

definition escape_html :: "string \<Rightarrow> string" where
  "escape_html s = concat (map escape_char s)"

lemma escape_no_tag: "CHR ''<'' \<notin> set (escape_html s)"
  by (induction s) (auto simp: escape_html_def)

lemma decode_entities_escaped:
  "decode_entities (escape_char c @ s) = c # decode_entities s"
  by (auto simp: entity_end_def decode_entity_def named_entity_def to_ascii_lowercase_def ascii_lower_def)

lemma decode_escape: "decode_entities (escape_html s) = s"
  by (induction s) (simp_all add: escape_html_def decode_entities_escaped del: escape_char.simps)

text \<open>
  C37. Text that was escaped for HTML comes out of \<open>html_to_text\<close> as the text itself, with its
  white space tidied: no character of it is taken for markup, and every entity is decoded once.
\<close>

theorem html_to_text_escape: "html_to_text (escape_html s) = tidy s"
  by (simp add: html_to_text_def strip_elements_plain strip_tags_plain escape_no_tag decode_escape)

subsection \<open>Tidied text\<close>

definition words :: "string list \<Rightarrow> string list" where
  "words ls = concat (map split_whitespace ls)"

text \<open>\<open>well_spaced b ls\<close>: no blank line follows another one, nor the start of the text if \<open>b\<close>.\<close>

fun well_spaced :: "bool \<Rightarrow> string list \<Rightarrow> bool" where
  "well_spaced after_blank [] = True"
| "well_spaced after_blank (l # ls) = (\<not> (after_blank \<and> l = []) \<and> well_spaced (l = []) ls)"

lemma well_spaced_snoc:
  "well_spaced b (ls @ [l]) \<longleftrightarrow>
     well_spaced b ls \<and> (l \<noteq> [] \<or> \<not> (if ls = [] then b else last ls = []))"
  by (induction ls arbitrary: b) auto

lemma well_spaced_take: "well_spaced b (ls @ ks) \<Longrightarrow> well_spaced b ls"
  by (induction ls arbitrary: b) auto

lemma split_whitespace_collapse [simp]: "split_whitespace (collapse_spaces l) = split_whitespace l"
  unfolding collapse_spaces_def by (rule split_whitespace_join) (blast dest: split_whitespace_words)

lemma collapse_spaces_eq_Nil: "collapse_spaces l = [] \<longleftrightarrow> split_whitespace l = []"
  using split_whitespace_words [of _ l] by (auto simp: collapse_spaces_def join_eq_Nil)

lemma tidy_loop_spaced:
  "well_spaced True ls \<Longrightarrow> (ls \<noteq> [] \<longrightarrow> last ls = [] \<longrightarrow> 0 < n) \<Longrightarrow> well_spaced True (tidy_loop t n ls)"
proof (induction t n ls rule: tidy_loop.induct)
  case (1 n ls)
  then show ?case by simp
next
  case (2 l ts n ls)
  have "trim l \<noteq> [] \<Longrightarrow> collapse_spaces (trim l) \<noteq> []"
    using trim_blank [of l] by (auto simp: collapse_spaces_eq_Nil)
  with 2 show ?case by (auto simp: well_spaced_snoc Let_def)
qed

lemma tidy_loop_words: "words (tidy_loop t n ls) = words ls @ words t"
proof (induction t n ls rule: tidy_loop.induct)
  case (1 n ls)
  then show ?case by (simp add: words_def)
next
  case (2 l ts n ls)
  have "trim l = [] \<Longrightarrow> split_whitespace l = []"
    using split_whitespace_trim [of l] by (simp add: split_whitespace_Nil)
  with 2 show ?case by (auto simp: Let_def words_def split_whitespace_Nil)
qed

lemma tidy_loop_collapsed:
  "\<forall>l\<in>set ls. collapse_spaces l = l \<Longrightarrow> \<forall>l\<in>set (tidy_loop t n ls). collapse_spaces l = l"
proof (induction t n ls rule: tidy_loop.induct)
  case (1 n ls)
  then show ?case by simp
next
  case (2 l ts n ls)
  have "collapse_spaces [] = []" by (simp add: collapse_spaces_def split_whitespace_Nil)
  moreover have "collapse_spaces (collapse_spaces x) = collapse_spaces x" for x
    by (simp add: collapse_spaces_def [of "collapse_spaces x"]) (simp add: collapse_spaces_def)
  ultimately show ?case using 2 by (auto simp: Let_def)
qed

lemma tidy_lines_split:
  obtains bs where "tidy_loop (lines t) 0 [] = tidy_lines t @ bs" "\<forall>b\<in>set bs. b = []"
    "tidy_lines t = [] \<or> last (tidy_lines t) \<noteq> []"
proof -
  let ?r = "tidy_loop (lines t) 0 []" and ?p = "\<lambda>l. l = ([] :: string)"
  have "?r = tidy_lines t @ rev (takeWhile ?p (rev ?r))"
    unfolding tidy_lines_def by (metis rev_append rev_rev_ident takeWhile_dropWhile_id)
  moreover have "\<forall>b\<in>set (rev (takeWhile ?p (rev ?r))). b = []" by (auto dest: set_takeWhileD)
  moreover have "tidy_lines t = [] \<or> last (tidy_lines t) \<noteq> []"
    using hd_dropWhile [of ?p "rev ?r"] by (auto simp: tidy_lines_def last_rev)
  ultimately show ?thesis by (rule that)
qed

text \<open>
  Tidied text has no blank line at its start or end and never two in a row, its lines have
  single spaces between their words and none around them, and it has exactly the words of the
  original, in their order.
\<close>

lemma tidy_spacing:
  "well_spaced True (tidy_lines t) \<and> (tidy_lines t = [] \<or> last (tidy_lines t) \<noteq> []) \<and>
   (\<forall>l. l \<in> set (tidy_lines t) \<longrightarrow> join '' '' (split_whitespace l) = l) \<and>
   words (tidy_lines t) = words (lines t)"
proof -
  obtain bs where b: "tidy_loop (lines t) 0 [] = tidy_lines t @ bs" "\<forall>b\<in>set bs. b = []"
    and l: "tidy_lines t = [] \<or> last (tidy_lines t) \<noteq> []" by (rule tidy_lines_split)
  have "well_spaced True (tidy_lines t)"
    using tidy_loop_spaced [of "[]" 0 "lines t"] unfolding b(1) by (auto dest: well_spaced_take)
  moreover have "\<forall>l\<in>set (tidy_lines t). collapse_spaces l = l"
    using tidy_loop_collapsed [of "[]" "lines t" 0] unfolding b(1) by simp
  moreover have "words (tidy_lines t @ bs) = words (tidy_lines t)"
    using b(2) by (auto simp: words_def split_whitespace_Nil)
  then have "words (tidy_lines t) = words (lines t)"
    using tidy_loop_words [of "lines t" 0 "[]"] unfolding b(1) by (simp add: words_def [of "[]"])
  ultimately show ?thesis using l by (simp add: collapse_spaces_def)
qed

lemma tidy_spacing_witness:
  "let t = [CHR 0x0A] @ '' a  b '' @ [CHR 0x0D, CHR 0x0A, CHR 0x0A, CHR 0x0A] @ ''c'' @ [CHR 0x0A, CHR 0x0A] in
   tidy_lines t = [''a b'', '''', ''c''] \<and> join '' '' (split_whitespace ''a b'') = ''a b'' \<and>
   words (tidy_lines t) = words (lines t)"
proof -
  define t where "t = [CHR 0x0A] @ '' a  b '' @ [CHR 0x0D, CHR 0x0A, CHR 0x0A, CHR 0x0A] @ ''c'' @ [CHR 0x0A, CHR 0x0A]"
  have "tidy_lines t = [''a b'', '''', ''c'']" unfolding t_def by code_simp
  with tidy_spacing [of t] show ?thesis unfolding t_def [symmetric] Let_def by simp
qed

text \<open>
  The names on the drop list are compared as prefixes: the text of an HTML5
  \<^verbatim>\<open><header>\<close> element is lost, because \<^verbatim>\<open><header\<close> starts with \<^verbatim>\<open><head\<close>.
\<close>

lemma html_header_lost: "html_to_text ''<header>Disk failing</header>'' = ''''"
  by code_simp

end
