(* ===== verification/Mime.thy ===== *)
theory Mime
  imports Html
begin

section \<open>Picking the readable part of a MIME message (src/smtp/mime.rs, first half)\<close>

text \<open>
  The walk over the MIME tree. The tree is built by the crate \<open>mailparse\<close>, which is a
  parameter: \<open>'p\<close> is whatever a \<open>ParsedMail\<close> keeps beside the fields the source reads
  (\<open>ctype.mimetype\<close>, \<open>ctype.params\<close>, \<open>subparts\<close>), and the record \<open>mailparse\<close> holds the four
  functions the source calls. Nothing is assumed about them.

  Theorems: the two walks are a search and a filter over the leaves in depth-first order, a
  plain-text leaf wins over every HTML leaf, when there is no result at all, and that the
  name of every attachment is in the body.
\<close>

datatype disposition_type = Inline | Attachment | FormData | Extension string

record content_disposition =
  disposition :: disposition_type
  disp_params :: "string \<rightharpoonup> string"

datatype 'p parsed_mail =
  ParsedMail (mimetype: string) (ctype_params: "string \<rightharpoonup> string") (payload: 'p)
    (subparts: "'p parsed_mail list")

record 'p mailparse =
  parse_mail :: "bytes \<Rightarrow> 'p parsed_mail option"
  get_body :: "'p parsed_mail \<Rightarrow> string option"
  get_content_disposition :: "'p parsed_mail \<Rightarrow> content_disposition"
  get_first_value :: "'p parsed_mail \<Rightarrow> string \<Rightarrow> string option"

record mime_message =
  mime_subject :: "string option"
  mime_body :: string

subsection \<open>The walks\<close>

definition is_attachment :: "'p mailparse \<Rightarrow> 'p parsed_mail \<Rightarrow> bool" where
  "is_attachment mp mail =
     (if disposition (get_content_disposition mp mail) = Attachment then True
      else
        let m = to_ascii_lowercase (mimetype mail)
        in \<not> starts_with m ''text/'' \<and> \<not> starts_with m ''multipart/'')"

fun find_text :: "'p mailparse \<Rightarrow> 'p parsed_mail \<Rightarrow> string \<Rightarrow> 'p parsed_mail option"
  and find_text_parts :: "'p mailparse \<Rightarrow> 'p parsed_mail list \<Rightarrow> string \<Rightarrow> 'p parsed_mail option" where
  "find_text mp (ParsedMail mt ps b parts) want =
     (let mail = ParsedMail mt ps b parts in
      if parts = [] then
        (if eq_ignore_ascii_case (mimetype mail) want \<and> \<not> is_attachment mp mail then Some mail else None)
      else find_text_parts mp parts want)"
| "find_text_parts mp [] want = None"
| "find_text_parts mp (part # parts) want =
     (case find_text mp part want of
        Some found \<Rightarrow> Some found
      | None \<Rightarrow> find_text_parts mp parts want)"

definition attachment_name :: "'p mailparse \<Rightarrow> 'p parsed_mail \<Rightarrow> string" where
  "attachment_name mp mail =
     (let name =
        (case disp_params (get_content_disposition mp mail) ''filename'' of
           Some n \<Rightarrow> Some n
         | None \<Rightarrow> ctype_params mail ''name'')
      in case map_option trim name of
           Some n \<Rightarrow> if n \<noteq> [] then n else ''unnamed''
         | None \<Rightarrow> ''unnamed'')"

fun collect_attachments :: "'p mailparse \<Rightarrow> 'p parsed_mail \<Rightarrow> string list \<Rightarrow> string list"
  and collect_attachments_parts :: "'p mailparse \<Rightarrow> 'p parsed_mail list \<Rightarrow> string list \<Rightarrow> string list" where
  "collect_attachments mp (ParsedMail mt ps b parts) out =
     (let mail = ParsedMail mt ps b parts in
      if parts \<noteq> [] then collect_attachments_parts mp parts out
      else if \<not> is_attachment mp mail then out
      else out @ [attachment_name mp mail])"
| "collect_attachments_parts mp [] out = out"
| "collect_attachments_parts mp (part # parts) out =
     collect_attachments_parts mp parts (collect_attachments mp part out)"

definition describe_attachments :: "string list \<Rightarrow> string option" where
  "describe_attachments names =
     (if length names = 0 then None
      else if length names = 1 then Some (''[1 attachment: '' @ names ! 0 @ '']'')
      else Some (''['' @ nat_str (length names) @ '' attachments: '' @ join '', '' names @ '']''))"

definition text_body :: "'p mailparse \<Rightarrow> 'p parsed_mail \<Rightarrow> string option" where
  "text_body mp mail =
     map_option normalise_newlines
       (case Option.bind (find_text mp mail ''text/plain'') (get_body mp) of
          Some body \<Rightarrow> Some body
        | None \<Rightarrow>
            map_option html_to_text (Option.bind (find_text mp mail ''text/html'') (get_body mp)))"

definition parse :: "'p mailparse \<Rightarrow> string \<Rightarrow> mime_message option" where
  "parse mp data =
     (case parse_mail mp data of
        None \<Rightarrow> None
      | Some mail \<Rightarrow>
          let subject = get_first_value mp mail ''Subject'';
              txt = text_body mp mail;
              attachments = collect_attachments mp mail []
          in if txt = None \<and> attachments = [] then None
             else
               let body = (case txt of Some t \<Rightarrow> t | None \<Rightarrow> []);
                   body = (case describe_attachments attachments of
                             Some sfx \<Rightarrow> (if body \<noteq> [] then body @ [LF, LF] else body) @ sfx
                           | None \<Rightarrow> body)
               in Some \<lparr>mime_subject = subject, mime_body = body\<rparr>)"

subsection \<open>The leaves\<close>

fun leaves :: "'p parsed_mail \<Rightarrow> 'p parsed_mail list" where
  "leaves (ParsedMail mt ps b parts) =
     (if parts = [] then [ParsedMail mt ps b parts] else concat (map leaves parts))"

definition readable :: "'p mailparse \<Rightarrow> string \<Rightarrow> 'p parsed_mail \<Rightarrow> bool" where
  "readable mp want l \<longleftrightarrow> eq_ignore_ascii_case (mimetype l) want \<and> \<not> is_attachment mp l"

lemma find_append:
  "find P (xs @ ys) = (case find P xs of Some x \<Rightarrow> Some x | None \<Rightarrow> find P ys)"
  by (induction xs) simp_all

lemma find_text_leaves:
  "find_text mp mail want = find (readable mp want) (leaves mail)"
  "find_text_parts mp parts want = find (readable mp want) (concat (map leaves parts))"
  by (induction mp mail want and mp parts want rule: find_text_find_text_parts.induct)
    (auto simp: find_append Let_def readable_def split: option.split)

lemma collect_attachments_leaves:
  "collect_attachments mp mail out = out @ map (attachment_name mp) (filter (is_attachment mp) (leaves mail))"
  "collect_attachments_parts mp parts out =
     out @ map (attachment_name mp) (filter (is_attachment mp) (concat (map leaves parts)))"
  by (induction mp mail out and mp parts out rule: collect_attachments_collect_attachments_parts.induct)
    (auto simp: Let_def)

lemma leaves_leaf: "l \<in> set (leaves mail) \<Longrightarrow> subparts l = []"
  by (induction mail rule: leaves.induct) (auto split: if_splits)

lemma describe_attachments_None: "describe_attachments names = None \<longleftrightarrow> names = []"
  by (simp add: describe_attachments_def)

lemma contains_trans: "contains s t \<Longrightarrow> contains t u \<Longrightarrow> contains s u"
  unfolding contains_iff by (metis append.assoc)

lemma contains_middle: "contains (a @ s @ b) s"
  unfolding contains_iff by blast

lemma contains_append: "contains s t \<Longrightarrow> contains (a @ s) t"
  unfolding contains_iff by (metis append.assoc)

lemma contains_join: "x \<in> set xs \<Longrightarrow> contains (join sep xs) x"
proof (induction sep xs rule: join.induct)
  case (3 sep y z xs)
  show ?case
  proof (cases "x = y")
    case True
    then show ?thesis using contains_middle [of "[]" x] by simp
  next
    case False
    with 3 show ?thesis using contains_append [of _ x "y @ sep"] by simp
  qed
qed (use contains_middle [of "[]" _ "[]"] in auto)

lemma describe_attachments_names:
  assumes "describe_attachments names = Some sfx" and "n \<in> set names"
  shows "contains sfx n"
proof (cases "length names = 1")
  case True
  then obtain x where "names = [x]" by (cases names) auto
  with assms show ?thesis using contains_middle [of "''[1 attachment: ''" n "'']''"]
    by (simp add: describe_attachments_def)
next
  case False
  with assms have "sfx = (''['' @ nat_str (length names) @ '' attachments: '') @ join '', '' names @ '']''"
    by (auto simp: describe_attachments_def split: if_splits)
  then have "contains sfx (join '', '' names)" by (simp only: contains_middle)
  then show ?thesis using contains_join [OF assms(2)] by (rule contains_trans)
qed

subsection \<open>Properties\<close>

text \<open>
  C35. When some leaf of the message is readable plain text, the body is that of the first such
  leaf in depth-first order, whatever HTML or other parts stand before or after it; the
  subject is the header's, and the only thing added is the list of attachments.
\<close>

theorem plain_text_wins:
  assumes "parse_mail mp data = Some mail"
    and "leaves mail = before @ l # after" and "\<forall>x\<in>set before. \<not> readable mp ''text/plain'' x"
    and "readable mp ''text/plain'' l" and "get_body mp l = Some body"
  shows "\<exists>sfx. parse mp data = Some \<lparr>mime_subject = get_first_value mp mail ''Subject'',
           mime_body = normalise_newlines body @ sfx\<rparr> \<and>
         (sfx = [] \<longleftrightarrow> filter (is_attachment mp) (leaves mail) = [])"
proof -
  have "find (readable mp ''text/plain'') (leaves mail) = Some l"
  proof -
    have "find (readable mp ''text/plain'') before = None" using assms(3) by (simp add: find_None_iff)
    then show ?thesis using assms(2,4) by (simp add: find_append)
  qed
  then have t: "text_body mp mail = Some (normalise_newlines body)"
    using assms(5) by (simp add: text_body_def find_text_leaves)
  let ?a = "map (attachment_name mp) (filter (is_attachment mp) (leaves mail))"
  show ?thesis
  proof (cases "describe_attachments ?a")
    case None
    then have "filter (is_attachment mp) (leaves mail) = []"
      using describe_attachments_None [of ?a] by simp
    then show ?thesis using assms(1) t
      by (simp add: parse_def collect_attachments_leaves Let_def describe_attachments_def)
  next
    case (Some sfx)
    then have "sfx \<noteq> []" "filter (is_attachment mp) (leaves mail) \<noteq> []"
      by (auto simp: describe_attachments_def split: if_splits)
    then show ?thesis using assms(1) t Some
      by (intro exI [of _ "(if normalise_newlines body \<noteq> [] then [LF, LF] else []) @ sfx"])
        (simp add: parse_def collect_attachments_leaves Let_def)
  qed
qed

text \<open>
  The MIME path gives up, and leaves the message to the raw split, exactly when \<open>mailparse\<close>
  rejects the block, or when no leaf is an attachment and neither the first plain-text leaf
  nor the first HTML leaf has a body that can be decoded.
\<close>

lemma mime_gives_up:
  "parse mp data = None \<longleftrightarrow>
     (case parse_mail mp data of
        None \<Rightarrow> True
      | Some mail \<Rightarrow>
          filter (is_attachment mp) (leaves mail) = [] \<and>
          Option.bind (find (readable mp ''text/plain'') (leaves mail)) (get_body mp) = None \<and>
          Option.bind (find (readable mp ''text/html'') (leaves mail)) (get_body mp) = None)"
proof (cases "parse_mail mp data")
  case None
  then show ?thesis by (simp add: parse_def)
next
  case (Some mail)
  have "text_body mp mail = None \<longleftrightarrow>
      Option.bind (find (readable mp ''text/plain'') (leaves mail)) (get_body mp) = None \<and>
      Option.bind (find (readable mp ''text/html'') (leaves mail)) (get_body mp) = None"
    by (auto simp: text_body_def find_text_leaves split: option.split)
  with Some show ?thesis by (auto simp: parse_def Let_def collect_attachments_leaves)
qed

text \<open>
  C36. No attachment is passed over silently: the body that is forwarded contains the name of
  every attachment leaf of the message.
\<close>

theorem attachments_noted:
  assumes "parse_mail mp data = Some mail" and "l \<in> set (leaves mail)" and "is_attachment mp l"
  shows "\<exists>m. parse mp data = Some m \<and> contains (mime_body m) (attachment_name mp l)"
proof -
  let ?a = "map (attachment_name mp) (filter (is_attachment mp) (leaves mail))"
  have n: "attachment_name mp l \<in> set ?a" using assms(2,3) by auto
  then obtain sfx where d: "describe_attachments ?a = Some sfx"
    using describe_attachments_None [of ?a] by (cases "describe_attachments ?a") (auto simp: filter_empty_conv)
  have "\<exists>m. parse mp data = Some m \<and> (\<exists>pre. mime_body m = pre @ sfx)"
    using assms(1) d n by (auto simp: parse_def collect_attachments_leaves Let_def filter_empty_conv)
  then show ?thesis
    using describe_attachments_names [OF d n] contains_append by metis
qed

text \<open>A message with an HTML part, a plain-text part and an attachment, and a parser that yields it.\<close>

definition ex_parts :: "string parsed_mail list" where
  "ex_parts =
     [ParsedMail ''text/html'' Map.empty ''<p>hi</p>'' [],
      ParsedMail ''TEXT/Plain'' Map.empty ''hi'' [],
      ParsedMail ''application/pdf'' [''name'' \<mapsto> '' x.pdf ''] ''%PDF'' []]"

definition ex_mail :: "string parsed_mail" where
  "ex_mail = ParsedMail ''multipart/mixed'' Map.empty [] ex_parts"

definition ex_mailparse :: "string mailparse" where
  "ex_mailparse = \<lparr>parse_mail = (\<lambda>d. if d = [] then None else Some ex_mail), get_body = Some \<circ> payload,
     get_content_disposition = (\<lambda>_. \<lparr>disposition = Inline, disp_params = Map.empty\<rparr>),
     get_first_value = (\<lambda>_ _. Some ''greetings'')\<rparr>"

lemma ex_leaves: "leaves ex_mail = [ex_parts ! 0] @ (ex_parts ! 1) # [ex_parts ! 2]"
  by (simp add: ex_mail_def ex_parts_def numeral_2_eq_2)

theorem plain_text_wins_witness:
  "\<exists>sfx. parse ex_mailparse ''x'' = Some \<lparr>mime_subject = Some ''greetings'', mime_body = normalise_newlines ''hi'' @ sfx\<rparr> \<and>
     (sfx = [] \<longleftrightarrow> filter (is_attachment ex_mailparse) (leaves ex_mail) = [])"
proof -
  have 1: "parse_mail ex_mailparse ''x'' = Some ex_mail" "get_first_value ex_mailparse ex_mail ''Subject'' = Some ''greetings''"
    by (simp_all add: ex_mailparse_def)
  have 2: "\<forall>x\<in>set [ex_parts ! 0]. \<not> readable ex_mailparse ''text/plain'' x" by code_simp
  have 3: "readable ex_mailparse ''text/plain'' (ex_parts ! 1)" by code_simp
  have 4: "get_body ex_mailparse (ex_parts ! 1) = Some ''hi''" by code_simp
  from plain_text_wins [OF 1(1) ex_leaves 2 3 4] show ?thesis by (simp only: 1)
qed

theorem attachments_noted_witness:
  "\<exists>m. parse ex_mailparse ''x'' = Some m \<and> contains (mime_body m) ''x.pdf''"
proof -
  have 1: "parse_mail ex_mailparse ''x'' = Some ex_mail" by (simp add: ex_mailparse_def)
  have 2: "ex_parts ! 2 \<in> set (leaves ex_mail)" by (simp add: ex_leaves)
  have 3: "is_attachment ex_mailparse (ex_parts ! 2)" by code_simp
  have 4: "attachment_name ex_mailparse (ex_parts ! 2) = ''x.pdf''" by code_simp
  from attachments_noted [OF 1 2 3] show ?thesis by (simp only: 4)
qed

end
