(* ===== verification/Parser.thy ===== *)
theory Parser
  imports Mime Store
begin

section \<open>From the envelope and the DATA block to a message (src/smtp/parser.rs)\<close>

text \<open>
  \<open>parse_data\<close> and the raw header/body split it falls back to. The loop over the lines of the
  block is a fold over a record with the four mutable variables of the source.

  Theorems: what becomes of the envelope, and what the raw split recovers from a block with
  headers, a blank line and a body.
\<close>

record split_state =
  subject :: "string option"
  in_headers :: bool
  body_lines :: "string list"
  last_header :: "string option"

definition is_continuation :: "string \<Rightarrow> bool" where
  "is_continuation line \<longleftrightarrow> starts_with line '' '' \<or> starts_with line [TAB]"

definition header_name :: "string \<Rightarrow> string" where
  "header_name line = to_ascii_lowercase (trim (takeWhile (\<lambda>c. c \<noteq> CHR '':'') line))"

definition header_value :: "string \<Rightarrow> string" where
  "header_value line = trim (drop 1 (dropWhile (\<lambda>c. c \<noteq> CHR '':'') line))"

definition extract_line :: "string \<Rightarrow> split_state \<Rightarrow> split_state" where
  "extract_line line s =
     (if in_headers s then
        (if trim line = [] then s\<lparr>in_headers := False\<rparr>
         else if is_continuation line then
           (if last_header s = Some ''subject'' then
              (case subject s of
                 Some existing \<Rightarrow> s\<lparr>subject := Some (existing @ '' '' @ trim line)\<rparr>
               | None \<Rightarrow> s)
            else s)
         else
           let name = header_name line; val = header_value line;
               s = (if name = ''subject'' then s\<lparr>subject := Some val\<rparr> else s)
           in s\<lparr>last_header := Some name\<rparr>)
      else s\<lparr>body_lines := body_lines s @ [line]\<rparr>)"

definition extract_subject_and_body :: "string \<Rightarrow> string option \<times> string" where
  "extract_subject_and_body data =
     (let s = fold extract_line (lines data)
                \<lparr>subject = None, in_headers = True, body_lines = [], last_header = None\<rparr>
      in (subject s, join [LF] (body_lines s)))"

definition parse_data :: "'p mailparse \<Rightarrow> string option \<Rightarrow> string list \<Rightarrow> string \<Rightarrow> message" where
  "parse_data mp frm to data =
     (let (subj, body) =
        (case parse mp data of
           Some parsed \<Rightarrow> (mime_subject parsed, mime_body parsed)
         | None \<Rightarrow> extract_subject_and_body data);
        frm = (case frm of Some addr \<Rightarrow> if addr \<noteq> [] then Some addr else None | None \<Rightarrow> None)
      in \<lparr>msg_from = frm, msg_to = to, msg_subject = subj, msg_body = body\<rparr>)"

subsection \<open>The loop over the lines\<close>

lemma extract_body:
  "\<not> in_headers s \<Longrightarrow> fold extract_line ls s = s\<lparr>body_lines := body_lines s @ ls\<rparr>"
proof (induction ls arbitrary: s)
  case Nil
  then show ?case by simp
next
  case (Cons l ls)
  then show ?case by (simp add: extract_line_def [of l])
qed

lemma extract_headers:
  "in_headers s \<Longrightarrow> \<forall>h\<in>set hs. trim h \<noteq> [] \<Longrightarrow>
   in_headers (fold extract_line hs s) \<and> body_lines (fold extract_line hs s) = body_lines s"
proof (induction hs arbitrary: s)
  case Nil
  then show ?case by simp
next
  case (Cons h hs)
  then have "in_headers (extract_line h s)" "body_lines (extract_line h s) = body_lines s"
    by (auto simp: extract_line_def Let_def split: option.split)
  with Cons show ?case by simp
qed

text \<open>The continuation lines of a subject are appended to it, separated by a space.\<close>

definition unfolded :: "string \<Rightarrow> string list \<Rightarrow> string" where
  "unfolded v conts = fold (\<lambda>l acc. acc @ '' '' @ trim l) conts v"

lemma extract_continuations:
  "in_headers s \<Longrightarrow> subject s = Some v \<Longrightarrow> last_header s = Some ''subject'' \<Longrightarrow>
   \<forall>l\<in>set conts. is_continuation l \<and> trim l \<noteq> [] \<Longrightarrow>
   fold extract_line conts s = s\<lparr>subject := Some (unfolded v conts)\<rparr>"
proof (induction conts arbitrary: s v)
  case Nil
  then show ?case by (simp add: unfolded_def)
next
  case (Cons l conts)
  have l: "extract_line l s = s\<lparr>subject := Some (v @ '' '' @ trim l)\<rparr>"
    using Cons.prems by (simp add: extract_line_def)
  have u: "unfolded v (l # conts) = unfolded (v @ '' '' @ trim l) conts" by (simp add: unfolded_def)
  have "fold extract_line conts (extract_line l s) =
      (extract_line l s)\<lparr>subject := Some (unfolded (v @ '' '' @ trim l) conts)\<rparr>"
    by (rule Cons.IH) (use Cons.prems in \<open>simp_all add: l\<close>)
  then show ?case by (simp add: u l)
qed

text \<open>Headers with another name leave the subject alone.\<close>

lemma extract_other_headers:
  "in_headers s \<Longrightarrow> (last_header s = Some ''subject'' \<Longrightarrow> hs = [] \<or> \<not> is_continuation (hd hs)) \<Longrightarrow>
   \<forall>h\<in>set hs. trim h \<noteq> [] \<and> (is_continuation h \<or> header_name h \<noteq> ''subject'') \<Longrightarrow>
   subject (fold extract_line hs s) = subject s"
proof (induction hs arbitrary: s)
  case Nil
  then show ?case by simp
next
  case (Cons h hs)
  have "in_headers (extract_line h s)" "last_header (extract_line h s) \<noteq> Some ''subject''"
    "subject (extract_line h s) = subject s"
    using Cons.prems by (auto simp: extract_line_def Let_def split: option.split)
  with Cons.prems Cons.IH [of "extract_line h s"] show ?case by simp
qed

subsection \<open>Properties\<close>

text \<open>
  C39. The raw split recovers the message that was sent: for a block of header lines, a blank
  line and body lines, the body is exactly the body lines (blank ones included), and the
  subject is the value of the last Subject header with its continuation lines unfolded, in
  whatever case its name is written and whatever headers surround it.
\<close>

theorem raw_split:
  assumes "lines data = (pre @ h # conts @ post) @ blank # body"
    and "\<forall>x\<in>set (pre @ h # conts @ post). trim x \<noteq> []" and "trim blank = []"
    and "\<not> is_continuation h" and "header_name h = ''subject''"
    and "\<forall>x\<in>set conts. is_continuation x" and "post = [] \<or> \<not> is_continuation (hd post)"
    and "\<forall>x\<in>set post. is_continuation x \<or> header_name x \<noteq> ''subject''"
  shows "extract_subject_and_body data = (Some (unfolded (header_value h) conts), join [LF] body)"
proof -
  define s0 where "s0 = \<lparr>subject = None, in_headers = True, body_lines = [], last_header = None\<rparr>"
  define s1 where "s1 = fold extract_line pre s0"
  define s2 where "s2 = extract_line h s1"
  define s3 where "s3 = fold extract_line conts s2"
  define s4 where "s4 = fold extract_line post s3"
  have b1: "in_headers s1 \<and> body_lines s1 = []"
    unfolding s1_def using extract_headers [of s0 pre] assms(2) by (simp add: s0_def)
  have s2: "s2 = s1\<lparr>subject := Some (header_value h), last_header := Some ''subject''\<rparr>"
    unfolding s2_def using b1 assms(2,4,5) by (simp add: extract_line_def Let_def)
  have s3: "s3 = s2\<lparr>subject := Some (unfolded (header_value h) conts)\<rparr>"
    unfolding s3_def by (rule extract_continuations) (use b1 assms(2,6) in \<open>simp_all add: s2\<close>)
  have s4: "subject s4 = Some (unfolded (header_value h) conts)" "in_headers s4 \<and> body_lines s4 = []"
    unfolding s4_def
    using extract_other_headers [of s3 post] extract_headers [of s3 post] b1 assms(2,7,8)
    by (simp_all add: s2 s3)
  have "extract_line blank s4 = s4\<lparr>in_headers := False\<rparr>"
    using s4(2) assms(3) by (simp add: extract_line_def)
  then have "fold extract_line (lines data) s0 = s4\<lparr>in_headers := False, body_lines := body\<rparr>"
    unfolding assms(1) using s4(2)
    by (simp add: s1_def [symmetric] s2_def [symmetric] s3_def [symmetric] s4_def [symmetric] extract_body)
  then show ?thesis using s4(1) by (simp add: extract_subject_and_body_def s0_def Let_def)
qed

definition ex_block :: string where
  "ex_block = ''From: cron'' @ crlf @ ''SUBJECT: disk'' @ crlf @ '' full'' @ crlf @ ''To: x'' @ crlf @ crlf @
     ''a: b'' @ crlf @ crlf @ ''c'' @ crlf"

theorem raw_split_witness: "extract_subject_and_body ex_block = (Some ''disk full'', ''a: b'' @ [LF, LF] @ ''c'')"
proof -
  have "extract_subject_and_body ex_block =
      (Some (unfolded (header_value ''SUBJECT: disk'') ['' full'']), join [LF] [''a: b'', [], ''c''])"
    by (rule raw_split [of _ "[''From: cron'']" _ _ "[''To: x'']" "[]"]) code_simp+
  moreover have "unfolded (header_value ''SUBJECT: disk'') ['' full''] = ''disk full''" by code_simp
  ultimately show ?thesis by simp
qed

text \<open>
  The message keeps every envelope recipient in order, and its sender is the one of
  \<open>MAIL FROM\<close> except for the null sender \<open><>\<close>, which becomes \<open>None\<close>; its subject and body
  are those of the MIME path, or of the raw split when the MIME path gives up, so that a
  message is built from every block.
\<close>

lemma parse_data_envelope:
  "msg_to (parse_data mp frm to data) = to \<and>
   msg_from (parse_data mp frm to data) = (if frm = Some [] then None else frm) \<and>
   (msg_subject (parse_data mp frm to data), msg_body (parse_data mp frm to data)) =
     (if parse mp data = None then extract_subject_and_body data
      else (mime_subject (the (parse mp data)), mime_body (the (parse mp data))))"
  by (auto simp: parse_data_def Let_def split: option.split prod.split)

end
