(* ===== verification/Smtp_Server.thy ===== *)
theory Smtp_Server
  imports Smtp_Reader Parser Settings
begin

section \<open>The SMTP session (src/smtp/server.rs, first half)\<close>

text \<open>
  One turn of the loop of \<open>handle_connection\<close> is the function \<open>session_turn\<close>: it reads one
  command line, and for \<open>DATA\<close> the block as well, writes the replies and may call
  \<open>enqueue\<close> once. The connection is a loop of turns, which ends because every turn consumes
  input. The state of a session is its reader, the replies written, the outcomes the
  environment has in store for writes (\<open>Some e\<close> a failure, an exhausted list success) and the
  envelope. The address syntax check of the crate \<open>validator\<close> is the parameter \<open>valid_email\<close>.

  Lemmas: what each command does to the envelope, that every turn of a live connection consumes
  input, and the loop of the connection. The theorems are in \<open>Smtp_Session\<close>.
\<close>

definition MAX_COMMAND_LINE_BYTES :: usize where
  "MAX_COMMAND_LINE_BYTES = 4096"

record session =
  s_reader :: buf_reader
  s_out :: "string list"
  s_faults :: "string option list"
  s_from :: "string option"
  s_rcpts :: "string list"

datatype turn = Continue | Close "unit result"

definition write_all :: "string \<Rightarrow> session \<Rightarrow> unit result \<times> session" where
  "write_all text s =
     (case s_faults s of
        [] \<Rightarrow> (Inr (), s\<lparr>s_out := s_out s @ [text]\<rparr>)
      | None # fs \<Rightarrow> (Inr (), s\<lparr>s_out := s_out s @ [text], s_faults := fs\<rparr>)
      | Some e # fs \<Rightarrow> (Inl (Io e), s\<lparr>s_faults := fs\<rparr>))"

text \<open>\<open>writer.write_all(...).await?\<close>, after which the turn goes on as \<open>t\<close>.\<close>

definition reply :: "string \<Rightarrow> turn \<Rightarrow> session \<Rightarrow> turn \<times> session" where
  "reply text t s =
     (case write_all (text @ crlf) s of
        (Inl e, s1) \<Rightarrow> (Close (Inl e), s1)
      | (Inr _, s1) \<Rightarrow> (t, s1))"

subsection \<open>Addresses\<close>

definition extract_address_after_colon :: "string \<Rightarrow> string option" where
  "extract_address_after_colon line =
     (case position (\<lambda>c. c = CHR '':'') line of
        None \<Rightarrow> None
      | Some colon_pos \<Rightarrow>
          let rest = trim (drop (colon_pos + 1) line) in
          (case strip_prefix ''<'' rest of
             Some path \<Rightarrow>
               (case position (\<lambda>c. c = CHR ''>'') path of
                  None \<Rightarrow> None
                | Some e \<Rightarrow> Some (take e path))
           | None \<Rightarrow> (case split_whitespace rest of [] \<Rightarrow> None | w # _ \<Rightarrow> Some w)))"

text \<open>The syntax test the two commands share: verb, keyword, colon.\<close>

definition has_path_syntax :: "string \<Rightarrow> string \<Rightarrow> string \<Rightarrow> bool" where
  "has_path_syntax verb keyword line =
     (case strip_prefix verb (to_uppercase line) of
        None \<Rightarrow> False
      | Some rest \<Rightarrow>
          (case strip_prefix keyword (trim_start rest) of
             None \<Rightarrow> False
           | Some rest \<Rightarrow> starts_with (trim_start rest) '':''))"

definition parse_mail_from :: "(string \<Rightarrow> bool) \<Rightarrow> string \<Rightarrow> string option" where
  "parse_mail_from valid_email line =
     (if \<not> has_path_syntax ''MAIL'' ''FROM'' line then None
      else
        (case extract_address_after_colon line of
           None \<Rightarrow> None
         | Some addr \<Rightarrow> if addr \<noteq> [] \<and> \<not> valid_email addr then None else Some addr))"

definition parse_rcpt_to :: "(string \<Rightarrow> bool) \<Rightarrow> string \<Rightarrow> string option" where
  "parse_rcpt_to valid_email line =
     (if \<not> has_path_syntax ''RCPT'' ''TO'' line then None
      else
        (case extract_address_after_colon line of
           None \<Rightarrow> None
         | Some addr \<Rightarrow> if addr = [] \<or> \<not> valid_email addr then None else Some addr))"

subsection \<open>One turn of the session\<close>

definition clear_envelope :: "session \<Rightarrow> session" where
  "clear_envelope s = s\<lparr>s_from := None, s_rcpts := []\<rparr>"

definition go_ahead :: string where "go_ahead = ''354 End data with <CR><LF>.<CR><LF>''"
definition ok_reply :: string where "ok_reply = ''250 OK''"

definition data_command ::
  "'p mailparse \<Rightarrow> smtp_config \<Rightarrow> session \<Rightarrow> message_store \<Rightarrow> turn \<times> session \<times> message_store" where
  "data_command mp cfg s st =
     (if s_from s = None \<or> s_rcpts s = [] then
        (case reply ''503 Bad sequence of commands'' Continue s of (t, s1) \<Rightarrow> (t, s1, st))
      else
        (case reply go_ahead Continue s of
           (Close r, s1) \<Rightarrow> (Close r, s1, st)
         | (Continue, s1) \<Rightarrow>
             (case read_data (s_reader s1) (max_message_size cfg) of
                (Inl e, r1) \<Rightarrow>
                  let s2 = s1\<lparr>s_reader := r1\<rparr> in
                  if e = SmtpSizeExceeded then
                    (case reply ''552 Message size exceeded'' Continue s2 of
                       (t, s3) \<Rightarrow> (t, if t = Continue then clear_envelope s3 else s3, st))
                  else (Close (Inl e), s2, st)
              | (Inr data, r1) \<Rightarrow>
                  let s2 = s1\<lparr>s_reader := r1\<rparr>;
                      m = parse_data mp (s_from s2) (s_rcpts s2) data
                  in
                  (case enqueue m st of
                     (res, st1) \<Rightarrow>
                       (case reply
                          (case res of Inr _ \<Rightarrow> ok_reply
                           | Inl _ \<Rightarrow> ''451 Requested action aborted: local error in processing'')
                          Continue s2 of
                          (t, s3) \<Rightarrow> (t, if t = Continue then clear_envelope s3 else s3, st1))))))"

definition command ::
  "'p mailparse \<Rightarrow> (string \<Rightarrow> bool) \<Rightarrow> smtp_config \<Rightarrow> string \<Rightarrow> session \<Rightarrow> message_store \<Rightarrow>
   turn \<times> session \<times> message_store" where
  "command mp valid_email cfg line s st =
     (let cmd = (case split_whitespace (to_uppercase line) of [] \<Rightarrow> [] | w # _ \<Rightarrow> w);
          say = (\<lambda>text t s. case reply text t s of (t, s1) \<Rightarrow> (t, s1, st))
      in
      if cmd = ''QUIT'' then say ''221 Bye'' (Close (Inr ())) s
      else if cmd = ''HELO'' then say ''250 chimney-post'' Continue s
      else if cmd = ''EHLO'' then
        say (''250-chimney-post'' @ crlf @ ''250 SIZE '' @ nat_str (max_message_size cfg)) Continue s
      else if cmd = ''RSET'' then say ok_reply Continue (clear_envelope s)
      else if cmd = ''NOOP'' then say ok_reply Continue s
      else if cmd = ''MAIL'' then
        (case parse_mail_from valid_email line of
           Some addr \<Rightarrow> say ok_reply Continue (s\<lparr>s_from := Some addr\<rparr>)
         | None \<Rightarrow> say ''501 Syntax error in MAIL FROM'' Continue s)
      else if cmd = ''RCPT'' then
        (case parse_rcpt_to valid_email line of
           Some addr \<Rightarrow> say ok_reply Continue (s\<lparr>s_rcpts := s_rcpts s @ [addr]\<rparr>)
         | None \<Rightarrow> say ''501 Syntax error in RCPT TO'' Continue s)
      else if cmd = ''DATA'' then data_command mp cfg s st
      else say ''502 Command not implemented'' Continue s)"

definition session_turn ::
  "'p mailparse \<Rightarrow> (string \<Rightarrow> bool) \<Rightarrow> smtp_config \<Rightarrow> session \<Rightarrow> message_store \<Rightarrow>
   turn \<times> session \<times> message_store" where
  "session_turn mp valid_email cfg s st =
     (case read_line_limited (s_reader s) [] MAX_COMMAND_LINE_BYTES of
        (q, buffer, r1) \<Rightarrow>
          let s1 = s\<lparr>s_reader := r1\<rparr> in
          (case q of
             Elapsed \<Rightarrow> (Close (Inl (Smtp ''SMTP session timed out'')), s1, st)
           | Done (Inl e) \<Rightarrow>
               if e = SmtpLineTooLong then
                 (case reply ''500 Line too long'' (Close (Inr ())) s1 of (t, s2) \<Rightarrow> (t, s2, st))
               else (Close (Inl e), s1, st)
           | Done (Inr n) \<Rightarrow>
               if n = 0 then (Close (Inr ()), s1, st)
               else
                 let line = trim_end_matches [CR, LF] buffer in
                 if line = [] then (Continue, s1, st)
                 else command mp valid_email cfg line s1 st))"

subsection \<open>The connection\<close>

lemma write_all_frame:
  "write_all text s = (q, s1) \<Longrightarrow>
   s_reader s1 = s_reader s \<and> s_from s1 = s_from s \<and> s_rcpts s1 = s_rcpts s \<and>
   s_out s1 = s_out s @ (case q of Inr _ \<Rightarrow> [text] | Inl _ \<Rightarrow> [])"
  by (auto simp: write_all_def split: list.splits option.splits)

lemma reply_frame:
  "reply text t s = (t', s1) \<Longrightarrow>
   s_reader s1 = s_reader s \<and> s_from s1 = s_from s \<and> s_rcpts s1 = s_rcpts s \<and>
   (t' = t \<and> s_out s1 = s_out s @ [text @ crlf] \<or> (\<exists>e. t' = Close (Inl e)) \<and> s_out s1 = s_out s)"
  using write_all_frame [of "text @ crlf" s]
  by (auto simp: reply_def split: prod.splits sum.splits)

lemma clear_envelope_frame [simp]:
  "s_reader (clear_envelope s) = s_reader s" "s_out (clear_envelope s) = s_out s"
  "s_from (clear_envelope s) = None" "s_rcpts (clear_envelope s) = []"
  by (simp_all add: clear_envelope_def)

text \<open>A reply after which the envelope is cleared, unless it could not be written.\<close>

lemma reply_and_clear:
  assumes "(case reply text Continue s of (t, s1) \<Rightarrow> (t, if t = Continue then clear_envelope s1 else s1, st)) = (t, s', st')"
  shows "st' = st \<and> s_reader s' = s_reader s \<and>
    (t = Continue \<and> s_from s' = None \<and> s_rcpts s' = [] \<and> s_out s' = s_out s @ [text @ crlf] \<or>
     (\<exists>e. t = Close (Inl e)) \<and> s_from s' = s_from s \<and> s_rcpts s' = s_rcpts s \<and> s_out s' = s_out s)"
proof -
  obtain t1 s1 where r: "reply text Continue s = (t1, s1)" by fastforce
  with assms have "t = t1" "s' = (if t1 = Continue then clear_envelope s1 else s1)" "st' = st" by auto
  with reply_frame [OF r] show ?thesis by auto
qed

text \<open>The ways a DATA command ends.\<close>

lemma data_command_cases:
  assumes "data_command mp cfg s st = (t, s', st')"
  obtains
    (bad_sequence) "s_from s = None \<or> s_rcpts s = []" "st' = st" "s_reader s' = s_reader s"
      "s_from s' = s_from s" "s_rcpts s' = s_rcpts s"
      "t = Continue \<and> s_out s' = s_out s @ [''503 Bad sequence of commands'' @ crlf] \<or>
       (\<exists>e. t = Close (Inl e)) \<and> s_out s' = s_out s"
  | (no_block) e where "s_from s \<noteq> None" "s_rcpts s \<noteq> []" "st' = st" "t = Close (Inl e)"
      "rd_size (s_reader s') \<le> rd_size (s_reader s)" "s_from s' = s_from s" "s_rcpts s' = s_rcpts s"
      "s_out s' = s_out s \<or> s_out s' = s_out s @ [go_ahead @ crlf]"
  | (too_large) r1 where "s_from s \<noteq> None" "s_rcpts s \<noteq> []" "st' = st"
      "read_data (s_reader s) (max_message_size cfg) = (Inl SmtpSizeExceeded, r1)" "s_reader s' = r1" "t = Continue"
      "s_from s' = None" "s_rcpts s' = []"
      "s_out s' = s_out s @ [go_ahead @ crlf, ''552 Message size exceeded'' @ crlf]"
  | (block) data r1 res where "s_from s \<noteq> None" "s_rcpts s \<noteq> []"
      "read_data (s_reader s) (max_message_size cfg) = (Inr data, r1)" "s_reader s' = r1"
      "enqueue (parse_data mp (s_from s) (s_rcpts s) data) st = (res, st')"
      "t = Continue \<and> s_from s' = None \<and> s_rcpts s' = [] \<and>
         s_out s' = s_out s @ [go_ahead @ crlf,
           (case res of Inr _ \<Rightarrow> ok_reply | Inl _ \<Rightarrow> ''451 Requested action aborted: local error in processing'') @ crlf] \<or>
       (\<exists>e. t = Close (Inl e)) \<and> s_from s' = s_from s \<and> s_rcpts s' = s_rcpts s \<and> s_out s' = s_out s @ [go_ahead @ crlf]"
proof (cases "s_from s = None \<or> s_rcpts s = []")
  case True
  obtain t1 s1 where r: "reply ''503 Bad sequence of commands'' Continue s = (t1, s1)" by fastforce
  from r True assms have "t = t1" "s' = s1" "st' = st" by (auto simp: data_command_def)
  with reply_frame [OF r] True show thesis by (intro bad_sequence) auto
next
  case env: False
  obtain t1 s1 where r: "reply go_ahead Continue s = (t1, s1)" by fastforce
  note f1 = reply_frame [OF r]
  obtain q r1 where d: "read_data (s_reader s) (max_message_size cfg) = (q, r1)" by fastforce
  note step = assms [unfolded data_command_def r, simplified env if_False prod.case]
  show thesis
  proof (cases t1)
    case (Close x)
    with step f1 env show thesis by (auto intro!: no_block)
  next
    case Continue
    with f1 have o1: "s_out s1 = s_out s @ [go_ahead @ crlf]" by auto
    show thesis
    proof (cases q)
      case (Inl e)
      show thesis
      proof (cases "e = SmtpSizeExceeded")
        case True
        with step Continue f1 d Inl reply_and_clear [of st "''552 Message size exceeded''" "s1\<lparr>s_reader := r1\<rparr>" t s' st']
        show thesis using env o1 read_data_size [OF d] by (auto simp: Let_def intro: too_large no_block)
      next
        case False
        with step Continue f1 d Inl have "t = Close (Inl e)" "s' = s1\<lparr>s_reader := r1\<rparr>" "st' = st" by (auto simp: Let_def)
        with f1 o1 env read_data_size [OF d] show thesis by (intro no_block [of e]) auto
      qed
    next
      case (Inr data)
      let ?m = "parse_data mp (s_from s) (s_rcpts s) data"
      obtain res st1 where e: "enqueue ?m st = (res, st1)" by fastforce
      let ?text = "case res of Inr _ \<Rightarrow> ok_reply | Inl _ \<Rightarrow> ''451 Requested action aborted: local error in processing''"
      from step Continue f1 d Inr e reply_and_clear [of st1 ?text "s1\<lparr>s_reader := r1\<rparr>" t s' st']
      show thesis using env o1 by (intro block [of data r1 res]) (auto simp: Let_def)
    qed
  qed
qed

lemma read_line_limited_cases:
  assumes "read_line_limited r [] mx = (q, line, r')"
  obtains (line) n where "q = Done (Inr n)" "length line = n" "rd_size r' + n \<le> rd_size r" "utf8_valid line"
      "read_line_limited_bytes r [] mx = (Done (Inr n), line, r')"
  | (error) e where "q = Done (Inl e)" "rd_size r' \<le> rd_size r"
  | (elapsed) "q = Elapsed" "rd_size r' \<le> rd_size r"
proof -
  obtain f raw r1 where f: "read_line_limited_bytes r [] mx = (f, raw, r1)" by (metis prod_cases3)
  note size = read_line_size [OF f]
  show thesis
  proof (cases f)
    case Elapsed
    with assms f size show thesis by (intro elapsed) (auto simp: read_line_limited_def)
  next
    case (Done a)
    show thesis
    proof (cases a)
      case (Inl e)
      with Done assms f size show thesis by (intro error [of e]) (auto simp: read_line_limited_def)
    next
      case (Inr n)
      show thesis
      proof (cases "utf8_valid raw")
        case True
        with Done Inr assms f size show thesis
          by (intro line [of n]) (auto simp: read_line_limited_def from_utf8_def)
      next
        case False
        with Done Inr assms f size show thesis
          by (intro error [of "Smtp ''invalid UTF-8 in SMTP command''"]) (auto simp: read_line_limited_def from_utf8_def)
      qed
    qed
  qed
qed

text \<open>
  The ways a turn goes: it leaves the store alone and changes the envelope by a valid address
  or by clearing it, or it is a DATA command.
\<close>

definition envelope_step :: "(string \<Rightarrow> bool) \<Rightarrow> string \<Rightarrow> session \<Rightarrow> session \<Rightarrow> bool" where
  "envelope_step v line s s' \<longleftrightarrow>
     s_from s' = s_from s \<and> s_rcpts s' = s_rcpts s \<or>
     s_from s' = None \<and> s_rcpts s' = [] \<or>
     (\<exists>a. parse_mail_from v line = Some a \<and> s_from s' = Some a \<and> s_rcpts s' = s_rcpts s) \<or>
     (\<exists>a. parse_rcpt_to v line = Some a \<and> s_from s' = s_from s \<and> s_rcpts s' = s_rcpts s @ [a])"

text \<open>A command that only replies, from a session that differs in the envelope.\<close>

definition only_replies :: "(string \<Rightarrow> bool) \<Rightarrow> string \<Rightarrow> session \<Rightarrow> message_store \<Rightarrow> turn \<times> session \<times> message_store \<Rightarrow> bool" where
  "only_replies v line s st out \<longleftrightarrow>
     (\<exists>rep t s0. out = (case reply rep t s0 of (t, s1) \<Rightarrow> (t, s1, st)) \<and> rep \<noteq> go_ahead \<and>
        s_reader s0 = s_reader s \<and> s_out s0 = s_out s \<and> envelope_step v line s s0)"

lemma only_repliesI:
  "rep \<noteq> go_ahead \<Longrightarrow> s_reader s0 = s_reader s \<Longrightarrow> s_out s0 = s_out s \<Longrightarrow> envelope_step v line s s0 \<Longrightarrow>
   only_replies v line s st (case reply rep t s0 of (t, s1) \<Rightarrow> (t, s1, st))"
  unfolding only_replies_def by blast

lemma command_replies:
  "only_replies v line s st (command mp v cfg line s st) \<or> command mp v cfg line s st = data_command mp cfg s st"
  unfolding command_def Let_def
  by (auto intro!: only_repliesI simp: envelope_step_def go_ahead_def ok_reply_def split: option.split)

lemma command_cases:
  assumes "command mp v cfg line s st = (t, s', st')"
  obtains
    (quiet) rep where "st' = st" "s_reader s' = s_reader s" "envelope_step v line s s'"
      "rep \<noteq> go_ahead" "s_out s' = s_out s @ [rep @ crlf] \<or> (\<exists>e. t = Close (Inl e)) \<and> s_out s' = s_out s"
  | (data) "data_command mp cfg s st = (t, s', st')"
proof (cases "command mp v cfg line s st = data_command mp cfg s st")
  case True
  with assms show thesis by (intro data) simp
next
  case False
  with command_replies assms obtain rep t0 s0 where
    s0: "(t, s', st') = (case reply rep t0 s0 of (t, s1) \<Rightarrow> (t, s1, st))" "rep \<noteq> go_ahead" "s_reader s0 = s_reader s"
      "s_out s0 = s_out s" "envelope_step v line s s0" unfolding only_replies_def by metis
  then have "reply rep t0 s0 = (t, s')" "st' = st" by (auto split: prod.splits)
  note f = reply_frame [OF this(1)] this(2)
  with s0(5) have "envelope_step v line s s'" by (simp add: envelope_step_def)
  with f s0(2-4) show thesis by (intro quiet [of rep]) auto
qed

text \<open>A command line has no line feed in it once its end is trimmed.\<close>

lemma read_line_loop_LF:
  "read_line_loop mx start buf r = (Done (Inr n), buf', r') \<Longrightarrow> LF \<notin> set buf \<Longrightarrow> LF \<notin> set (butlast buf')"
proof (induction mx start buf r rule: read_line_loop.induct)
  case (1 mx start buf r)
  obtain f r1 where f: "fill_buf r = (f, r1)" by fastforce
  note step = "1.prems"(1) [unfolded read_line_loop.simps [of mx start buf r]]
  from f step obtain c where c: "f = Done (Inr c)" by (cases f) (auto split: sum.splits)
  show ?case
  proof (cases "c = []")
    case True
    with step f c "1.prems"(2) show ?thesis by (auto dest: in_set_butlastD)
  next
    case False
    show ?thesis
    proof (cases "position (\<lambda>b. b = LF) c")
      case None
      with step f c False have nb: "\<not> mx < length buf - start + length c"
        and rec: "read_line_loop mx start (buf @ c) (consume (length c) r1) = (Done (Inr n), buf', r')"
        by (auto simp: Let_def split: if_splits)
      have "LF \<notin> set (buf @ c)" using None "1.prems"(2) by (auto simp: position_None)
      from "1.IH" [OF f [symmetric] c refl False None refl nb rec this] show ?thesis .
    next
      case (Some i)
      then have i: "i < length c" "LF \<notin> set (take i c)" by (auto simp: position_Some)
      from step f c False Some have "buf' = buf @ take (i + 1) c" by (auto simp: Let_def split: if_splits)
      with i "1.prems"(2) show ?thesis by (auto simp: take_Suc_conv_app_nth butlast_append)
    qed
  qed
qed

lemma trim_end_matches_LF: "LF \<notin> set (butlast l) \<Longrightarrow> LF \<notin> set (trim_end_matches [CR, LF] l)"
proof (cases l rule: rev_cases)
  case (snoc x c)
  assume "LF \<notin> set (butlast l)"
  with snoc show ?thesis by (auto simp: trim_end_matches_def dest: set_dropWhileD)
qed (simp add: trim_end_matches_def)

lemma limited_line_LF:
  assumes "read_line_limited_bytes r [] mx = (Done (Inr n), line, r1)"
  shows "LF \<notin> set (trim_end_matches [CR, LF] line)"
  using read_line_loop_LF [of mx 0 "[]" r n line r1] assms
  by (intro trim_end_matches_LF) (simp add: read_line_limited_bytes_def)

lemma session_turn_cases:
  assumes "session_turn mp v cfg s st = (t, s', st')"
  obtains
    (closing) r where "t = Close r" "st' = st" "rd_size (s_reader s') \<le> rd_size (s_reader s)"
      "s_from s' = s_from s" "s_rcpts s' = s_rcpts s"
      "\<exists>new. s_out s' = s_out s @ new \<and> set new \<subseteq> {''500 Line too long'' @ crlf}"
  | (empty) "t = Continue" "st' = st" "rd_size (s_reader s') < rd_size (s_reader s)"
      "s_from s' = s_from s" "s_rcpts s' = s_rcpts s" "s_out s' = s_out s"
  | (command) line r1 where "command mp v cfg line (s\<lparr>s_reader := r1\<rparr>) st = (t, s', st')"
      "rd_size r1 < rd_size (s_reader s)" "LF \<notin> set line" "line \<noteq> []"
proof -
  obtain q buffer r1 where l: "read_line_limited (s_reader s) [] MAX_COMMAND_LINE_BYTES = (q, buffer, r1)"
    by (metis prod_cases3)
  note step = assms [unfolded session_turn_def l]
  from l show thesis
  proof (cases rule: read_line_limited_cases)
    case (line n)
    let ?line = "trim_end_matches [CR, LF] buffer"
    have less: "n \<noteq> 0 \<Longrightarrow> rd_size r1 < rd_size (s_reader s)" using line(3) by linarith
    consider "n = 0" | "n \<noteq> 0" "?line = []" | "n \<noteq> 0" "?line \<noteq> []" by blast
    then show thesis
    proof cases
      case 1
      with line step show thesis by (intro closing [of "Inr ()"]) (auto simp: Let_def)
    next
      case 2
      then have "t = Continue" "st' = st" "s' = s\<lparr>s_reader := r1\<rparr>" using line(1) step by (auto simp: Let_def)
      with less [OF 2(1)] show thesis by (intro empty) simp_all
    next
      case 3
      then have "command mp v cfg ?line (s\<lparr>s_reader := r1\<rparr>) st = (t, s', st')" using line(1) step by (simp add: Let_def)
      with less [OF 3(1)] 3(2) limited_line_LF [OF line(5)] show thesis by (intro command [of ?line r1])
    qed
  next
    case (error e)
    show thesis
    proof (cases "e = SmtpLineTooLong")
      case True
      obtain t2 s2 where r: "reply ''500 Line too long'' (Close (Inr ())) (s\<lparr>s_reader := r1\<rparr>) = (t2, s2)" by fastforce
      with True error step have "t = t2" "s' = s2" "st' = st" by (auto simp: Let_def)
      with reply_frame [OF r] error(2) show thesis by (cases t2) (auto intro!: closing)
    next
      case False
      with error step show thesis by (intro closing [of "Inl e"]) (auto simp: Let_def)
    qed
  next
    case elapsed
    with step show thesis by (intro closing) (auto simp: Let_def)
  qed
qed

lemma session_turn_size:
  "session_turn mp v cfg s st = (t, s', st') \<Longrightarrow> rd_size (s_reader s') \<le> rd_size (s_reader s)"
  "session_turn mp v cfg s st = (Continue, s', st') \<Longrightarrow> rd_size (s_reader s') < rd_size (s_reader s)"
proof -
  have data: "rd_size (s_reader s2) \<le> rd_size (s_reader s1)" if "data_command mp cfg s1 st = (t, s2, st2)" for t s1 s2 st2
    using that by (cases rule: data_command_cases) (auto dest: read_data_size)
  have "rd_size (s_reader s') \<le> rd_size (s_reader s) \<and> (t = Continue \<longrightarrow> rd_size (s_reader s') < rd_size (s_reader s))"
    if "session_turn mp v cfg s st = (t, s', st')" for t
    using that
  proof (cases rule: session_turn_cases)
    case (command line r1)
    from command(1) have "rd_size (s_reader s') \<le> rd_size r1"
      by (cases rule: command_cases) (auto dest: data)
    with command show ?thesis by simp
  qed auto
  then show "session_turn mp v cfg s st = (t, s', st') \<Longrightarrow> rd_size (s_reader s') \<le> rd_size (s_reader s)"
    and "session_turn mp v cfg s st = (Continue, s', st') \<Longrightarrow> rd_size (s_reader s') < rd_size (s_reader s)" by blast+
qed

function connection_loop ::
  "'p mailparse \<Rightarrow> (string \<Rightarrow> bool) \<Rightarrow> smtp_config \<Rightarrow> session \<Rightarrow> message_store \<Rightarrow>
   unit result \<times> session \<times> message_store" where
  "connection_loop mp v cfg s st =
     (case session_turn mp v cfg s st of
        (Continue, s1, st1) \<Rightarrow> connection_loop mp v cfg s1 st1
      | (Close r, s1, st1) \<Rightarrow> (r, s1, st1))"
  by pat_completeness auto
termination
proof (relation "measure (\<lambda>(mp, v, cfg, s, st). rd_size (s_reader s))", goal_cases)
  case 1
  show ?case by simp
next
  case (2 mp v cfg s st t p s1 st1)
  then show ?case using session_turn_size(2) [of mp v cfg s st s1 st1] by auto
qed

declare connection_loop.simps [simp del]

definition new_session :: "buf_reader \<Rightarrow> string option list \<Rightarrow> session" where
  "new_session r faults = \<lparr>s_reader = r, s_out = [], s_faults = faults, s_from = None, s_rcpts = []\<rparr>"

definition handle_connection ::
  "'p mailparse \<Rightarrow> (string \<Rightarrow> bool) \<Rightarrow> smtp_config \<Rightarrow> buf_reader \<Rightarrow> string option list \<Rightarrow> message_store \<Rightarrow>
   unit result \<times> session \<times> message_store" where
  "handle_connection mp v cfg r faults st =
     (case reply ''220 chimney-post ESMTP'' Continue (new_session r faults) of
        (Close q, s1) \<Rightarrow> (q, s1, st)
      | (Continue, s1) \<Rightarrow> connection_loop mp v cfg s1 st)"

subsection \<open>The envelope\<close>

definition good_address :: "(string \<Rightarrow> bool) \<Rightarrow> string \<Rightarrow> bool" where
  "good_address v a \<longleftrightarrow> a \<noteq> [] \<and> v a \<and> LF \<notin> set a"

definition good_envelope :: "(string \<Rightarrow> bool) \<Rightarrow> session \<Rightarrow> bool" where
  "good_envelope v s \<longleftrightarrow>
     (case s_from s of Some a \<Rightarrow> a = [] \<or> good_address v a | None \<Rightarrow> True) \<and> list_all (good_address v) (s_rcpts s)"

lemma set_trim: "set (trim s) \<subseteq> set s"
proof -
  have d: "set (drop_while_len len s) \<subseteq> set s" for len s
  proof (induction len s rule: drop_while_len.induct)
    case (1 len s)
    then show ?case by (auto simp: drop_while_len.simps [of len s] dest!: in_set_dropD)
  qed
  have "set (trim_end x) \<subseteq> set x" for x using d [of ws_len_rev "rev x"] by (simp add: trim_end_def)
  then show ?thesis using d [of ws_len s] unfolding trim_def trim_start_def by blast
qed

lemma set_split_ws: "w \<in> set (split_ws cur s) \<Longrightarrow> set w \<subseteq> set cur \<union> set s"
proof (induction cur s rule: split_ws.induct)
  case (1 cur)
  then show ?case by (auto split: if_splits)
next
  case (2 cur c s)
  show ?case
  proof (cases "ws_len (c # s) = 0")
    case True
    with 2 show ?thesis by auto
  next
    case False
    have "set (drop n s) \<subseteq> set s" for n by (rule set_drop_subset)
    with False 2 show ?thesis by (fastforce split: if_splits)
  qed
qed

lemma extract_address_set: "extract_address_after_colon line = Some a \<Longrightarrow> set a \<subseteq> set line"
proof -
  assume e: "extract_address_after_colon line = Some a"
  then obtain i where i: "position (\<lambda>c. c = CHR '':'') line = Some i"
    by (auto simp: extract_address_after_colon_def split: option.splits)
  let ?rest = "trim (drop (i + 1) line)"
  have rest: "set ?rest \<subseteq> set line" using set_trim set_drop_subset by fast
  show ?thesis
  proof (cases "strip_prefix ''<'' ?rest")
    case None
    with e i have "a \<in> set (split_whitespace ?rest)"
      by (auto simp: extract_address_after_colon_def Let_def split: list.splits)
    with set_split_ws [of a "[]" ?rest] rest show ?thesis by (auto simp: split_whitespace_def)
  next
    case (Some path)
    with e i obtain k where "a = take k path"
      by (auto simp: extract_address_after_colon_def Let_def split: option.splits)
    moreover from Some have "?rest = ''<'' @ path" by (simp only: strip_prefix_iff)
    ultimately show ?thesis using rest set_take_subset [of k path] by auto
  qed
qed

lemma parse_mail_from_good: "parse_mail_from v line = Some a \<Longrightarrow> LF \<notin> set line \<Longrightarrow> a = [] \<or> good_address v a"
  using extract_address_set [of line]
  by (auto simp: parse_mail_from_def good_address_def split: if_splits option.splits)

lemma parse_rcpt_to_good: "parse_rcpt_to v line = Some a \<Longrightarrow> LF \<notin> set line \<Longrightarrow> good_address v a"
  using extract_address_set [of line]
  by (auto simp: parse_rcpt_to_def good_address_def split: if_splits option.splits)

lemma envelope_step_good: "envelope_step v line s s' \<Longrightarrow> LF \<notin> set line \<Longrightarrow> good_envelope v s \<Longrightarrow> good_envelope v s'"
  using parse_mail_from_good [of v line] parse_rcpt_to_good [of v line]
  by (auto simp: envelope_step_def good_envelope_def)

end
