(* ===== verification/Smtp_Session.thy ===== *)
theory Smtp_Session
  imports Smtp_Server
begin

section \<open>What an SMTP connection does to the queue\<close>

text \<open>
  The properties of the sessions of \<open>Smtp_Server\<close>. Lemmas: the effect of one turn, then by
  induction over the turns the effect of a connection, both in terms of the abstract queue of
  \<open>Store\<close>; the bytes a turn consumes.
\<close>

subsection \<open>Growth of the queue\<close>

definition grows :: "message_store \<Rightarrow> (i64 \<times> message) list \<Rightarrow> message_store \<Rightarrow> bool" where
  "grows st added st' \<longleftrightarrow>
     store_inv st' \<and> queued st' = queued st ++ map_of added \<and> distinct (map fst added) \<and>
     issued st' = issued st \<union> fst ` set added \<and> (\<forall>x\<in>set added. fst x \<notin> issued st \<and> wf_message (snd x))"

lemma grows_same: "store_inv st \<Longrightarrow> conn st' = conn st \<Longrightarrow> grows st [] st'"
  using same_conn [of st' st] by (simp add: grows_def)

lemma grows_trans: "grows a xs b \<Longrightarrow> grows b ys c \<Longrightarrow> grows a (ys @ xs) c"
  by (auto simp: grows_def map_add_assoc)

lemma grows_enqueue:
  assumes "store_inv st" and "wf_message m" and "enqueue m st = (Inr i, st')"
  shows "grows st [(i, m)] st'"
  using enqueue_inv [OF assms(1,3)] enqueue_ok(1-3) [OF assms] assms(2) by (simp add: grows_def)

subsection \<open>Acknowledged messages\<close>

text \<open>The number of blocks that were announced with 354 and acknowledged with 250.\<close>

fun accepted :: "string list \<Rightarrow> nat" where
  "accepted (a # b # xs) =
     (if a = go_ahead @ crlf \<and> b = ok_reply @ crlf then Suc (accepted xs) else accepted (b # xs))"
| "accepted _ = 0"

lemma accepted_append:
  "xs = [] \<or> last xs \<noteq> go_ahead @ crlf \<Longrightarrow> accepted (xs @ ys) = accepted xs + accepted ys"
proof (induction xs rule: accepted.induct)
  case (1 a b xs)
  show ?case
  proof (cases "a = go_ahead @ crlf \<and> b = ok_reply @ crlf")
    case True
    with 1 show ?thesis by (auto split: if_splits)
  next
    case False
    then have "accepted ((b # xs) @ ys) = accepted (b # xs) + accepted ys"
      using 1 by auto
    with False show ?thesis by auto
  qed
next
  case "2_1"
  then show ?case by simp
next
  case "2_2"
  then show ?case by (cases ys) auto
qed

definition sess_inv :: "(string \<Rightarrow> bool) \<Rightarrow> session \<Rightarrow> bool" where
  "sess_inv v s \<longleftrightarrow> good_envelope v s \<and> (s_out s = [] \<or> last (s_out s) \<noteq> go_ahead @ crlf)"

definition addressed :: "(string \<Rightarrow> bool) \<Rightarrow> message \<Rightarrow> bool" where
  "addressed v m \<longleftrightarrow>
     msg_to m \<noteq> [] \<and> list_all (good_address v) (msg_to m) \<and>
     (case msg_from m of None \<Rightarrow> True | Some a \<Rightarrow> good_address v a)"

lemma addressed_wf: "addressed v m \<Longrightarrow> wf_message m"
  by (auto simp: addressed_def wf_message_def wf_recipients_def list_all_iff good_address_def)

lemma parse_data_to [simp]: "msg_to (parse_data mp frm to data) = to"
  by (simp add: parse_data_def Let_def split: option.split prod.split)

lemma parse_data_from [simp]: "msg_from (parse_data mp frm to data) = (if frm = Some [] then None else frm)"
  by (auto simp: parse_data_def Let_def split: option.split prod.split)

lemma parse_data_addressed:
  "good_envelope v s \<Longrightarrow> s_rcpts s \<noteq> [] \<Longrightarrow> addressed v (parse_data mp (s_from s) (s_rcpts s) data)"
  by (auto simp: addressed_def good_envelope_def split: option.splits)

subsection \<open>The effect of a turn\<close>

definition turn_effect ::
  "(string \<Rightarrow> bool) \<Rightarrow> session \<Rightarrow> message_store \<Rightarrow> (i64 \<times> message) list \<Rightarrow> session \<Rightarrow> message_store \<Rightarrow> bool" where
  "turn_effect v s st added s' st' \<longleftrightarrow>
     grows st added st' \<and> accepted (s_out s') \<le> accepted (s_out s) + length added \<and>
     (\<forall>x\<in>set added. addressed v (snd x))"

lemma ok_not_go: "ok_reply @ crlf \<noteq> go_ahead @ crlf"
  by (simp add: ok_reply_def go_ahead_def)

lemma data_command_effect:
  assumes "data_command mp cfg s st = (t, s', st')" and "store_inv st" and "sess_inv v s"
  shows "\<exists>added. turn_effect v s st added s' st' \<and> (t = Continue \<longrightarrow> sess_inv v s')"
proof -
  have out: "accepted (s_out s @ ys) = accepted (s_out s) + accepted ys" for ys
    using assms(3) accepted_append by (simp add: sess_inv_def)
  have env: "good_envelope v s" using assms(3) by (simp add: sess_inv_def)
  from assms(1) show ?thesis
  proof (cases rule: data_command_cases)
    case bad_sequence
    then have "turn_effect v s st [] s' st'"
      using assms(2) by (auto simp: turn_effect_def grows_same out)
    moreover have "t = Continue \<Longrightarrow> sess_inv v s'"
      using bad_sequence env by (auto simp: sess_inv_def good_envelope_def go_ahead_def)
    ultimately show ?thesis by blast
  next
    case (no_block e)
    then have "turn_effect v s st [] s' st'"
      using assms(2) by (auto simp: turn_effect_def grows_same out)
    with no_block(4) show ?thesis by auto
  next
    case (too_large r1)
    then have "turn_effect v s st [] s' st'"
      using assms(2) by (auto simp: turn_effect_def grows_same out ok_reply_def go_ahead_def)
    moreover have "sess_inv v s'" using too_large by (simp add: sess_inv_def good_envelope_def go_ahead_def)
    ultimately show ?thesis by blast
  next
    case (block data r1 res)
    let ?m = "parse_data mp (s_from s) (s_rcpts s) data"
    have good: "addressed v ?m" using parse_data_addressed env block(2) by blast
    have cont: "t = Continue \<Longrightarrow> sess_inv v s'"
      using block(6) by (auto simp: sess_inv_def good_envelope_def go_ahead_def ok_reply_def split: sum.splits)
    show ?thesis
    proof (cases res)
      case (Inl e)
      with block(5) have "conn st' = conn st" using enqueue_err by blast
      then have "turn_effect v s st [] s' st'"
        using assms(2) Inl block(6)
        by (auto simp: turn_effect_def grows_same out go_ahead_def ok_reply_def)
      with cont show ?thesis by blast
    next
      case (Inr i)
      with block(5) have "enqueue ?m st = (Inr i, st')" by simp
      from grows_enqueue [OF assms(2) addressed_wf [OF good] this]
      have "turn_effect v s st [(i, ?m)] s' st'"
        using Inr block(6) good by (auto simp: turn_effect_def out)
      with cont show ?thesis by blast
    qed
  qed
qed

lemma session_turn_effect:
  assumes "session_turn mp v cfg s st = (t, s', st')" and "store_inv st" and "sess_inv v s"
  shows "\<exists>added. turn_effect v s st added s' st' \<and> (t = Continue \<longrightarrow> sess_inv v s')"
proof -
  have out: "accepted (s_out s @ ys) = accepted (s_out s) + accepted ys" for ys
    using assms(3) accepted_append by (simp add: sess_inv_def)
  from assms(1) show ?thesis
  proof (cases rule: session_turn_cases)
    case (closing r)
    then obtain new where "s_out s' = s_out s @ new" "set new \<subseteq> {''500 Line too long'' @ crlf}" by blast
    moreover have "accepted xs = 0" if "set xs \<subseteq> {''500 Line too long'' @ crlf}" for xs
      using that by (induction xs rule: accepted.induct) (auto simp: go_ahead_def)
    ultimately have "turn_effect v s st [] s' st'"
      using closing(2) assms(2) by (simp add: turn_effect_def grows_same out)
    with closing(1) show ?thesis by auto
  next
    case empty
    then have "turn_effect v s st [] s' st'" using assms(2) by (simp add: turn_effect_def grows_same)
    moreover have "sess_inv v s'" using empty assms(3) by (simp add: sess_inv_def good_envelope_def)
    ultimately show ?thesis by blast
  next
    case (command line r1)
    let ?s = "s\<lparr>s_reader := r1\<rparr>"
    have inv: "sess_inv v ?s" using assms(3) by (simp add: sess_inv_def good_envelope_def)
    from command(1) show ?thesis
    proof (cases rule: command_cases)
      case (quiet rep)
      have "turn_effect v s st [] s' st'"
        using quiet assms(2) by (auto simp: turn_effect_def grows_same out)
      moreover have "t = Continue \<Longrightarrow> sess_inv v s'"
        using quiet envelope_step_good [OF quiet(3) command(3)] inv by (auto simp: sess_inv_def)
      ultimately show ?thesis by blast
    next
      case data
      from data_command_effect [OF data assms(2) inv] show ?thesis by (simp add: turn_effect_def)
    qed
  qed
qed

lemma connection_loop_effect:
  "connection_loop mp v cfg s st = (res, s', st') \<Longrightarrow> store_inv st \<Longrightarrow> sess_inv v s \<Longrightarrow>
   \<exists>added. turn_effect v s st added s' st'"
proof (induction mp v cfg s st rule: connection_loop.induct)
  case (1 mp v cfg s st)
  obtain t s1 st1 where t: "session_turn mp v cfg s st = (t, s1, st1)" by (metis prod_cases3)
  from session_turn_effect [OF t "1.prems"(2,3)]
  obtain xs where xs: "turn_effect v s st xs s1 st1" "t = Continue \<longrightarrow> sess_inv v s1" by blast
  show ?case
  proof (cases t)
    case (Close r)
    with t "1.prems"(1) have "s' = s1" "st' = st1" by (simp_all add: connection_loop.simps [of mp v cfg s st])
    with xs show ?thesis by blast
  next
    case Continue
    with t "1.prems"(1) have rec: "connection_loop mp v cfg s1 st1 = (res, s', st')"
      by (simp add: connection_loop.simps [of mp v cfg s st])
    from xs(1) have "store_inv st1" by (simp add: turn_effect_def grows_def)
    with "1.IH" [OF t [symmetric] Continue refl rec] xs(2) Continue
    obtain ys where "turn_effect v s1 st1 ys s' st'" by blast
    with xs(1) have "turn_effect v s st (ys @ xs) s' st'"
      using grows_trans [of st xs st1 ys st'] by (auto simp: turn_effect_def)
    then show ?thesis by blast
  qed
qed

lemma new_session_inv: "sess_inv v (new_session r faults)"
  by (simp add: sess_inv_def good_envelope_def new_session_def)

lemma handle_connection_effect:
  assumes "handle_connection mp v cfg r faults st = (res, s', st')" and "store_inv st"
  shows "\<exists>added. turn_effect v (new_session r faults) st added s' st'"
proof -
  let ?s = "new_session r faults"
  obtain t s1 where t: "reply ''220 chimney-post ESMTP'' Continue ?s = (t, s1)" by fastforce
  note f = reply_frame [OF t]
  then have s1: "sess_inv v s1" "accepted (s_out s1) = 0"
    using new_session_inv [of v r faults] by (auto simp: sess_inv_def good_envelope_def new_session_def go_ahead_def)
  show ?thesis
  proof (cases t)
    case (Close q)
    with t assms s1 have "turn_effect v ?s st [] s' st'"
      by (auto simp: handle_connection_def turn_effect_def grows_same)
    then show ?thesis by blast
  next
    case Continue
    with t assms(1) have "connection_loop mp v cfg s1 st = (res, s', st')" by (simp add: handle_connection_def)
    from connection_loop_effect [OF this assms(2) s1(1)] s1(2) show ?thesis
      by (auto simp: turn_effect_def new_session_def)
  qed
qed

subsection \<open>Two dialogues\<close>

text \<open>
  A parser that leaves every block to the raw split, an address check that wants an at sign,
  and the turns of which the example dialogues are made; each line is a chunk of its own.
\<close>

definition ex_valid :: "string \<Rightarrow> bool" where "ex_valid a \<longleftrightarrow> CHR ''@'' \<in> set a"

definition ex_smtp_config :: smtp_config where
  "ex_smtp_config = \<lparr>smtp_bind = ''127.0.0.1:2525'', max_message_size = 10, smtp_timeout = 30, max_connections = 2, max_session_seconds = 300\<rparr>"

definition ex_plain :: "string mailparse" where
  "ex_plain = \<lparr>parse_mail = (\<lambda>d. None), get_body = Some \<circ> payload,
     get_content_disposition = (\<lambda>_. \<lparr>disposition = Inline, disp_params = Map.empty\<rparr>),
     get_first_value = (\<lambda>_ _. None)\<rparr>"

text \<open>A line on the wire, and a block of a blank line and one line.\<close>

definition wire :: "string \<Rightarrow> bytes" where "wire s = s @ crlf"

definition ex_wire_block :: bytes where "ex_wire_block = crlf @ ''hi'' @ crlf @ ''.'' @ crlf"

definition ex_session :: "bytes list \<Rightarrow> string list \<Rightarrow> string option \<Rightarrow> string list \<Rightarrow> session" where
  "ex_session chunks out frm to =
     \<lparr>s_reader = \<lparr>rd_buf = [], rd_events = map Chunk chunks\<rparr>, s_out = out, s_faults = [], s_from = frm, s_rcpts = to\<rparr>"

abbreviation ex_turn :: "session \<Rightarrow> message_store \<Rightarrow> turn \<times> session \<times> message_store" where
  "ex_turn \<equiv> session_turn ex_plain ex_valid ex_smtp_config"

lemma turn_mail:
  "ex_turn (ex_session (wire ''MAIL FROM:<s@x>'' # cs) out frm to) st =
     (Continue, ex_session cs (out @ [ok_reply @ crlf]) (Some ''s@x'') to, st)"
  "ex_turn (ex_session (wire ''mail from: <r@z>'' # cs) out frm to) st =
     (Continue, ex_session cs (out @ [ok_reply @ crlf]) (Some ''r@z'') to, st)"
  by code_simp+

lemma turn_rcpt:
  "ex_turn (ex_session (wire ''RCPT TO:<a@x>'' # cs) out frm to) st =
     (Continue, ex_session cs (out @ [ok_reply @ crlf]) frm (to @ [''a@x'']), st)"
  "ex_turn (ex_session (wire ''Rcpt To:b@y'' # cs) out frm to) st =
     (Continue, ex_session cs (out @ [ok_reply @ crlf]) frm (to @ [''b@y'']), st)"
  by code_simp+

lemma turn_quit:
  "ex_turn (ex_session (wire ''QUIT'' # cs) out frm to) st =
     (Close (Inr ()), ex_session cs (out @ [''221 Bye'' @ crlf]) frm to, st)"
  by code_simp

lemma turn_eof: "ex_turn (ex_session [] out frm to) st = (Close (Inr ()), ex_session [] out frm to, st)"
  by code_simp

lemmas reader_eval = read_data_def read_data_loop.simps read_line_limited_def read_line_limited_bytes_def
  read_line_loop.simps fill_buf_def consume_def Let_def usize_saturating_add_def usize_saturating_sub_def
  usize_max_def is_terminator_def unstuff_def starts_with_def utf8_head_def byte_at_def

lemma turn_data:
  "ex_turn (ex_session (wire ''DATA'' # cs) out frm to) st =
     data_command ex_plain ex_smtp_config (ex_session cs out frm to) st"
proof -
  have "read_line_limited \<lparr>rd_buf = [], rd_events = Chunk (wire ''DATA'') # map Chunk cs\<rparr> [] MAX_COMMAND_LINE_BYTES =
      (Done (Inr 6), wire ''DATA'', \<lparr>rd_buf = [], rd_events = map Chunk cs\<rparr>)" by code_simp
  moreover have "trim_end_matches [CR, LF] (wire ''DATA'') = ''DATA''" by code_simp
  moreover have "split_whitespace (to_uppercase ''DATA'') = [''DATA'']" by code_simp
  ultimately show ?thesis
    by (simp add: session_turn_def ex_session_def command_def)
qed

lemma turn_block:
  "data_command ex_plain ex_smtp_config (ex_session (ex_wire_block # cs) out (Some ''s@x'') [''a@x'', ''b@y'']) ex_store =
     (Continue, ex_session cs (out @ [go_ahead @ crlf, ok_reply @ crlf]) None [], ex_store1)"
proof -
  have "read_data \<lparr>rd_buf = [], rd_events = Chunk ex_wire_block # map Chunk cs\<rparr> 10 =
      (Inr (crlf @ ''hi'' @ crlf), \<lparr>rd_buf = [], rd_events = map Chunk cs\<rparr>)" by (simp add: reader_eval wire_def ex_wire_block_def)
  moreover have "parse_data ex_plain (Some ''s@x'') [''a@x'', ''b@y''] (crlf @ ''hi'' @ crlf) = ex_message" by code_simp
  ultimately show ?thesis
    by (simp add: data_command_def ex_session_def reply_def write_all_def ex_smtp_config_def Let_def clear_envelope_def)
qed

lemmas ex_turns = turn_mail turn_rcpt turn_quit turn_eof turn_data turn_block

definition ex_dialogue :: "bytes list" where
  "ex_dialogue = [wire ''MAIL FROM:<s@x>'', wire ''RCPT TO:<a@x>'', wire ''Rcpt To:b@y'', wire ''DATA'',
     ex_wire_block, wire ''QUIT'']"

definition ex_connection :: "bytes list \<Rightarrow> unit result \<times> session \<times> message_store" where
  "ex_connection chunks = handle_connection ex_plain ex_valid ex_smtp_config \<lparr>rd_buf = [], rd_events = map Chunk chunks\<rparr> [] ex_store"

lemma ex_connection_loop:
  "ex_connection chunks = connection_loop ex_plain ex_valid ex_smtp_config
     (ex_session chunks [''220 chimney-post ESMTP'' @ crlf] None []) ex_store"
  by (simp add: ex_connection_def handle_connection_def reply_def write_all_def new_session_def ex_session_def)

lemma ex_dialogue_run:
  "ex_connection ex_dialogue =
     (Inr (), ex_session [] (map (\<lambda>x. x @ crlf) [''220 chimney-post ESMTP'', ok_reply, ok_reply, ok_reply, go_ahead, ok_reply, ''221 Bye'']) None [], ex_store1)"
  unfolding ex_connection_loop ex_dialogue_def
  by (simp only: connection_loop.simps ex_turns prod.case turn.case append.simps list.map)

subsection \<open>The bytes of the stream\<close>

lemma read_line_loop_suffix:
  "healthy r \<Longrightarrow> read_line_loop mx start buf r = (q, b, r') \<Longrightarrow> healthy r' \<and> (\<exists>x. stream_of r = x @ stream_of r')"
proof (induction mx start buf r rule: read_line_loop.induct)
  case (1 mx start buf r)
  obtain f r1 where f: "fill_buf r = (f, r1)" by fastforce
  from healthy_fill [OF f "1.prems"(1)] obtain c where c: "f = Done (Inr c)" "rd_buf r1 = c" "healthy r1"
    "stream_of r1 = stream_of r" by blast
  note step = "1.prems"(2) [unfolded read_line_loop.simps [of mx start buf r]]
  have here: ?case if "r' = r1" using that c(3,4) by (intro conjI exI [of _ "[]"]) simp_all
  have cons: "healthy (consume n r1) \<and> (\<exists>x. stream_of r = x @ stream_of (consume n r1))" if "n \<le> length c" for n
    using healthy_consume [OF c(3), of n] that c(2,4) by (metis append_take_drop_id)
  show ?case
  proof (cases "c = []")
    case True
    with step f c here show ?thesis by simp
  next
    case False
    show ?thesis
    proof (cases "position (\<lambda>b. b = LF) c")
      case (Some i)
      then have "i + 1 \<le> length c" by (auto dest: position_less)
      from cons [OF this] Some step f c False here show ?thesis by (auto simp: Let_def split: if_splits)
    next
      case None
      show ?thesis
      proof (cases "mx < length buf - start + length c")
        case True
        with None step f c False here show ?thesis by (simp add: Let_def)
      next
        case nb: False
        with None step f c False have rec: "read_line_loop mx start (buf @ c) (consume (length c) r1) = (q, b, r')"
          by (simp add: Let_def)
        from cons [of "length c"] obtain x where x: "healthy (consume (length c) r1)" "stream_of r = x @ stream_of (consume (length c) r1)"
          by auto
        from "1.IH" [OF f [symmetric] c(1) refl False None refl nb x(1) rec] x(2) show ?thesis by force
      qed
    qed
  qed
qed

lemma read_line_bytes_suffix:
  "healthy r \<Longrightarrow> read_line_limited_bytes r buf mx = (q, b, r') \<Longrightarrow> healthy r' \<and> (\<exists>x. stream_of r = x @ stream_of r')"
  unfolding read_line_limited_bytes_def by (rule read_line_loop_suffix)

lemma read_line_suffix:
  "healthy r \<Longrightarrow> read_line_limited r [] mx = (q, b, r') \<Longrightarrow> healthy r' \<and> (\<exists>x. stream_of r = x @ stream_of r')"
  using read_line_bytes_suffix [of r "[]" mx]
  by (auto simp: read_line_limited_def split: prod.splits timed.splits sum.splits option.splits)

lemma read_data_loop_suffix:
  "healthy r \<Longrightarrow> read_data_loop mx data r = (q, r') \<Longrightarrow> healthy r' \<and> (\<exists>x. stream_of r = x @ stream_of r')"
proof (induction mx data r rule: read_data_loop.induct)
  case (1 mx data r)
  let ?m = "usize_saturating_add (usize_saturating_sub mx (length data)) 4"
  obtain f line r1 where f: "read_line_limited_bytes r [] ?m = (f, line, r1)" by (metis prod_cases3)
  from read_line_bytes_suffix [OF "1.prems"(1) f] obtain x where x: "healthy r1" "stream_of r = x @ stream_of r1" by blast
  note step = "1.prems"(2) [unfolded read_data_loop.simps [of mx data r] Let_def f]
  show ?case
  proof (cases "r' = r1")
    case True
    with x show ?thesis by blast
  next
    case False
    with step obtain n where n: "f = Done (Inr n)" "n \<noteq> 0" "\<not> is_terminator line"
      "\<not> mx < length data + length (unstuff line)" "read_data_loop mx (data @ unstuff line) r1 = (q, r')"
      by (auto split: timed.splits sum.splits if_splits)
    from "1.IH" [OF refl f [symmetric] n(1) refl refl n(2,3) refl n(4) x(1) n(5)] x(2) show ?thesis by force
  qed
qed

lemma read_data_suffix:
  "healthy r \<Longrightarrow> read_data r mx = (q, r') \<Longrightarrow> healthy r' \<and> (\<exists>x. stream_of r = x @ stream_of r')"
  using read_data_loop_suffix [of r mx "[]"] by (auto simp: read_data_def split: prod.splits sum.splits)

text \<open>A stream in which no block can end.\<close>

definition endless :: "bytes \<Rightarrow> bool" where
  "endless s \<longleftrightarrow> \<not> contains s (''.'' @ crlf) \<and> \<not> contains s (''.'' @ [LF])"

lemma endless_suffix: "endless (x @ s) \<Longrightarrow> endless s"
  unfolding endless_def contains_iff by (metis append.assoc)

lemma read_data_endless: "healthy r \<Longrightarrow> endless (stream_of r) \<Longrightarrow> read_data r mx = (q, r') \<Longrightarrow> \<exists>e. q = Inl e"
proof (rule ccontr)
  assume r: "healthy r" "endless (stream_of r)" "read_data r mx = (q, r')" and "\<nexists>e. q = Inl e"
  then obtain d where "read_data_loop mx [] r = (Inr d, r')"
    by (cases q) (auto simp: read_data_def split: prod.splits sum.splits)
  from read_data_loop_sound [OF r(1) this] obtain ls t where "is_terminator t" "stream_of r = concat ls @ t @ stream_of r'" by blast
  with r(2) show False unfolding endless_def contains_iff is_terminator_def by blast
qed

lemma data_command_endless:
  assumes "data_command mp cfg s st = (t, s', st')" and "healthy (s_reader s)" and "endless (stream_of (s_reader s))"
  shows "st' = st \<and> (t = Continue \<longrightarrow> healthy (s_reader s') \<and> endless (stream_of (s_reader s')))"
  using assms(1)
proof (cases rule: data_command_cases)
  case bad_sequence
  with assms(2,3) show ?thesis by simp
next
  case (too_large r1)
  with read_data_suffix [OF assms(2) too_large(4)] assms(3) endless_suffix show ?thesis by force
next
  case (block data r1 res)
  with read_data_endless [OF assms(2,3) block(3)] show ?thesis by simp
qed simp

lemma session_turn_endless:
  assumes "session_turn mp v cfg s st = (t, s', st')" and "healthy (s_reader s)" and "endless (stream_of (s_reader s))"
  shows "st' = st \<and> (t = Continue \<longrightarrow> healthy (s_reader s') \<and> endless (stream_of (s_reader s')))"
proof -
  obtain q line r1 where l: "read_line_limited (s_reader s) [] MAX_COMMAND_LINE_BYTES = (q, line, r1)"
    by (metis prod_cases3)
  from read_line_suffix [OF assms(2) l] assms(3) endless_suffix have r1: "healthy r1" "endless (stream_of r1)" by force+
  let ?s = "s\<lparr>s_reader := r1\<rparr>" and ?line = "trim_end_matches [CR, LF] line"
  note step = assms(1) [unfolded session_turn_def l]
  have c: ?thesis if "command mp v cfg ?line ?s st = (t, s', st')"
    using that
  proof (cases rule: command_cases)
    case (quiet rep)
    with r1 show ?thesis by simp
  next
    case data
    from data_command_endless [OF this] r1 show ?thesis by simp
  qed
  show ?thesis
  proof (cases q)
    case (Done a)
    with step r1 c show ?thesis
      by (cases a) (auto simp: Let_def split: if_splits prod.splits dest: reply_frame)
  qed (use step in \<open>auto simp: Let_def\<close>)
qed

lemma connection_loop_endless:
  "connection_loop mp v cfg s st = (res, s', st') \<Longrightarrow> healthy (s_reader s) \<Longrightarrow> endless (stream_of (s_reader s)) \<Longrightarrow> st' = st"
proof (induction mp v cfg s st rule: connection_loop.induct)
  case (1 mp v cfg s st)
  obtain t s1 st1 where t: "session_turn mp v cfg s st = (t, s1, st1)" by (metis prod_cases3)
  note e = session_turn_endless [OF t "1.prems"(2,3)]
  show ?case
  proof (cases t)
    case (Close r)
    with t e "1.prems"(1) show ?thesis by (simp add: connection_loop.simps [of mp v cfg s st])
  next
    case Continue
    with t "1.prems"(1) have "connection_loop mp v cfg s1 st1 = (res, s', st')"
      by (simp add: connection_loop.simps [of mp v cfg s st])
    with "1.IH" [OF t [symmetric] Continue refl this] e Continue show ?thesis by simp
  qed
qed

subsection \<open>Where a queued message comes from\<close>

text \<open>
  On any connection, from \<open>r\<close> on: the bytes \<open>pre\<close> of earlier commands, a DATA command line, the
  lines \<open>ls\<close> and a terminator were consumed, and the connection delivered nothing but bytes on
  the way.
\<close>

definition data_line :: "bytes \<Rightarrow> bool" where
  "data_line cmd \<longleftrightarrow>
     is_line cmd \<and> (\<exists>args. split_whitespace (to_uppercase (trim_end_matches [CR, LF] cmd)) = ''DATA'' # args)"

definition block_read :: "buf_reader \<Rightarrow> bytes \<Rightarrow> bytes \<Rightarrow> bytes list \<Rightarrow> bool" where
  "block_read r pre cmd ls \<longleftrightarrow>
     data_line cmd \<and> (\<forall>l\<in>set ls. is_line l \<and> \<not> is_terminator l) \<and>
     (\<exists>t r'. is_terminator t \<and> consumes r (pre @ cmd @ concat ls @ t) r')"

definition block_of :: "'p mailparse \<Rightarrow> buf_reader \<Rightarrow> message \<Rightarrow> bool" where
  "block_of mp r m \<longleftrightarrow>
     (\<exists>pre cmd ls frm. block_read r pre cmd ls \<and>
        m = parse_data mp frm (msg_to m) (from_utf8_lossy (concat (map unstuff ls))))"

lemma block_of_later:
  assumes "consumes r x r1" and "block_of mp r1 m"
  shows "block_of mp r m"
proof -
  from assms(2) obtain pre cmd ls frm t r' where
    "data_line cmd" "\<forall>l\<in>set ls. is_line l \<and> \<not> is_terminator l" "is_terminator t"
    "consumes r1 (pre @ cmd @ concat ls @ t) r'"
    "m = parse_data mp frm (msg_to m) (from_utf8_lossy (concat (map unstuff ls)))"
    unfolding block_of_def block_read_def by blast
  moreover have "consumes r ((x @ pre) @ cmd @ concat ls @ t) r'"
    using consumes_trans [OF assms(1) calculation(4)] by simp
  ultimately show ?thesis unfolding block_of_def block_read_def by blast
qed

lemma command_changes:
  assumes "command mp v cfg line s st = (t, s', st')" and "st' \<noteq> st"
  shows "data_command mp cfg s st = (t, s', st') \<and> (\<exists>args. split_whitespace (to_uppercase line) = ''DATA'' # args)"
  using assms unfolding command_def Let_def
  by (auto split: if_splits list.splits prod.splits option.splits)

lemma data_command_consumes:
  assumes "data_command mp cfg s st = (Continue, s', st')" and "Chunk [] \<notin> set (rd_events (s_reader s))"
  shows "\<exists>x. consumes (s_reader s) x (s_reader s')"
  using assms(1)
proof (cases rule: data_command_cases)
  case bad_sequence
  then show ?thesis using consumes_refl by metis
next
  case (too_large r1)
  with read_data_exceeded [OF too_large(4) assms(2)] show ?thesis by simp
next
  case (block data r1 res)
  from block(3) assms(2) show ?thesis by (rule read_data_consumes) (use block(4) in blast)
qed simp

text \<open>What a turn reads when the session goes on.\<close>

lemma read_line_limited_Inr:
  assumes "read_line_limited r [] mx = (Done (Inr n), line, r1)"
  shows "read_line_limited_bytes r [] mx = (Done (Inr n), line, r1)"
  using assms by (cases rule: read_line_limited_cases) auto

lemma session_turn_consumes:
  assumes "session_turn mp v cfg s st = (Continue, s', st')" and "Chunk [] \<notin> set (rd_events (s_reader s))"
  shows "\<exists>x. consumes (s_reader s) x (s_reader s')"
proof -
  obtain q line r1 where l: "read_line_limited (s_reader s) [] MAX_COMMAND_LINE_BYTES = (q, line, r1)"
    by (metis prod_cases3)
  let ?line = "trim_end_matches [CR, LF] line" and ?s = "s\<lparr>s_reader := r1\<rparr>"
  note step = assms(1) [unfolded session_turn_def l]
  from step obtain n where n: "q = Done (Inr n)"
    and c: "s' = ?s \<or> command mp v cfg ?line ?s st = (Continue, s', st')"
    by (auto simp: Let_def split: timed.splits sum.splits if_splits prod.splits dest: reply_frame)
  have x: "consumes (s_reader s) line r1"
    by (rule read_line_consumes(1) [OF read_line_limited_Inr assms(2)]) (use l n in simp)
  from c show ?thesis
  proof
    assume "s' = ?s"
    with x show ?thesis by auto
  next
    assume "command mp v cfg ?line ?s st = (Continue, s', st')"
    then show ?thesis
    proof (cases rule: command_cases)
      case (quiet rep)
      with x show ?thesis by auto
    next
      case data
      have "Chunk [] \<notin> set (rd_events (s_reader ?s))" using consumes_events [OF x assms(2)] by simp
      from data_command_consumes [OF data this] consumes_trans [OF x] show ?thesis by auto
    qed
  qed
qed

text \<open>A turn that adds a message has read the DATA line and its whole block.\<close>

lemma session_turn_block:
  assumes "session_turn mp v cfg s st = (t, s', st')" and "Chunk [] \<notin> set (rd_events (s_reader s))"
    and "store_inv st" and "sess_inv v s" and "queued st' i = Some m" and "queued st i \<noteq> Some m"
  shows "block_of mp (s_reader s) m"
proof -
  have ch: "st' \<noteq> st" using assms(5,6) by auto
  obtain q line r1 where l: "read_line_limited (s_reader s) [] MAX_COMMAND_LINE_BYTES = (q, line, r1)"
    by (metis prod_cases3)
  let ?line = "trim_end_matches [CR, LF] line" and ?s = "s\<lparr>s_reader := r1\<rparr>"
  note step = assms(1) [unfolded session_turn_def l]
  from step ch obtain n where n: "q = Done (Inr n)" and c: "command mp v cfg ?line ?s st = (t, s', st')"
    by (auto simp: Let_def split: timed.splits sum.splits if_splits prod.splits dest: reply_frame)
  note rd = read_line_limited_Inr [OF l [unfolded n]]
  note x = read_line_consumes [OF rd assms(2)]
  from command_changes [OF c ch] obtain args where d: "data_command mp cfg ?s st = (t, s', st')"
    and verb: "split_whitespace (to_uppercase ?line) = ''DATA'' # args" by blast
  from d ch obtain data r2 res where b: "read_data r1 (max_message_size cfg) = (Inr data, r2)"
    "enqueue (parse_data mp (s_from s) (s_rcpts s) data) st = (res, st')" "s_rcpts s \<noteq> []"
    by (cases rule: data_command_cases) auto
  let ?m = "parse_data mp (s_from s) (s_rcpts s) data"
  from b(1) consumes_events [OF x(1) assms(2)] obtain ls u where ls: "is_terminator u"
    "consumes r1 (concat ls @ u) r2" "\<forall>l\<in>set ls. is_line l \<and> \<not> is_terminator l"
    "data = from_utf8_lossy (concat (map unstuff ls))" by (rule read_data_consumes)
  have "u \<noteq> []" using ls(1) by (auto simp: is_terminator_def)
  with at_end_consumes [OF ls(2)] x(2) have "is_line line" by auto
  with verb have dl: "data_line line" by (simp add: data_line_def)
  have "addressed v ?m"
    by (rule parse_data_addressed) (use assms(4) b(3) in \<open>simp_all add: sess_inv_def\<close>)
  then have wf: "wf_message ?m" by (rule addressed_wf)
  have "m = ?m"
  proof (cases res)
    case (Inl e)
    with b(2) have "conn st' = conn st" using enqueue_err by blast
    with assms(5,6) show ?thesis by (simp add: queued_def)
  next
    case (Inr j)
    with b(2) have "enqueue ?m st = (Inr j, st')" by simp
    from enqueue_ok(1) [OF assms(3) wf this] assms(5,6) show ?thesis by (auto split: if_splits)
  qed
  then have "m = parse_data mp (s_from s) (msg_to m) (from_utf8_lossy (concat (map unstuff ls)))"
    using ls(4) by simp
  moreover have "block_read (s_reader s) [] line ls"
    unfolding block_read_def using dl ls(1,3) consumes_trans [OF x(1) ls(2)] by auto
  ultimately show ?thesis unfolding block_of_def by blast
qed

lemma connection_loop_block:
  "connection_loop mp v cfg s st = (res, s', st') \<Longrightarrow> Chunk [] \<notin> set (rd_events (s_reader s)) \<Longrightarrow>
   store_inv st \<Longrightarrow> sess_inv v s \<Longrightarrow> queued st' i = Some m \<Longrightarrow> queued st i \<noteq> Some m \<Longrightarrow>
   block_of mp (s_reader s) m"
proof (induction mp v cfg s st rule: connection_loop.induct)
  case (1 mp v cfg s st)
  obtain t s1 st1 where t: "session_turn mp v cfg s st = (t, s1, st1)" by (metis prod_cases3)
  from session_turn_effect [OF t "1.prems"(3,4)] obtain xs where
    "turn_effect v s st xs s1 st1" and inv: "t = Continue \<longrightarrow> sess_inv v s1" by blast
  then have st1: "store_inv st1" by (simp add: turn_effect_def grows_def)
  show ?case
  proof (cases t)
    case (Close r)
    with t "1.prems"(1) have "st' = st1" by (simp add: connection_loop.simps [of mp v cfg s st])
    with session_turn_block [OF t "1.prems"(2,3,4)] "1.prems"(5,6) show ?thesis by simp
  next
    case Continue
    with t "1.prems"(1) have rec: "connection_loop mp v cfg s1 st1 = (res, s', st')"
      by (simp add: connection_loop.simps [of mp v cfg s st])
    from session_turn_consumes [OF t [unfolded Continue] "1.prems"(2)] obtain x where
      x: "consumes (s_reader s) x (s_reader s1)" by blast
    show ?thesis
    proof (cases "queued st1 i = Some m")
      case True
      from session_turn_block [OF t "1.prems"(2,3,4) True "1.prems"(6)] show ?thesis .
    next
      case False
      from "1.IH" [OF t [symmetric] Continue refl rec consumes_events [OF x "1.prems"(2)] st1 _ "1.prems"(5) False]
        inv Continue have "block_of mp (s_reader s1) m" by simp
      then show ?thesis by (rule block_of_later [OF x])
    qed
  qed
qed

lemma handle_connection_block:
  assumes "handle_connection mp v cfg r faults st = (res, s', st')" and "Chunk [] \<notin> set (rd_events r)"
    and "store_inv st" and "queued st' i = Some m" and "queued st i \<noteq> Some m"
  shows "block_of mp r m"
proof -
  obtain t s1 where t: "reply ''220 chimney-post ESMTP'' Continue (new_session r faults) = (t, s1)" by fastforce
  note f = reply_frame [OF t]
  then have s1: "sess_inv v s1" "s_reader s1 = r"
    using new_session_inv [of v r faults] by (auto simp: sess_inv_def good_envelope_def new_session_def go_ahead_def)
  show ?thesis
  proof (cases t)
    case (Close q)
    with t assms show ?thesis by (auto simp: handle_connection_def)
  next
    case Continue
    with t assms(1) have "connection_loop mp v cfg s1 st = (res, s', st')" by (simp add: handle_connection_def)
    from connection_loop_block [OF this _ assms(3) s1(1) assms(4,5)] assms(2) s1(2) show ?thesis by simp
  qed
qed

lemma ex_queued: "queued ex_store1 1 = Some ex_message" "queued ex_store 1 \<noteq> Some ex_message"
proof -
  have "rows (conn ex_store1) 1 = Some ex_row"
    by (simp add: rows_def ex_store1_def ex_store_def empty_database_def) (simp add: ex_row_def)
  then show "queued ex_store1 1 = Some ex_message" by (simp add: queued_def)
  show "queued ex_store 1 \<noteq> Some ex_message" by (simp add: queued_def ex_store_def)
qed

subsection \<open>Properties\<close>

text \<open>
  An accepted message is never lost before it is stored: at the end of a connection, at
  least as many messages as were acknowledged with 250 were added to the queue, each under a
  new id of its own, and nothing else in the queue changed.
\<close>

lemma accepted_is_queued:
  assumes "store_inv st" and "handle_connection mp v cfg r faults st = (res, s', st')"
  shows "\<exists>added. accepted (s_out s') \<le> length added \<and> distinct (map fst added) \<and>
    fst ` set added \<inter> issued st = {} \<and> queued st' = queued st ++ map_of added"
  using handle_connection_effect [OF assms(2,1)]
  by (auto simp: turn_effect_def grows_def new_session_def)

lemma accepted_is_queued_witness:
  "\<exists>added. 1 \<le> length added \<and> distinct (map fst added) \<and>
    fst ` set added \<inter> issued ex_store = {} \<and> queued ex_store1 = queued ex_store ++ map_of added"
proof -
  have "accepted (map (\<lambda>x. x @ crlf) [''220 chimney-post ESMTP'', ok_reply, ok_reply, ok_reply, go_ahead, ok_reply, ''221 Bye'']) = 1"
    by (simp add: ok_reply_def go_ahead_def)
  with accepted_is_queued [OF ex_inv(1) ex_dialogue_run [unfolded ex_connection_def]] show ?thesis
    by (simp add: ex_session_def)
qed

text \<open>
  C12. Every message a connection adds to the queue has at least one recipient; its recipients,
  and its sender unless that is the null sender, are not empty, passed the address check and
  contain no line feed, so that the recipient list survives its encoding in the database.
\<close>

theorem queued_are_addressed:
  assumes "store_inv st" and "handle_connection mp v cfg r faults st = (res, s', st')"
    and "queued st' i = Some m" and "queued st i \<noteq> Some m"
  shows "msg_to m \<noteq> [] \<and> list_all (\<lambda>a. a \<noteq> [] \<and> v a \<and> LF \<notin> set a) (msg_to m) \<and>
    (case msg_from m of None \<Rightarrow> True | Some a \<Rightarrow> a \<noteq> [] \<and> v a \<and> LF \<notin> set a) \<and>
    decode_recipients (encode_recipients (msg_to m)) = msg_to m"
proof -
  from handle_connection_effect [OF assms(2,1)] obtain added
    where a: "queued st' = queued st ++ map_of added" "\<forall>x\<in>set added. addressed v (snd x)"
    by (auto simp: turn_effect_def grows_def)
  with assms(3,4) have "map_of added i = Some m" by (auto simp: map_add_def split: option.splits)
  from map_of_SomeD [OF this] a(2) have "addressed v m" by fastforce
  moreover from this have "wf_recipients (msg_to m)" using addressed_wf by (simp add: wf_message_def)
  ultimately show ?thesis
    by (auto simp: addressed_def good_address_def list_all_iff decode_encode_recipients split: option.splits)
qed

theorem queued_are_addressed_witness:
  "list_all ex_valid (msg_to ex_message) \<and> decode_recipients (encode_recipients (msg_to ex_message)) = msg_to ex_message"
proof -
  have "queued ex_store1 1 = Some ex_message" "queued ex_store 1 \<noteq> Some ex_message"
    by (rule ex_queued)+
  from queued_are_addressed [OF ex_inv(1) ex_dialogue_run [unfolded ex_connection_def] this] show ?thesis
    by (auto simp: list_all_iff)
qed

text \<open>
  C13. A message that is cut off is never queued, whatever the client sends and however the
  connection fails, stalls or ends: every message a connection adds to the queue is the text
  of a whole block. From the start of the connection to the end of that block's terminator
  line the connection delivered bytes only; they are those of earlier commands and blocks, a
  line with the command DATA, the lines of the block, none of them a terminator, and a line
  with a single period; and the message is what the parser makes of exactly these lines. (An
  empty read is how a connection ends, so no chunk in the middle of one is empty.)
\<close>

theorem truncated_never_queued:
  assumes "handle_connection mp v cfg r faults st = (res, s', st')" and "Chunk [] \<notin> set (rd_events r)"
    and "store_inv st" and "queued st' i = Some m" and "queued st i \<noteq> Some m"
  shows "\<exists>cs rest left pre cmd ls t frm args. rd_events r = map Chunk cs @ rest \<and>
    rd_buf r @ concat cs = pre @ cmd @ concat ls @ t @ left \<and>
    is_line cmd \<and> split_whitespace (to_uppercase (trim_end_matches [CR, LF] cmd)) = ''DATA'' # args \<and>
    list_all (\<lambda>l. is_line l \<and> l \<notin> {''.'' @ crlf, ''.'' @ [LF]}) ls \<and> t \<in> {''.'' @ crlf, ''.'' @ [LF]} \<and>
    m = parse_data mp frm (msg_to m) (from_utf8_lossy (concat (map unstuff ls)))"
proof -
  from handle_connection_block [OF assms] obtain pre cmd ls frm t r' where
    1: "data_line cmd" "\<forall>l\<in>set ls. is_line l \<and> \<not> is_terminator l" "is_terminator t"
    and c: "consumes r (pre @ cmd @ concat ls @ t) r'"
    and m: "m = parse_data mp frm (msg_to m) (from_utf8_lossy (concat (map unstuff ls)))"
    unfolding block_of_def block_read_def by blast
  from c obtain cs where cs: "rd_events r = map Chunk cs @ rd_events r'"
    "rd_buf r @ concat cs = pre @ cmd @ concat ls @ t @ rd_buf r'" by (auto simp: consumes_def)
  have ls: "list_all (\<lambda>l. is_line l \<and> l \<notin> {''.'' @ crlf, ''.'' @ [LF]}) ls" "t \<in> {''.'' @ crlf, ''.'' @ [LF]}"
    using 1(2,3) by (auto simp: is_terminator_def list_all_iff)
  from 1(1) obtain args where "is_line cmd"
    "split_whitespace (to_uppercase (trim_end_matches [CR, LF] cmd)) = ''DATA'' # args"
    unfolding data_line_def by blast
  with cs ls m show ?thesis by (intro exI conjI) assumption+
qed

theorem truncated_never_queued_witness:
  "\<exists>cs rest left pre cmd ls t frm args. rd_events \<lparr>rd_buf = [], rd_events = map Chunk ex_dialogue\<rparr> = map Chunk cs @ rest \<and>
    concat cs = pre @ cmd @ concat ls @ t @ left \<and>
    split_whitespace (to_uppercase (trim_end_matches [CR, LF] cmd)) = ''DATA'' # args \<and>
    t \<in> {''.'' @ crlf, ''.'' @ [LF]} \<and>
    ex_message = parse_data ex_plain frm (msg_to ex_message) (from_utf8_lossy (concat (map unstuff ls)))"
proof -
  have 1: "Chunk [] \<notin> set (rd_events \<lparr>rd_buf = [], rd_events = map Chunk ex_dialogue\<rparr>)"
    by (simp add: ex_dialogue_def wire_def ex_wire_block_def)
  have "queued ex_store1 1 = Some ex_message" "queued ex_store 1 \<noteq> Some ex_message" by (rule ex_queued)+
  from truncated_never_queued [OF ex_dialogue_run [unfolded ex_connection_def] 1 ex_inv(1) this] show ?thesis
    by (simp only: buf_reader.simps append_Nil) blast
qed

text \<open>
  No part of an envelope reaches the next message: when a DATA command was let through and
  the session goes on, sender and recipients are cleared, whether the block was accepted,
  refused by the queue or too large.
\<close>

lemma envelope_cleared:
  assumes "data_command mp cfg s st = (Continue, s', st')" and "s_from s \<noteq> None" and "s_rcpts s \<noteq> []"
  shows "s_from s' = None \<and> s_rcpts s' = []"
  using assms(1) by (cases rule: data_command_cases) (use assms(2,3) in auto)

lemma envelope_cleared_witness:
  "let s' = ex_session [] [go_ahead @ crlf, ok_reply @ crlf] None [] in s_from s' = None \<and> s_rcpts s' = []"
  using envelope_cleared [OF turn_block [of "[]" "[]"]] by (simp add: ex_session_def)

text \<open>
  DATA needs an envelope: without a sender or without a recipient the answer is 503, no block
  is read, and neither the envelope nor the store changes.
\<close>

lemma data_needs_envelope:
  assumes "split_whitespace (to_uppercase line) = ''DATA'' # args" and "s_from s = None \<or> s_rcpts s = []"
    and "s_faults s = []"
  shows "command mp v cfg line s st = (Continue, s\<lparr>s_out := s_out s @ [''503 Bad sequence of commands'' @ crlf]\<rparr>, st)"
  using assms by (simp add: command_def data_command_def reply_def write_all_def)

lemma data_needs_envelope_witness:
  "command ex_plain ex_valid ex_smtp_config ''data'' (ex_session [] [] (Some ''s@x'') []) ex_store =
     (Continue, (ex_session [] [] (Some ''s@x'') [])\<lparr>s_out := [] @ [''503 Bad sequence of commands'' @ crlf]\<rparr>, ex_store)"
proof -
  let ?s = "ex_session [] [] (Some ''s@x'') []"
  have 1: "split_whitespace (to_uppercase ''data'') = ''DATA'' # []" by code_simp
  have 2: "s_from ?s = None \<or> s_rcpts ?s = []" "s_faults ?s = []" "s_out ?s = []" by (simp_all add: ex_session_def)
  from data_needs_envelope [OF 1 2(1,2)] show ?thesis by (simp only: 2(3))
qed

end
