(* ===== verification/Smtp_Listener.thy ===== *)
theory Smtp_Listener
  imports Smtp_Session
begin

section \<open>The SMTP listener (src/smtp/server.rs)\<close>

text \<open>
  \<open>serve_smtp\<close> with the tasks it spawned, as the step relation \<open>server_step\<close> on the permits
  that are left, the sessions and the store they share. A turn of a session is one step, or, when it
  stores a message, can be split where \<open>enqueue\<close> awaits the blocking pool: the row is committed
  first and the worker is signalled later, or never when the deadline of the session drops
  the task in between.

  Lemmas: what a turn and a step store, the invariant (interpretation \<open>listener\<close> of
  \<open>step_invariant\<close>), and that a connection handled to its end is a run. Theorem: the limit on
  connections.
\<close>

subsection \<open>Storage effect of a session\<close>

text \<open>A turn of a session leaves the tables alone or stores one message.\<close>

definition at_most_one_mail :: "(string \<Rightarrow> bool) \<Rightarrow> message_store \<Rightarrow> message_store \<Rightarrow> bool" where
  "at_most_one_mail v st st' \<longleftrightarrow>
     conn st' = conn st \<and> same_frame st st' \<or> (\<exists>m i. enqueue m st = (Inr i, st') \<and> addressed v m)"

lemma no_mail: "at_most_one_mail v st st"
  by (simp add: at_most_one_mail_def)

lemma data_command_mail:
  assumes "data_command mp cfg s st = (t, s', st')" and "sess_inv v s"
  shows "at_most_one_mail v st st'"
  using assms(1)
proof (cases rule: data_command_cases)
  case (block data r1 res)
  have "addressed v (parse_data mp (s_from s) (s_rcpts s) data)"
    using parse_data_addressed assms(2) block(2) by (auto simp: sess_inv_def)
  with block(5) show ?thesis
    by (cases res) (auto simp: at_most_one_mail_def dest: enqueue_err)
qed (simp_all add: no_mail)

lemma session_turn_mail:
  assumes "session_turn mp v cfg s st = (t, s', st')" and "sess_inv v s"
  shows "at_most_one_mail v st st'"
  using assms(1)
proof (cases rule: session_turn_cases)
  case (command line r1)
  from command(1) show ?thesis
  proof (cases rule: command_cases)
    case data
    then show ?thesis
      by (rule data_command_mail) (use assms(2) in \<open>simp add: sess_inv_def good_envelope_def\<close>)
  qed (simp add: no_mail)
qed (simp_all add: no_mail)

text \<open>The messages in rows that are new.\<close>

definition stored_rows :: "message_store \<Rightarrow> message_store \<Rightarrow> (i64 \<times> message) list" where
  "stored_rows st st' =
     map (\<lambda>r. (ob_id r, sm_message (row_to_stored r)))
       (filter (\<lambda>r. ob_id r \<notin> set (map ob_id (outbox (conn st)))) (outbox (conn st')))"

text \<open>The rows that are new in the tables are exactly the message that was stored.\<close>

lemma stored_rows_same: "conn st' = conn st \<Longrightarrow> stored_rows st st' = []"
  by (auto simp: stored_rows_def filter_empty_conv)

lemma enqueue_row:
  assumes "store_inv st" and "wf_message m" and "enqueue m st = (Inr i, st')"
  shows "\<exists>r. outbox (conn st') = outbox (conn st) @ [r] \<and> ob_id r = i \<and> sm_message (row_to_stored r) = m \<and>
    i \<notin> ob_id ` set (outbox (conn st))"
  using assms(3)
proof (cases rule: enqueue_cases)
  case (stored i' c)
  let ?row = "\<lparr>ob_id = i, from_addr = msg_from m, to_addrs = encode_recipients (msg_to m),
    ob_subject = msg_subject m, ob_body = msg_body m, ob_attempts = 0, next_attempt_at = 0, created_at = c\<rparr>"
  from stored(1,4) have i: "i = outbox_seq (conn st) + 1"
    and "conn st' = (conn st)\<lparr>outbox := outbox (conn st) @ [?row], outbox_seq := i\<rparr>"
    by (auto simp: sql_insert_outbox_def Let_def split: if_splits)
  then have "outbox (conn st') = outbox (conn st) @ [?row]" by simp
  moreover have "i \<notin> ob_id ` set (outbox (conn st))" using assms(1) i(1) by (fastforce simp: db_inv_def)
  ultimately show ?thesis using stored_row_message [OF assms(2)] by (intro exI [of _ ?row]) simp
qed auto

lemma stored_rows_enqueue:
  assumes "store_inv st" and "wf_message m" and "enqueue m st = (Inr i, st')"
  shows "stored_rows st st' = [(i, m)]"
  using enqueue_row [OF assms] by (auto simp: stored_rows_def filter_empty_conv)

text \<open>What a turn of a session stores is what the growth of its acknowledgements is bounded by.\<close>

lemma turn_records:
  assumes "session_turn mp v cfg s st = (r, s', st')" and "store_inv st" and "sess_inv v s"
    and "accepted (s_out s) < accepted (s_out s')"
  shows "\<exists>i m. stored_rows st st' = [(i, m)] \<and> addressed v m \<and> accepted (s_out s') = Suc (accepted (s_out s))"
proof -
  from session_turn_effect [OF assms(1-3)] obtain added
    where a: "grows st added st'" "accepted (s_out s') \<le> accepted (s_out s) + length added"
    by (auto simp: turn_effect_def)
  consider (same) "conn st' = conn st" | (mail) m i where "enqueue m st = (Inr i, st')" "addressed v m"
    using session_turn_mail [OF assms(1,3)] by (auto simp: at_most_one_mail_def)
  then show ?thesis
  proof cases
    case same
    have "added = []"
      using a(1) same_conn [OF same] by (cases added) (auto simp: grows_def)
    with a(2) assms(4) show ?thesis by simp
  next
    case (mail m i)
    note wf = addressed_wf [OF mail(2)]
    have "issued st \<union> fst ` set added = insert i (issued st)" "\<forall>x\<in>set added. fst x \<notin> issued st"
      "distinct (map fst added)"
      using a(1) enqueue_ok(3) [OF assms(2) wf mail(1)] by (simp_all add: grows_def)
    then have "set (map fst added) \<subseteq> {i}" "distinct (map fst added)" by auto
    then have "length (map fst added) \<le> 1"
      using card_mono [of "{i}" "set (map fst added)"] distinct_card [of "map fst added"] by simp
    with a(2) assms(4) mail stored_rows_enqueue [OF assms(2) wf mail(1)] show ?thesis by auto
  qed
qed

subsection \<open>The listener\<close>

text \<open>
  A connection is accepted when a permit is left and turned away with 421 otherwise (which
  changes nothing). A turn of any session may come next, and the deadline of a session may
  pass at any time: between turns (\<open>expire\<close>), or in a turn, after its call of \<open>enqueue\<close>
  (\<open>expire_in_turn\<close>, where the store has changed though the reply may be lost).

  \<open>sv_posting\<close> holds the sessions in the middle of \<open>enqueue\<close>: the id of the row that was
  committed, and the outcome of the turn once it goes on. \<open>post\<close> is the call of \<open>notify_one\<close>
  with the rest of the turn; \<open>cut\<close> is the deadline in between, which drops the task and with it
  that call. \<open>sv_cut\<close> records the ids of the rows this has happened to, for the statement of the
  theorems.
\<close>

record server =
  sv_permits :: nat
  sv_sessions :: "session list"
  sv_posting :: "(i64 \<times> turn \<times> session) list"
  sv_cut :: "i64 set"
  sv_store :: message_store

definition remove_at :: "nat \<Rightarrow> 'a list \<Rightarrow> 'a list" where
  "remove_at i xs = take i xs @ drop (Suc i) xs"

definition server_start :: "smtp_config \<Rightarrow> message_store \<Rightarrow> server" where
  "server_start cfg st =
     \<lparr>sv_permits = max 1 (max_connections cfg), sv_sessions = [], sv_posting = [], sv_cut = {}, sv_store = st\<rparr>"

inductive server_step ::
  "'p mailparse \<Rightarrow> (string \<Rightarrow> bool) \<Rightarrow> smtp_config \<Rightarrow> server \<Rightarrow> server \<Rightarrow> bool"
  for mp :: "'p mailparse" and v :: "string \<Rightarrow> bool" and cfg :: smtp_config where
  accept: "sv_permits sv = Suc n \<Longrightarrow>
    reply ''220 chimney-post ESMTP'' Continue (new_session r faults) = (Continue, s) \<Longrightarrow>
    server_step mp v cfg sv (sv\<lparr>sv_permits := n, sv_sessions := sv_sessions sv @ [s]\<rparr>)"
| reject: "sv_permits sv = 0 \<Longrightarrow> server_step mp v cfg sv sv"
| turn: "i < length (sv_sessions sv) \<Longrightarrow>
    session_turn mp v cfg (sv_sessions sv ! i) (sv_store sv) = (Continue, s', st') \<Longrightarrow>
    server_step mp v cfg sv (sv\<lparr>sv_sessions := (sv_sessions sv)[i := s'], sv_store := st'\<rparr>)"
| last_turn: "i < length (sv_sessions sv) \<Longrightarrow>
    session_turn mp v cfg (sv_sessions sv ! i) (sv_store sv) = (Close q, s', st') \<Longrightarrow>
    server_step mp v cfg sv
      (sv\<lparr>sv_permits := sv_permits sv + 1, sv_sessions := remove_at i (sv_sessions sv), sv_store := st'\<rparr>)"
| expire: "i < length (sv_sessions sv) \<Longrightarrow>
    server_step mp v cfg sv (sv\<lparr>sv_permits := sv_permits sv + 1, sv_sessions := remove_at i (sv_sessions sv)\<rparr>)"
| expire_in_turn: "i < length (sv_sessions sv) \<Longrightarrow>
    session_turn mp v cfg (sv_sessions sv ! i) (sv_store sv) = (t, s', st') \<Longrightarrow>
    server_step mp v cfg sv
      (sv\<lparr>sv_permits := sv_permits sv + 1, sv_sessions := remove_at i (sv_sessions sv), sv_store := st'\<rparr>)"
| commit: "i < length (sv_sessions sv) \<Longrightarrow>
    session_turn mp v cfg (sv_sessions sv ! i) (sv_store sv) = (t, s', st') \<Longrightarrow>
    stored_rows (sv_store sv) st' = [(rid, m)] \<Longrightarrow>
    server_step mp v cfg sv
      (sv\<lparr>sv_sessions := remove_at i (sv_sessions sv), sv_posting := sv_posting sv @ [(rid, t, s')],
          sv_store := st'\<lparr>notify := notify (sv_store sv)\<rparr>\<rparr>)"
| post: "i < length (sv_posting sv) \<Longrightarrow> sv_posting sv ! i = (rid, Continue, s') \<Longrightarrow>
    server_step mp v cfg sv
      (sv\<lparr>sv_sessions := sv_sessions sv @ [s'], sv_posting := remove_at i (sv_posting sv),
          sv_store := (sv_store sv)\<lparr>notify := True\<rparr>\<rparr>)"
| post_last: "i < length (sv_posting sv) \<Longrightarrow> sv_posting sv ! i = (rid, Close q, s') \<Longrightarrow>
    server_step mp v cfg sv
      (sv\<lparr>sv_permits := sv_permits sv + 1, sv_posting := remove_at i (sv_posting sv),
          sv_store := (sv_store sv)\<lparr>notify := True\<rparr>\<rparr>)"
| cut: "i < length (sv_posting sv) \<Longrightarrow> sv_posting sv ! i = (rid, t, s') \<Longrightarrow>
    server_step mp v cfg sv
      (sv\<lparr>sv_permits := sv_permits sv + 1, sv_posting := remove_at i (sv_posting sv),
          sv_cut := insert rid (sv_cut sv)\<rparr>)"

inductive_cases server_stepE: "server_step mp v cfg sv sv'"

definition server_init :: "smtp_config \<Rightarrow> server \<Rightarrow> bool" where
  "server_init cfg sv \<longleftrightarrow> store_inv (sv_store sv) \<and> sv = server_start cfg (sv_store sv)"

definition server_inv :: "(string \<Rightarrow> bool) \<Rightarrow> smtp_config \<Rightarrow> server \<Rightarrow> bool" where
  "server_inv v cfg sv \<longleftrightarrow>
     store_inv (sv_store sv) \<and>
     sv_permits sv + length (sv_sessions sv) + length (sv_posting sv) = max 1 (max_connections cfg) \<and>
     (\<forall>s\<in>set (sv_sessions sv). sess_inv v s) \<and>
     (\<forall>(rid, t, s)\<in>set (sv_posting sv). t = Continue \<longrightarrow> sess_inv v s)"

lemma remove_at_length: "i < length xs \<Longrightarrow> length (remove_at i xs) + 1 = length xs"
  by (simp add: remove_at_def)

lemma remove_at_set: "set (remove_at i xs) \<subseteq> set xs"
  using set_take_subset [of i xs] set_drop_subset [of "Suc i" xs] by (auto simp: remove_at_def)

lemma greeting_inv: "reply ''220 chimney-post ESMTP'' Continue (new_session r faults) = (t, s) \<Longrightarrow> sess_inv v s"
  by (drule reply_frame) (auto simp: sess_inv_def good_envelope_def new_session_def go_ahead_def)

lemma turn_keeps_inv:
  assumes "server_inv v cfg sv" and "i < length (sv_sessions sv)"
    and "session_turn mp v cfg (sv_sessions sv ! i) (sv_store sv) = (t, s', st')"
  shows "store_inv st' \<and> (t = Continue \<longrightarrow> sess_inv v s')"
proof -
  have "store_inv (sv_store sv)" "sess_inv v (sv_sessions sv ! i)" using assms(1,2) by (simp_all add: server_inv_def)
  from session_turn_effect [OF assms(3) this] show ?thesis by (auto simp: turn_effect_def grows_def)
qed

text \<open>A session that ends or posts leaves its place; what was posted goes.\<close>

lemma session_removed:
  assumes "server_inv v cfg sv" and "i < length (sv_sessions sv)" and "store_inv st"
  shows "server_inv v cfg (sv\<lparr>sv_permits := sv_permits sv + 1, sv_sessions := remove_at i (sv_sessions sv), sv_store := st\<rparr>)"
    and "t = Continue \<longrightarrow> sess_inv v s' \<Longrightarrow> server_inv v cfg (sv\<lparr>sv_sessions := remove_at i (sv_sessions sv),
      sv_posting := sv_posting sv @ [(rid, t, s')], sv_store := st\<rparr>)"
proof -
  have n: "sv_permits sv + 1 + length (remove_at i (sv_sessions sv)) + length (sv_posting sv) = max 1 (max_connections cfg)"
    using assms(1) remove_at_length [OF assms(2)] by (simp add: server_inv_def)
  have "\<forall>s\<in>set (remove_at i (sv_sessions sv)). sess_inv v s"
    using assms(1) remove_at_set [of i "sv_sessions sv"] by (auto simp: server_inv_def)
  with n assms(1,3) show
    "server_inv v cfg (sv\<lparr>sv_permits := sv_permits sv + 1, sv_sessions := remove_at i (sv_sessions sv), sv_store := st\<rparr>)"
    "t = Continue \<longrightarrow> sess_inv v s' \<Longrightarrow> server_inv v cfg (sv\<lparr>sv_sessions := remove_at i (sv_sessions sv),
      sv_posting := sv_posting sv @ [(rid, t, s')], sv_store := st\<rparr>)"
    by (simp_all add: server_inv_def)
qed

lemma posting_removed:
  assumes "server_inv v cfg sv" and "i < length (sv_posting sv)"
  shows "sv_permits sv + 1 + length (sv_sessions sv) + length (remove_at i (sv_posting sv)) = max 1 (max_connections cfg)"
    and "\<forall>(rid, t, s)\<in>set (remove_at i (sv_posting sv)). t = Continue \<longrightarrow> sess_inv v s"
  using assms(1) remove_at_length [OF assms(2)] remove_at_set [of i "sv_posting sv"] by (auto simp: server_inv_def)

lemma server_inv_step:
  assumes "server_inv v cfg sv" and "server_step mp v cfg sv sv'"
  shows "server_inv v cfg sv'"
proof -
  note eff = turn_keeps_inv [OF assms(1)]
  have st: "store_inv (sv_store sv)" using assms(1) by (simp add: server_inv_def)
  from assms(2) show ?thesis
  proof (cases rule: server_step.cases)
    case (accept n r faults s)
    with assms(1) greeting_inv [OF accept(3)] show ?thesis by (auto simp: server_inv_def)
  next
    case (turn i s' st')
    with assms(1) eff [OF turn(2,3)] show ?thesis
      by (auto simp: server_inv_def dest: set_update_subset_insert [THEN subsetD])
  next
    case (last_turn i q s' st')
    with session_removed(1) [OF assms(1) last_turn(2)] eff [OF last_turn(2,3)] show ?thesis by simp
  next
    case (expire i)
    with session_removed(1) [OF assms(1) expire(2) st] show ?thesis by simp
  next
    case (expire_in_turn i t s' st')
    with session_removed(1) [OF assms(1) expire_in_turn(2)] eff [OF expire_in_turn(2,3)] show ?thesis by simp
  next
    case (commit i t s' st' rid m)
    with session_removed(2) [OF assms(1) commit(2)] eff [OF commit(2,3)] show ?thesis by simp
  next
    case (post i rid s')
    have "sess_inv v s'" using assms(1) nth_mem [OF post(2)] post(3) by (fastforce simp: server_inv_def)
    with assms(1) posting_removed [OF assms(1) post(2)] post(1) show ?thesis by (simp add: server_inv_def)
  next
    case (post_last i rid q s')
    with assms(1) posting_removed [OF assms(1) post_last(2)] show ?thesis by (simp add: server_inv_def)
  next
    case (cut i rid t s')
    with assms(1) posting_removed [OF assms(1) cut(2)] show ?thesis by (simp add: server_inv_def)
  qed (use assms(1) in simp)
qed

interpretation listener: step_invariant "server_init cfg" "server_step mp v cfg" "server_inv v cfg"
  for mp :: "'p mailparse" and v :: "string \<Rightarrow> bool" and cfg :: smtp_config
proof
  show "server_init cfg sv \<Longrightarrow> server_inv v cfg sv" for sv
    unfolding server_init_def server_inv_def
    by (elim conjE, erule ssubst) (simp add: server_start_def)
  show "server_inv v cfg sv \<Longrightarrow> server_step mp v cfg sv sv' \<Longrightarrow> server_inv v cfg sv'" for sv sv'
    by (rule server_inv_step)
qed

text \<open>A connection handled to its end, with no other in between, is a run of the listener.\<close>

lemma loop_run:
  "connection_loop mp v cfg s st = (res, s', st') \<Longrightarrow> sv_sessions sv = xs @ [s] \<Longrightarrow> sv_store sv = st \<Longrightarrow>
   (server_step mp v cfg)\<^sup>*\<^sup>* sv (sv\<lparr>sv_permits := sv_permits sv + 1, sv_sessions := xs, sv_store := st'\<rparr>)"
proof (induction mp v cfg s st arbitrary: sv rule: connection_loop.induct)
  case (1 mp v cfg s st)
  obtain t s1 st1 where t: "session_turn mp v cfg s st = (t, s1, st1)" by (metis prod_cases3)
  have n: "length xs < length (sv_sessions sv)" and s: "sv_sessions sv ! length xs = s"
    using "1.prems"(2) by simp_all
  have turn: "session_turn mp v cfg (sv_sessions sv ! length xs) (sv_store sv) = (t, s1, st1)"
    using t s "1.prems"(3) by simp
  show ?case
  proof (cases t)
    case (Close q)
    with t "1.prems"(1) have "st' = st1" by (simp add: connection_loop.simps [of mp v cfg s st])
    moreover have "remove_at (length xs) (sv_sessions sv) = xs" by (simp add: remove_at_def "1.prems"(2))
    ultimately show ?thesis using server_step.last_turn [OF n turn [unfolded Close]] by auto
  next
    case Continue
    let ?sv = "sv\<lparr>sv_sessions := xs @ [s1], sv_store := st1\<rparr>"
    have "server_step mp v cfg sv ?sv"
      using server_step.turn [OF n turn [unfolded Continue]] "1.prems"(2) by simp
    moreover have "connection_loop mp v cfg s1 st1 = (res, s', st')"
      using t "1.prems"(1) Continue by (simp add: connection_loop.simps [of mp v cfg s st])
    from "1.IH" [OF t [symmetric] Continue refl this, of ?sv]
    have "(server_step mp v cfg)\<^sup>*\<^sup>* ?sv (sv\<lparr>sv_permits := sv_permits sv + 1, sv_sessions := xs, sv_store := st'\<rparr>)"
      by simp
    ultimately show ?thesis by (rule converse_rtranclp_into_rtranclp)
  qed
qed

lemma handle_connection_run:
  assumes "0 < sv_permits sv" and "handle_connection mp v cfg r faults (sv_store sv) = (res, s', st')"
  shows "(server_step mp v cfg)\<^sup>*\<^sup>* sv (sv\<lparr>sv_store := st'\<rparr>)"
proof -
  obtain t s where t: "reply ''220 chimney-post ESMTP'' Continue (new_session r faults) = (t, s)" by fastforce
  show ?thesis
  proof (cases t)
    case (Close q)
    with t assms(2) have "st' = sv_store sv" by (simp add: handle_connection_def)
    then show ?thesis by simp
  next
    case Continue
    from assms(1) obtain n where n: "sv_permits sv = Suc n" by (cases "sv_permits sv") auto
    let ?sv = "sv\<lparr>sv_permits := n, sv_sessions := sv_sessions sv @ [s]\<rparr>"
    have step: "server_step mp v cfg sv ?sv" using server_step.accept [OF n] t Continue by simp
    have "connection_loop mp v cfg s (sv_store sv) = (res, s', st')"
      using t assms(2) Continue by (simp add: handle_connection_def)
    moreover have "sv\<lparr>sv_permits := Suc n, sv_store := st'\<rparr> = sv\<lparr>sv_store := st'\<rparr>"
      using n by (cases sv) simp
    ultimately have "(server_step mp v cfg)\<^sup>*\<^sup>* ?sv (sv\<lparr>sv_store := st'\<rparr>)"
      using loop_run [of mp v cfg s "sv_store sv" res s' st' ?sv "sv_sessions sv"] by simp
    with step show ?thesis by (rule converse_rtranclp_into_rtranclp)
  qed
qed

text \<open>
  What a step does to the store: it leaves the tables alone and at most sets the permit, or it
  stores one addressed message, and then either sets the permit or the session waits to do so.
\<close>

definition unposted :: "server \<Rightarrow> i64 set" where
  "unposted sv = fst ` set (sv_posting sv) \<union> sv_cut sv"

lemma remove_at_Un: "i < length xs \<Longrightarrow> set xs = insert (xs ! i) (set (remove_at i xs))"
  by (metis id_take_nth_drop list.simps(15) remove_at_def set_append Un_insert_right)

lemma session_turn_frame:
  assumes "session_turn mp v cfg s st = (t, s', st')" and "sess_inv v s" and "store_inv st"
  obtains (same) "conn st' = conn st" "notify st' = notify st"
    | (mail) m rid where "enqueue m st = (Inr rid, st')" "addressed v m" "notify st'" "stored_rows st st' = [(rid, m)]"
proof -
  consider "conn st' = conn st \<and> same_frame st st'" | m rid where "enqueue m st = (Inr rid, st')" "addressed v m"
    using session_turn_mail [OF assms(1,2)] by (auto simp: at_most_one_mail_def)
  then show thesis
  proof cases
    case 1
    then show thesis using same by (auto dest: same_frame_notify)
  next
    case (2 m rid)
    from mail [OF this enqueue_ok(5) [OF assms(3) addressed_wf [OF 2(2)] 2(1)]
        stored_rows_enqueue [OF assms(3) addressed_wf [OF 2(2)] 2(1)]] show thesis .
  qed
qed

lemma server_step_store:
  assumes "server_step mp v cfg sv sv'" and "server_inv v cfg sv"
  obtains
    (same) "conn (sv_store sv') = conn (sv_store sv)"
      "notify (sv_store sv') \<or> \<not> notify (sv_store sv) \<and> unposted sv' = unposted sv"
    | (mail) m rid st where "enqueue m (sv_store sv) = (Inr rid, st)" "addressed v m"
      "conn (sv_store sv') = conn st"
      "notify (sv_store sv') \<or> \<not> notify (sv_store sv) \<and> unposted sv' = insert rid (unposted sv)"
proof -
  have inv: "store_inv (sv_store sv)" using assms(2) by (simp add: server_inv_def)
  have turns: thesis
    if i: "i < length (sv_sessions sv)" and t: "session_turn mp v cfg (sv_sessions sv ! i) (sv_store sv) = (t, s', sv_store sv')"
      and u: "unposted sv' = unposted sv" for i t s'
  proof -
    have "sess_inv v (sv_sessions sv ! i)" using i assms(2) by (simp add: server_inv_def)
    from t this inv show thesis
      by (cases rule: session_turn_frame) (use u same mail in blast)+
  qed
  from assms(1) show thesis
  proof (cases rule: server_step.cases)
    case (commit i t s' st' rid m)
    have "sess_inv v (sv_sessions sv ! i)" using commit(2) assms(2) by (simp add: server_inv_def)
    from commit(3) this inv show thesis
    proof (cases rule: session_turn_frame)
      case same
      with commit(4) stored_rows_same [of st' "sv_store sv"] show thesis by simp
    next
      case (mail m' rid')
      with commit(4) have "rid' = rid" by simp
      with commit(1) mail show thesis by (intro that(2) [of m' rid st']) (auto simp: unposted_def)
    qed
  next
    case (cut i rid t s')
    have "set (sv_posting sv) = insert (rid, t, s') (set (remove_at i (sv_posting sv)))"
      using remove_at_Un [OF cut(2)] cut(3) by simp
    then have "unposted sv' = unposted sv" unfolding unposted_def cut(1) by simp
    with cut(1) same show thesis by simp
  qed (auto simp: unposted_def intro: turns same)
qed

text \<open>What is in the queue after a step was there or is recorded as stored.\<close>

lemma server_step_recorded:
  assumes "server_step mp v cfg sv sv'" and "server_inv v cfg sv" and "queued (sv_store sv') i = Some m"
  shows "queued (sv_store sv) i = Some m \<or> (i, m) \<in> set (stored_rows (sv_store sv) (sv_store sv'))"
  using assms(1,2)
proof (cases rule: server_step_store)
  case same
  with assms(3) show ?thesis using same_conn [OF same(1)] by simp
next
  case (mail m' i' st)
  have inv: "store_inv (sv_store sv)" using assms(2) by (simp add: server_inv_def)
  note wf = addressed_wf [OF mail(2)]
  have "stored_rows (sv_store sv) (sv_store sv') = stored_rows (sv_store sv) st"
    using mail(3) by (simp add: stored_rows_def)
  with assms(3) enqueue_ok(1) [OF inv wf mail(1)] stored_rows_enqueue [OF inv wf mail(1)] same_conn [OF mail(3)]
  show ?thesis by (auto split: if_splits)
qed

subsection \<open>Properties\<close>

text \<open>
  C24. The number of sessions never exceeds the configured limit (at least one), and a permit that
  a session took comes back when it ends, however it ends: permits and sessions, those in the
  middle of storing a message included, always add up to the limit.
\<close>

theorem connection_limit:
  assumes "reach (server_init cfg) (server_step mp v cfg) sv"
  shows "sv_permits sv + length (sv_sessions sv) + length (sv_posting sv) = max 1 (max_connections cfg)"
  using listener.reach_inv [OF assms] by (auto simp: server_inv_def)

theorem connection_limit_witness:
  "let sv = \<lparr>sv_permits = 1, sv_sessions = [ex_session [] [''220 chimney-post ESMTP'' @ crlf] None []],
     sv_posting = [], sv_cut = {}, sv_store = ex_store\<rparr>
   in sv_permits sv + length (sv_sessions sv) + length (sv_posting sv) = max 1 (max_connections ex_smtp_config)"
proof -
  let ?s = "ex_session [] [''220 chimney-post ESMTP'' @ crlf] None []"
  let ?sv = "\<lparr>sv_permits = 1, sv_sessions = [?s], sv_posting = [], sv_cut = {}, sv_store = ex_store\<rparr>"
  have "server_init ex_smtp_config (server_start ex_smtp_config ex_store)"
    by (simp add: server_init_def server_start_def)
  then have 0: "reach (server_init ex_smtp_config) (server_step ex_plain ex_valid ex_smtp_config) (server_start ex_smtp_config ex_store)"
    by (rule reach.start)
  have "server_step ex_plain ex_valid ex_smtp_config (server_start ex_smtp_config ex_store)
      ((server_start ex_smtp_config ex_store)\<lparr>sv_permits := 1, sv_sessions := sv_sessions (server_start ex_smtp_config ex_store) @ [?s]\<rparr>)"
  proof (rule server_step.accept)
    show "sv_permits (server_start ex_smtp_config ex_store) = Suc 1"
      by (simp add: server_start_def ex_smtp_config_def)
    show "reply ''220 chimney-post ESMTP'' Continue (new_session \<lparr>rd_buf = [], rd_events = []\<rparr> []) = (Continue, ?s)"
      by (simp add: reply_def write_all_def new_session_def ex_session_def)
  qed
  then have "server_step ex_plain ex_valid ex_smtp_config (server_start ex_smtp_config ex_store) ?sv"
    by (simp add: server_start_def)
  with 0 have "reach (server_init ex_smtp_config) (server_step ex_plain ex_valid ex_smtp_config) ?sv"
    by (rule reach.move)
  from connection_limit [OF this] show ?thesis by (simp only: Let_def)
qed

end
