(* ===== verification/Program.thy ===== *)
theory Program
  imports Matrix_Client Delivery Worker_Run Smtp_Listener
begin

section \<open>The program (src/main.rs and the bind of src/smtp/server.rs)\<close>

text \<open>
  How \<open>main\<close> wires the components: the start-up sequence up to readiness, the closure that
  connects to Matrix and the client as the worker's sink, the monitor, and the ways the
  process ends. The log filter and the socket are parameters.

  The interface \<open>worker_env\<close> of the worker is interpreted on the Matrix client here.
\<close>

subsection \<open>Start-up\<close>

datatype notify_state = Ready | Stopping | Watchdog | Status string

datatype log_style = Json | Pretty

definition init_tracing :: "(string \<Rightarrow> string + unit) \<Rightarrow> config \<Rightarrow> log_style result" where
  "init_tracing env_filter cfg =
     (case env_filter (log_level (cfg_logging cfg)) of
        Inl e \<Rightarrow> Inl (Config (''invalid log level: '' @ e))
      | Inr _ \<Rightarrow> if log_format (cfg_logging cfg) = ''json'' then Inr Json else Inr Pretty)"

definition bind_smtp :: "(ip_addr \<times> nat \<Rightarrow> string + unit) \<Rightarrow> config \<Rightarrow> (ip_addr \<times> nat) result" where
  "bind_smtp tcp_bind cfg =
     (case parse_socket_addr (smtp_bind (cfg_smtp cfg)) of
        None \<Rightarrow> Inl (Config ''smtp.bind must be a valid SocketAddr'')
      | Some addr \<Rightarrow> (case tcp_bind addr of Inl e \<Rightarrow> Inl (Io e) | Inr _ \<Rightarrow> Inr addr))"

text \<open>Bind and serve in one call: the listener that is then served by \<open>server_step\<close>.\<close>

definition start_smtp_server :: "(ip_addr \<times> nat \<Rightarrow> string + unit) \<Rightarrow> config \<Rightarrow> message_store \<Rightarrow> server result" where
  "start_smtp_server tcp_bind cfg st =
     (case bind_smtp tcp_bind cfg of
        Inl e \<Rightarrow> Inl e
      | Inr _ \<Rightarrow> Inr (server_start (cfg_smtp cfg) st))"

text \<open>\<open>main\<close> up to the readiness notification, which is in the list that is returned.\<close>

definition main_start ::
  "config result \<Rightarrow> (string \<Rightarrow> string + unit) \<Rightarrow> storage_env \<Rightarrow>
   (ip_addr \<times> nat \<Rightarrow> string + unit) \<Rightarrow>
   (config \<times> message_store \<times> (ip_addr \<times> nat)) result \<times> notify_state list" where
  "main_start loaded env_filter env tcp_bind =
     (case loaded of
        Inl e \<Rightarrow> (Inl e, [])
      | Inr cfg \<Rightarrow>
          (case init_tracing env_filter cfg of
             Inl e \<Rightarrow> (Inl e, [])
           | Inr _ \<Rightarrow>
               (case open_with_max_len env (db_path (cfg_queue cfg)) (q_max_len (cfg_queue cfg)) of
                  Inl e \<Rightarrow> (Inl e, [])
                | Inr st \<Rightarrow>
                    (case bind_smtp tcp_bind cfg of
                       Inl e \<Rightarrow> (Inl e, [])
                     | Inr addr \<Rightarrow>
                         (Inr (cfg, st, addr), [Ready, Status ''accepting mail; connecting to Matrix''])))))"

definition worker_of :: "config \<Rightarrow> delivery_worker" where
  "worker_of cfg =
     \<lparr>delivery_worker.max_retries = q_max_retries (cfg_queue cfg),
      delivery_worker.retry_backoff = q_retry_backoff (cfg_queue cfg)\<rparr>"

subsection \<open>The Matrix client as the sink\<close>

text \<open>
  The worker's side of Matrix: the environment, the client once it is connected, the flag the
  monitor reads, and, for the statement of the theorems, the messages whose send was
  acknowledged, and those that were given to the client to send, with their transaction ids.
\<close>

record ('s, 'user, 'room, 'client) mx_world =
  mx_env :: 's
  mx_client :: "('user, 'room, 'client) matrix_client option"
  mx_connected :: bool
  mx_log :: "(string \<times> message) list"
  mx_tried :: "(string \<times> message) list"

definition connect_closure ::
  "('s, 'url, 'user, 'room, 'client, 'handle) sdk \<Rightarrow> ('url, 'user, 'room) identifiers \<Rightarrow> config \<Rightarrow>
   ('s, 'user, 'room, 'client) mx_world \<Rightarrow> unit result \<times> ('s, 'user, 'room, 'client) mx_world" where
  "connect_closure sdk ids cfg w =
     (case connect sdk ids cfg (mx_env w) of
        (Inl e, s) \<Rightarrow> (Inl e, w\<lparr>mx_env := s\<rparr>)
      | (Inr client, s) \<Rightarrow> (Inr (), w\<lparr>mx_env := s, mx_client := Some client, mx_connected := True\<rparr>))"

text \<open>The worker delivers through the client it got; before that there is no call to model.\<close>

definition deliver ::
  "('s, 'url, 'user, 'room, 'client, 'handle) sdk \<Rightarrow> ('env, 'tmpl) minijinja \<Rightarrow> message \<Rightarrow> string \<Rightarrow>
   ('s, 'user, 'room, 'client) mx_world \<Rightarrow> unit result \<times> ('s, 'user, 'room, 'client) mx_world" where
  "deliver sdk j m key w =
     (case mx_client w of
        None \<Rightarrow> (Inl (Matrix ''no client''), w)
      | Some client \<Rightarrow>
          (case send_message sdk j client m key (mx_env w) of
             (Inl e, s) \<Rightarrow> (Inl e, w\<lparr>mx_env := s, mx_tried := mx_tried w @ [(key, m)]\<rparr>)
           | (Inr _, s) \<Rightarrow>
               (Inr (), w\<lparr>mx_env := s, mx_log := mx_log w @ [(key, m)], mx_tried := mx_tried w @ [(key, m)]\<rparr>)))"

lemma deliver_log:
  "deliver sdk j m k w = (Inr u, w') \<Longrightarrow> mx_log w' = mx_log w @ [(k, m)] \<and> mx_tried w' = mx_tried w @ [(k, m)]"
  "deliver sdk j m k w = (Inl e, w') \<Longrightarrow> mx_log w' = mx_log w \<and>
     (mx_tried w' = mx_tried w \<or> mx_tried w' = mx_tried w @ [(k, m)])"
  by (auto simp: deliver_def split: option.splits prod.splits sum.splits)

interpretation matrix: worker_env "deliver sdk j" mx_log mx_tried "connect_closure sdk ids cfg" "worker_of cfg"
  for sdk :: "('s, 'url, 'user, 'room, 'client, 'handle) sdk"
    and j :: "('env, 'tmpl) minijinja" and ids :: "('url, 'user, 'room) identifiers" and cfg :: config
  by unfold_locales
    (auto dest: deliver_log simp: connect_closure_def split: prod.splits sum.splits)

subsection \<open>The monitor\<close>

definition unwrap_or_zero :: "usize result \<Rightarrow> usize" where
  "unwrap_or_zero r = (case r of Inl _ \<Rightarrow> 0 | Inr n \<Rightarrow> n)"

definition status_text :: "bool \<Rightarrow> usize \<Rightarrow> usize \<Rightarrow> string" where
  "status_text connected queue dead =
     (if connected then ''connected'' else ''connecting to Matrix'') @
     ''; queued='' @ nat_str queue @ '' dead_letter='' @ nat_str dead"

text \<open>
  One turn of the loop of \<open>run_monitor\<close>: the notifications, whether the two warnings are
  logged, and the count to compare with in the next turn.
\<close>

record monitor_report =
  rp_notify :: "notify_state list"
  rp_warn_dead :: bool
  rp_warn_queuing :: bool
  rp_last_dead :: usize

definition monitor_turn :: "bool \<Rightarrow> usize \<Rightarrow> message_store \<Rightarrow> monitor_report \<times> message_store" where
  "monitor_turn connected last_dead_letter st =
     (case len st of (q, st1) \<Rightarrow>
       (case dead_letter_len st1 of (d, st2) \<Rightarrow>
          let queue = unwrap_or_zero q; dead = unwrap_or_zero d in
          (\<lparr>rp_notify = [Watchdog, Status (status_text connected queue dead)],
            rp_warn_dead = (last_dead_letter < dead),
            rp_warn_queuing = (\<not> connected \<and> 0 < queue),
            rp_last_dead = dead\<rparr>, st2)))"

subsection \<open>The end\<close>

datatype 'a joined = Finished 'a | Panicked string

datatype main_event = Smtp_ended "unit result joined" | Worker_ended "unit joined" | Sigint | Sigterm

definition main_select :: "main_event \<Rightarrow> unit result option" where
  "main_select ev =
     (case ev of
        Smtp_ended (Panicked e) \<Rightarrow> Some (Inl (Smtp (''SMTP task panicked: '' @ e)))
      | Smtp_ended (Finished (Inl e)) \<Rightarrow> Some (Inl e)
      | Smtp_ended (Finished (Inr _)) \<Rightarrow> Some (Inl (Smtp ''SMTP server exited unexpectedly''))
      | Worker_ended (Panicked e) \<Rightarrow> Some (Inl (Matrix (''delivery worker panicked: '' @ e)))
      | Worker_ended (Finished _) \<Rightarrow> Some (Inl (Matrix ''delivery worker exited unexpectedly''))
      | Sigint \<Rightarrow> None
      | Sigterm \<Rightarrow> None)"

text \<open>
  The rest of \<open>main\<close> after the tasks were spawned: the handler of SIGTERM is installed, the
  first event decides, and after a signal the SMTP task is aborted, the worker is told to
  drain, and how the drain ended (in time, by a panic, by the deadline of 30 seconds) is
  logged. Returned are the result of the process, the notifications, and that log line.
\<close>

definition SHUTDOWN_DRAIN_SECONDS :: u64 where
  "SHUTDOWN_DRAIN_SECONDS = 30"

definition RECONNECT_BACKOFF_SECONDS :: u64 where
  "RECONNECT_BACKOFF_SECONDS = 10"

definition MONITOR_INTERVAL_SECONDS :: u64 where
  "MONITOR_INTERVAL_SECONDS = 60"

definition drain_report :: "nat \<times> unit joined \<Rightarrow> string" where
  "drain_report end_of_task =
     (case end_of_task of (seconds, outcome) \<Rightarrow>
        if seconds < unat SHUTDOWN_DRAIN_SECONDS then
          (case outcome of
             Finished _ \<Rightarrow> ''delivery queue drained; exiting''
           | Panicked _ \<Rightarrow> ''delivery worker join error during shutdown'')
        else ''timed out draining delivery queue; undelivered messages remain persisted for retry'')"

definition main_finish ::
  "string + unit \<Rightarrow> main_event \<Rightarrow> nat \<times> unit joined \<Rightarrow> unit result \<times> notify_state list \<times> string option" where
  "main_finish sigterm ev end_of_task =
     (case sigterm of
        Inl e \<Rightarrow> (Inl (Io e), [], None)
      | Inr _ \<Rightarrow>
          (case main_select ev of
             Some r \<Rightarrow> (r, [], None)
           | None \<Rightarrow> (Inr (), [Stopping], Some (drain_report end_of_task))))"

subsection \<open>Properties\<close>

text \<open>The two counts read the tables and change nothing.\<close>

lemma read_frame:
  assumes "with_conn (exec_sql q) st = (r, st')" and "\<And>db a db'. q db = Inr (a, db') \<Longrightarrow> db' = db"
  shows "conn st' = conn st \<and> same_frame st st'"
  using assms(1) by (rule with_conn_exec_sql_cases) (auto dest: assms(2))

lemma len_frame: "len st = (q, st') \<Longrightarrow> conn st' = conn st \<and> same_frame st st'"
  by (auto simp: len_def sql_count_outbox_def dest: read_frame split: prod.splits sum.splits)

lemma dead_letter_len_frame: "dead_letter_len st = (q, st') \<Longrightarrow> conn st' = conn st \<and> same_frame st st'"
  by (auto simp: dead_letter_len_def sql_count_dead_def dest: read_frame split: prod.splits sum.splits)

lemma monitor_turn_frame: "monitor_turn c n st = (rp, st') \<Longrightarrow> conn st' = conn st \<and> same_frame st st'"
  by (auto simp: monitor_turn_def Let_def dest!: len_frame dead_letter_len_frame
      intro: same_frame_trans split: prod.splits)

lemma counts_no_fault:
  assumes "sql_faults st = []"
  shows "len st = (Inr (length (outbox (conn st))), st)"
    and "dead_letter_len st = (Inr (length (dead_letters (conn st))), st)"
  using assms
  by (simp_all add: len_def dead_letter_len_def with_conn_no_fault exec_sql_no_fault
      sql_count_outbox_def sql_count_dead_def)

text \<open>
  The monitor reports the truth when the storage answers: the status line has the exact
  numbers of queued and of dead messages, the warnings are given exactly when dead letters
  were added since the last turn and when mail is waiting without a connection, and the
  tables are never changed.
\<close>

lemma monitor_reports:
  assumes "sql_faults st = []" and "monitor_turn connected seen st = (rp, st')"
  shows "rp_notify rp = [Watchdog, Status ((if connected then ''connected'' else ''connecting to Matrix'') @
      ''; queued='' @ nat_str (length (outbox (conn st))) @ '' dead_letter='' @ nat_str (length (dead_letters (conn st))))] \<and>
    (rp_warn_dead rp \<longleftrightarrow> seen < length (dead_letters (conn st))) \<and>
    (rp_warn_queuing rp \<longleftrightarrow> \<not> connected \<and> outbox (conn st) \<noteq> []) \<and>
    rp_last_dead rp = length (dead_letters (conn st)) \<and> conn st' = conn st"
  using assms(2) monitor_turn_frame [OF assms(2)]
  by (auto simp: monitor_turn_def Let_def counts_no_fault [OF assms(1)] unwrap_or_zero_def status_text_def)

lemma monitor_reports_witness:
  "let rp = fst (monitor_turn False 0 ex_store1) in
     rp_notify rp = [Watchdog, Status (''connecting to Matrix'' @ ''; queued='' @ nat_str 1 @ '' dead_letter='' @ nat_str 0)] \<and>
     rp_warn_queuing rp \<and> \<not> rp_warn_dead rp"
proof -
  have c: "length (outbox (conn ex_store1)) = 1" "length (dead_letters (conn ex_store1)) = 0" "outbox (conn ex_store1) \<noteq> []"
    by (simp_all add: ex_store1_def empty_database_def)
  obtain rp st' where m: "monitor_turn False 0 ex_store1 = (rp, st')" by fastforce
  from monitor_reports [OF ex_inv1(2) m] show ?thesis unfolding m c(1,2) using c(3) by simp
qed

text \<open>
  The process reports success only after a signal: if the SMTP task or the worker ends
  by itself, even without an error, or the signal handler cannot be installed, the result is
  an error and nothing is notified; after a signal the result is success and the stopping
  notification is sent, however and whenever the drain ends.
\<close>

lemma exit_status:
  "(fst (main_finish sigterm ev end_of_task) = Inr () \<longleftrightarrow> sigterm = Inr () \<and> (ev = Sigint \<or> ev = Sigterm)) \<and>
   (fst (snd (main_finish sigterm ev end_of_task)) = [Stopping] \<longleftrightarrow> fst (main_finish sigterm ev end_of_task) = Inr ()) \<and>
   (snd (snd (main_finish sigterm ev end_of_task)) = None \<longleftrightarrow> fst (main_finish sigterm ev end_of_task) \<noteq> Inr ())"
  by (auto simp: main_finish_def main_select_def split: main_event.split joined.split sum.split)

end
