(* ===== verification/System.thy ===== *)
theory System
  imports Program
begin

section \<open>The composed system\<close>

text \<open>
  The running process: the sessions of the SMTP listener, the delivery worker with the Matrix
  client, and the monitor, over one shared store, with the steps of all of them interleaved in
  any order and the process dying and restarting at any point. The steps are those of the
  components; nothing is modelled again here.

  The invariant of the system is the one of its parts: what the worker has in hand is queued,
  a sleeping worker is not forgotten, the listener keeps its limit, and the client in use is
  the configured one. What becomes of the messages is the simulation of \<open>Relay\<close>, by which the
  system inherits the invariant of the specification.
\<close>

subsection \<open>State\<close>

text \<open>
  \<open>w_accepted\<close> of the worker's part collects every message a session stored, with its id, and
  \<open>sy_missed\<close> the ids of the rows that were stored since the worker last found nothing due, or
  was last signalled, and that have not been signalled themselves; both are there for the
  statement of the theorems.
\<close>

record ('s, 'user, 'room, 'client) mail_system =
  sy_worker :: "('s, 'user, 'room, 'client) mx_world worker_sys"
  sy_permits :: nat
  sy_sessions :: "session list"
  sy_posting :: "(i64 \<times> turn \<times> session) list"
  sy_cut :: "i64 set"
  sy_missed :: "i64 set"
  sy_seen :: usize

definition front :: "('s, 'user, 'room, 'client) mail_system \<Rightarrow> server" where
  "front s = \<lparr>sv_permits = sy_permits s, sv_sessions = sy_sessions s, sv_posting = sy_posting s,
     sv_cut = sy_cut s, sv_store = w_store (sy_worker s)\<rparr>"

definition serving ::
  "server \<Rightarrow> ('s, 'user, 'room, 'client) mail_system \<Rightarrow> ('s, 'user, 'room, 'client) mail_system" where
  "serving sv s = s\<lparr>
     sy_worker := (sy_worker s)\<lparr>w_store := sv_store sv,
       w_accepted := stored_rows (w_store (sy_worker s)) (sv_store sv) @ w_accepted (sy_worker s)\<rparr>,
     sy_permits := sv_permits sv, sy_sessions := sv_sessions sv, sy_posting := sv_posting sv, sy_cut := sv_cut sv,
     sy_missed := (if notify (sv_store sv) then {}
       else sy_missed s \<union> fst ` set (stored_rows (w_store (sy_worker s)) (sv_store sv)))\<rparr>"

definition working ::
  "('s, 'user, 'room, 'client) mx_world worker_sys \<Rightarrow> ('s, 'user, 'room, 'client) mail_system \<Rightarrow>
   ('s, 'user, 'room, 'client) mail_system" where
  "working t s = s\<lparr>sy_worker := t,
     sy_missed := (case w_phase t of Idling _ \<Rightarrow> {} | _ \<Rightarrow> sy_missed s)\<rparr>"

text \<open>What is left when the process dies: the tables and what happened at the home server.\<close>

definition restarted ::
  "config \<Rightarrow> message_store \<Rightarrow> ('s, 'user, 'room, 'client) mx_world \<Rightarrow>
   ('s, 'user, 'room, 'client) mail_system \<Rightarrow> ('s, 'user, 'room, 'client) mail_system" where
  "restarted cfg st snk s = s\<lparr>
     sy_worker := (sy_worker s)\<lparr>w_phase := Connecting, w_shutdown := False, w_store := reboot st,
       w_sink := snk\<lparr>mx_client := None, mx_connected := False\<rparr>\<rparr>,
     sy_permits := max 1 (max_connections (cfg_smtp cfg)), sy_sessions := [], sy_posting := [], sy_cut := {},
     sy_missed := {}, sy_seen := 0\<rparr>"

subsection \<open>Steps\<close>

text \<open>
  After the shutdown signal the listener accepts no connection any more; the sessions that are
  running go on until the process ends.
\<close>

inductive system_step ::
  "'p mailparse \<Rightarrow> (string \<Rightarrow> bool) \<Rightarrow> ('s, 'url, 'user, 'room, 'client, 'handle) sdk \<Rightarrow>
   ('env, 'tmpl) minijinja \<Rightarrow> ('url, 'user, 'room) identifiers \<Rightarrow> config \<Rightarrow>
   ('s, 'user, 'room, 'client) mail_system \<Rightarrow> ('s, 'user, 'room, 'client) mail_system \<Rightarrow> bool"
  for mp :: "'p mailparse" and v :: "string \<Rightarrow> bool"
    and sdk :: "('s, 'url, 'user, 'room, 'client, 'handle) sdk" and j :: "('env, 'tmpl) minijinja"
    and ids :: "('url, 'user, 'room) identifiers" and cfg :: config where
  serve: "server_step mp v (cfg_smtp cfg) (front s) sv \<Longrightarrow>
    (w_shutdown (sy_worker s) \<longrightarrow>
      length (sv_sessions sv) + length (sv_posting sv) \<le> length (sy_sessions s) + length (sy_posting s)) \<Longrightarrow>
    system_step mp v sdk j ids cfg s (serving sv s)"
| work: "task_step (connect_closure sdk ids cfg) (deliver sdk j) (worker_of cfg) (sy_worker s) t \<Longrightarrow>
    system_step mp v sdk j ids cfg s (working t s)"
| watch: "monitor_turn (mx_connected (w_sink (sy_worker s))) (sy_seen s) (w_store (sy_worker s)) = (rp, st) \<Longrightarrow>
    system_step mp v sdk j ids cfg s
      (s\<lparr>sy_worker := (sy_worker s)\<lparr>w_store := st\<rparr>, sy_seen := rp_last_dead rp\<rparr>)"
| signal: "system_step mp v sdk j ids cfg s (s\<lparr>sy_worker := (sy_worker s)\<lparr>w_shutdown := True\<rparr>\<rparr>)"
| environment: "system_step mp v sdk j ids cfg s
    (s\<lparr>sy_worker := (sy_worker s)\<lparr>w_store := refresh faults clk (w_store (sy_worker s))\<rparr>\<rparr>)"
| die: "system_step mp v sdk j ids cfg s (restarted cfg (w_store (sy_worker s)) (w_sink (sy_worker s)) s)"

inductive_cases system_stepE: "system_step mp v sdk j ids cfg s t"

definition system_init :: "config \<Rightarrow> ('s, 'user, 'room, 'client) mail_system \<Rightarrow> bool" where
  "system_init cfg s \<longleftrightarrow>
     worker_init (sy_worker s) \<and> mx_log (w_sink (sy_worker s)) = [] \<and>
     mx_tried (w_sink (sy_worker s)) = [] \<and> mx_client (w_sink (sy_worker s)) = None \<and>
     \<not> mx_connected (w_sink (sy_worker s)) \<and> front s = server_start (cfg_smtp cfg) (w_store (sy_worker s)) \<and> sy_missed s = {}"

text \<open>What \<open>main\<close> spawns once it has a configuration, the store and the listener.\<close>

definition spawned :: "config \<Rightarrow> message_store \<Rightarrow> 's \<Rightarrow> ('s, 'user, 'room, 'client) mail_system" where
  "spawned cfg st env =
     (let sv = server_start (cfg_smtp cfg) st in
      \<lparr>sy_worker = \<lparr>w_store = st, w_sink = \<lparr>mx_env = env, mx_client = None, mx_connected = False, mx_log = [], mx_tried = []\<rparr>,
         w_phase = Connecting, w_shutdown = False, w_accepted = []\<rparr>,
       sy_permits = sv_permits sv, sy_sessions = sv_sessions sv, sy_posting = sv_posting sv, sy_cut = sv_cut sv,
       sy_missed = {}, sy_seen = 0\<rparr>)"

lemma spawned_init: "store_inv st \<Longrightarrow> system_init cfg (spawned cfg st env)"
  by (simp add: spawned_def system_init_def worker_init_def front_def server_start_def Let_def)

subsection \<open>The invariant\<close>

definition as_configured ::
  "('url, 'user, 'room) identifiers \<Rightarrow> config \<Rightarrow> ('user, 'room, 'client) matrix_client \<Rightarrow> bool" where
  "as_configured ids cfg c \<longleftrightarrow>
     router_from_config (parse_room ids) (cfg_matrix cfg) = Inr (mc_router c) \<and>
     mc_require_e2ee c = require_e2ee (cfg_matrix cfg) \<and>
     mc_message_template c = message_template (cfg_matrix cfg)"

definition client_inv ::
  "('url, 'user, 'room) identifiers \<Rightarrow> config \<Rightarrow> ('s, 'user, 'room, 'client) mx_world worker_sys \<Rightarrow> bool" where
  "client_inv ids cfg s \<longleftrightarrow>
     (\<forall>c. mx_client (w_sink s) = Some c \<longrightarrow> as_configured ids cfg c) \<and>
     (w_phase s \<notin> {Connecting, Reconnect_wait, Stopped} \<longrightarrow>
        mx_client (w_sink s) \<noteq> None \<and> mx_connected (w_sink s))"

definition system_inv ::
  "(string \<Rightarrow> bool) \<Rightarrow> ('url, 'user, 'room) identifiers \<Rightarrow> config \<Rightarrow>
   ('s, 'user, 'room, 'client) mail_system \<Rightarrow> bool" where
  "system_inv v ids cfg s \<longleftrightarrow>
     in_hand mx_log (sy_worker s) \<and> awake (sy_missed s) (sy_worker s) \<and> sy_missed s \<subseteq> unposted (front s) \<and>
     client_inv ids cfg (sy_worker s) \<and> server_inv v (cfg_smtp cfg) (front s) \<and>
     (w_phase (sy_worker s) = Stopped \<longrightarrow> w_shutdown (sy_worker s))"

lemma front_simps [simp]:
  "sv_permits (front s) = sy_permits s" "sv_sessions (front s) = sy_sessions s"
  "sv_posting (front s) = sy_posting s" "sv_cut (front s) = sy_cut s"
  "sv_store (front s) = w_store (sy_worker s)"
  "front (serving sv s) = sv"
  by (simp_all add: front_def serving_def)

lemma working_simps [simp]:
  "sy_worker (working t s) = t" "sy_permits (working t s) = sy_permits s" "sy_sessions (working t s) = sy_sessions s"
  "sy_posting (working t s) = sy_posting s" "sy_cut (working t s) = sy_cut s"
  "sy_missed (working t s) = (case w_phase t of Idling _ \<Rightarrow> {} | _ \<Rightarrow> sy_missed s)"
  by (simp_all add: working_def)

lemma unposted_front: "unposted (front s) = fst ` set (sy_posting s) \<union> sy_cut s"
  by (simp add: unposted_def)

lemma client_inv_frame:
  "client_inv ids cfg s \<Longrightarrow> mx_client (w_sink t) = mx_client (w_sink s) \<Longrightarrow>
   mx_connected (w_sink t) = mx_connected (w_sink s) \<Longrightarrow>
   w_phase s \<notin> {Connecting, Reconnect_wait, Stopped} \<or> w_phase t \<in> {Connecting, Reconnect_wait, Stopped} \<Longrightarrow>
   client_inv ids cfg t"
  by (auto simp: client_inv_def)

lemma deliver_client:
  "deliver sdk j m k w = (r, w') \<Longrightarrow> mx_client w' = mx_client w \<and> mx_connected w' = mx_connected w"
  by (auto simp: deliver_def split: option.splits prod.splits sum.splits)

lemma client_inv_task:
  assumes "client_inv ids cfg s"
    and "task_step (connect_closure sdk ids cfg) (deliver sdk j) (worker_of cfg) s t"
  shows "client_inv ids cfg t"
  using assms(2)
proof cases
  case (connect p snk)
  show ?thesis
  proof (cases "w_shutdown s")
    case True
    with connect assms(1) show ?thesis by (simp add: reconnect_iter_def client_inv_def)
  next
    case False
    obtain r s1 where c: "Matrix_Client.connect sdk ids cfg (mx_env (w_sink s)) = (r, s1)" by fastforce
    show ?thesis
    proof (cases r)
      case (Inl e)
      with False c connect assms(1) show ?thesis
        by (auto simp: reconnect_iter_def connect_closure_def client_inv_def)
    next
      case (Inr cl)
      with c have "as_configured ids cfg cl"
        using connected_client [of sdk ids cfg "mx_env (w_sink s)" cl s1] by (simp add: as_configured_def)
      with Inr False c connect show ?thesis
        by (auto simp: reconnect_iter_def connect_closure_def client_inv_def)
    qed
  qed
next
  case (send now stored r snk)
  show ?thesis unfolding send(1)
    by (rule client_inv_frame [OF assms(1)]) (use deliver_client [OF send(3)] send(2) in auto)
qed (use assms(1) in \<open>auto elim!: client_inv_frame\<close>)

lemma task_stops:
  assumes "task_step c d w s t" and "w_phase t = Stopped"
  shows "w_phase s = Stopped \<or> w_shutdown t"
  using assms(1)
proof cases
  case (claim p st)
  then show ?thesis
    using assms(2) by (auto simp: claim_step_def split: if_splits prod.splits sum.splits option.splits)
next
  case (connect p snk)
  then show ?thesis
    using assms(2) by (auto simp: reconnect_iter_def split: if_splits prod.splits sum.splits)
qed (use assms(2) in \<open>auto split: if_splits\<close>)

lemma task_shutdown: "task_step c d w s t \<Longrightarrow> w_shutdown t = w_shutdown s"
  by (erule task_step.cases) simp_all

lemma server_inv_store:
  "server_inv v cfg (front s) \<Longrightarrow> store_inv (w_store (sy_worker t)) \<Longrightarrow> sy_permits t = sy_permits s \<Longrightarrow>
   sy_sessions t = sy_sessions s \<Longrightarrow> sy_posting t = sy_posting s \<Longrightarrow> server_inv v cfg (front t)"
  by (simp add: server_inv_def)

lemma task_accepted: "task_step c d w s t \<Longrightarrow> w_accepted t = w_accepted s"
  by (erule task_step.cases) simp_all

lemma system_store_inv: "system_inv v ids cfg s \<Longrightarrow> store_inv (w_store (sy_worker s))"
  by (simp add: system_inv_def server_inv_def)

text \<open>Steps that touch neither the tables nor the permit, nor what the worker knows.\<close>

lemma system_inv_frame:
  assumes "system_inv v ids cfg s"
    and "conn (w_store (sy_worker t)) = conn (w_store (sy_worker s))"
    and "notify (w_store (sy_worker t)) = notify (w_store (sy_worker s))"
    and "w_sink (sy_worker t) = w_sink (sy_worker s)" and "w_phase (sy_worker t) = w_phase (sy_worker s)"
    and "w_shutdown (sy_worker s) \<longrightarrow> w_shutdown (sy_worker t)"
    and "sy_permits t = sy_permits s" and "sy_sessions t = sy_sessions s" and "sy_posting t = sy_posting s"
    and "sy_cut t = sy_cut s" and "sy_missed t = sy_missed s"
  shows "system_inv v ids cfg t"
proof -
  have "in_hand mx_log (sy_worker t)" by (rule in_hand_same) (use assms in \<open>auto simp: system_inv_def\<close>)
  moreover have "awake (sy_missed t) (sy_worker t)" by (rule awake_frame) (use assms in \<open>auto simp: system_inv_def\<close>)
  moreover have "client_inv ids cfg (sy_worker t)" using assms by (simp add: system_inv_def client_inv_def)
  moreover have "server_inv v (cfg_smtp cfg) (front t)"
    by (rule server_inv_store) (use assms system_store_inv [OF assms(1)] in \<open>auto simp: system_inv_def\<close>)
  ultimately show ?thesis using assms by (simp add: system_inv_def unposted_front)
qed

lemma system_inv_restarted: "store_inv st \<Longrightarrow> system_inv v ids cfg (restarted cfg st snk s)"
  by (simp add: system_inv_def restarted_def awake_def in_hand_def client_inv_def server_inv_def)

text \<open>A step of the listener that leaves the tables alone, and one that stores a message.\<close>

lemma serve_same:
  assumes "system_inv v ids cfg s" and "conn (sv_store sv) = conn (w_store (sy_worker s))"
    and "notify (sv_store sv) \<or> \<not> notify (w_store (sy_worker s)) \<and> unposted sv = unposted (front s)"
  shows "in_hand mx_log (sy_worker (serving sv s)) \<and> awake (sy_missed (serving sv s)) (sy_worker (serving sv s)) \<and>
    sy_missed (serving sv s) \<subseteq> unposted (front (serving sv s))"
proof -
  let ?w = "sy_worker s" and ?t = "sy_worker (serving sv s)"
  have inv: "awake (sy_missed s) ?w" "in_hand mx_log ?w" "sy_missed s \<subseteq> unposted (front s)"
    using assms(1) by (simp_all add: system_inv_def)
  have t: "w_phase ?t = w_phase ?w" "w_sink ?t = w_sink ?w" "w_store ?t = sv_store sv" by (simp_all add: serving_def)
  have missed: "sy_missed (serving sv s) = (if notify (sv_store sv) then {} else sy_missed s)"
    by (simp add: serving_def stored_rows_same [OF assms(2)])
  have "in_hand mx_log ?t" by (rule in_hand_same [OF inv(2)]) (simp_all add: t assms(2))
  moreover have "awake (sy_missed (serving sv s)) ?t"
  proof (cases "notify (sv_store sv)")
    case True
    then show ?thesis by (simp add: awake_notified t)
  next
    case False
    with assms(3) have "awake (sy_missed s) ?t" by (intro awake_frame [OF inv(1)]) (simp_all add: t assms(2))
    with False missed show ?thesis by simp
  qed
  moreover have "sy_missed (serving sv s) \<subseteq> unposted (front (serving sv s))" using assms(3) inv(3) missed by auto
  ultimately show ?thesis by blast
qed

lemma serve_mail:
  assumes "system_inv v ids cfg s" and "enqueue m (w_store (sy_worker s)) = (Inr i, st)" and "wf_message m"
    and "conn (sv_store sv) = conn st"
    and "notify (sv_store sv) \<or> \<not> notify (w_store (sy_worker s)) \<and> unposted sv = insert i (unposted (front s))"
  shows "in_hand mx_log (sy_worker (serving sv s)) \<and> awake (sy_missed (serving sv s)) (sy_worker (serving sv s)) \<and>
    sy_missed (serving sv s) \<subseteq> unposted (front (serving sv s))"
proof -
  let ?w = "sy_worker s" and ?t = "sy_worker (serving sv s)"
  have inv: "awake (sy_missed s) ?w" "in_hand mx_log ?w" "sy_missed s \<subseteq> unposted (front s)" "store_inv (w_store ?w)"
    using assms(1) system_store_inv [OF assms(1)] by (simp_all add: system_inv_def)
  have t: "w_phase ?t = w_phase ?w" "w_sink ?t = w_sink ?w" "w_store ?t = sv_store sv" by (simp_all add: serving_def)
  have "stored_rows (w_store ?w) (sv_store sv) = [(i, m)]"
    using stored_rows_enqueue [OF inv(4) assms(3,2)] assms(4) by (simp add: stored_rows_def)
  then have missed: "sy_missed (serving sv s) = (if notify (sv_store sv) then {} else insert i (sy_missed s))"
    by (simp add: serving_def)
  have "in_hand mx_log ?t" by (rule in_hand_mail [OF inv(2,4) assms(3,2)]) (simp_all add: t assms(4))
  moreover have "awake (sy_missed (serving sv s)) ?t"
  proof (cases "notify (sv_store sv)")
    case True
    then show ?thesis by (simp add: awake_notified t)
  next
    case False
    obtain r where "outbox (conn (sv_store sv)) = outbox (conn (w_store ?w)) @ [r]" "ob_id r = i"
      using enqueue_row [OF inv(4) assms(3,2)] assms(4) by auto
    then show ?thesis using False assms(5) missed by (intro awake_rows [OF inv(1)]) (auto simp: t)
  qed
  moreover have "sy_missed (serving sv s) \<subseteq> unposted (front (serving sv s))" using assms(5) inv(3) missed by auto
  ultimately show ?thesis by blast
qed

lemma system_inv_serve:
  assumes "system_inv v ids cfg s" and "server_step mp v (cfg_smtp cfg) (front s) sv"
  shows "system_inv v ids cfg (serving sv s)"
proof -
  let ?t = "sy_worker (serving sv s)"
  have inv: "server_inv v (cfg_smtp cfg) (front s)" "client_inv ids cfg (sy_worker s)"
    using assms(1) by (simp_all add: system_inv_def)
  have "server_inv v (cfg_smtp cfg) (front (serving sv s))" using server_inv_step [OF inv(1) assms(2)] by simp
  moreover have "client_inv ids cfg ?t" by (rule client_inv_frame [OF inv(2)]) (auto simp: serving_def)
  moreover have "w_phase ?t = Stopped \<longrightarrow> w_shutdown ?t" using assms(1) by (simp add: system_inv_def serving_def)
  moreover from assms(2) inv(1) have "in_hand mx_log ?t \<and> awake (sy_missed (serving sv s)) ?t \<and>
      sy_missed (serving sv s) \<subseteq> unposted (front (serving sv s))"
  proof (cases rule: server_step_store)
    case same
    with assms(1) show ?thesis by (intro serve_same) simp_all
  next
    case (mail m i st)
    with assms(1) show ?thesis by (intro serve_mail [of v ids cfg s m i st]) (simp_all add: addressed_wf)
  qed
  ultimately show ?thesis unfolding system_inv_def by blast
qed

lemma system_inv_step:
  assumes "system_inv v ids cfg s" and "system_step mp v sdk j ids cfg s t"
  shows "system_inv v ids cfg t"
proof -
  let ?w = "sy_worker s"
  have inv: "store_inv (w_store ?w)" "awake (sy_missed s) ?w" "client_inv ids cfg ?w"
    "server_inv v (cfg_smtp cfg) (front s)" "w_phase ?w = Stopped \<longrightarrow> w_shutdown ?w" "in_hand mx_log ?w"
    "sy_missed s \<subseteq> unposted (front s)"
    using assms(1) system_store_inv [OF assms(1)] by (simp_all add: system_inv_def)
  from assms(2) show ?thesis
  proof (cases rule: system_step.cases)
    case (serve sv)
    show ?thesis unfolding serve(1) by (rule system_inv_serve [OF assms(1) serve(2)])
  next
    case (work w)
    have "server_inv v (cfg_smtp cfg) (front t)"
      by (rule server_inv_store [OF inv(4)]) (use matrix.task_inv [OF inv(1) work(2)] work(1) in simp_all)
    moreover have "awake (sy_missed t) (sy_worker t)"
      using matrix.awake_task [OF inv(1,2) work(2)] matrix.awake_idling [OF inv(1,2) work(2)] work(1)
      by (cases "w_phase w") simp_all
    moreover have "sy_missed t \<subseteq> unposted (front t)"
      using inv(7) work(1) by (auto simp: unposted_front split: phase.split)
    ultimately show ?thesis
      using matrix.in_hand_task [OF inv(1,6) work(2)] client_inv_task [OF inv(3) work(2)] inv(5)
        task_stops [OF work(2)] task_shutdown [OF work(2)]
      unfolding system_inv_def by (auto simp: work(1))
  next
    case (watch rp st)
    note f = monitor_turn_frame [OF watch(2)]
    show ?thesis by (rule system_inv_frame [OF assms(1)]) (use f watch(1) in \<open>simp_all add: same_frame_notify\<close>)
  next
    case signal
    show ?thesis by (rule system_inv_frame [OF assms(1)]) (simp_all add: signal)
  next
    case (environment faults clk)
    show ?thesis by (rule system_inv_frame [OF assms(1)]) (simp_all add: environment)
  next
    case die
    show ?thesis unfolding die by (rule system_inv_restarted [OF inv(1)])
  qed
qed

lemma system_inv_init: "system_init cfg s \<Longrightarrow> system_inv v ids cfg s"
  unfolding system_init_def system_inv_def
  by (elim conjE)
    (auto simp: worker_init_def awake_def in_hand_def client_inv_def server_inv_def server_start_def)

subsection \<open>The system refines the relay\<close>

definition relay_view :: "('s, 'user, 'room, 'client) mail_system \<Rightarrow> relay" where
  "relay_view s = relay_of mx_log mx_tried (sy_worker s)"

lemma system_relay_step:
  assumes "system_inv v ids cfg s" and "system_step mp v sdk j ids cfg s t"
  shows "relay_view t = relay_view s \<or>
    relay_step (addressed v) (max_retries (worker_of cfg)) (relay_view s) (relay_view t)"
proof -
  let ?w = "sy_worker s"
  have inv: "store_inv (w_store ?w)" "in_hand mx_log ?w" "server_inv v (cfg_smtp cfg) (front s)"
    using assms(1) system_store_inv [OF assms(1)] by (simp_all add: system_inv_def)
  have frame: ?thesis if "conn (w_store (sy_worker t)) = conn (w_store ?w)"
    "mx_log (w_sink (sy_worker t)) = mx_log (w_sink ?w)" "mx_tried (w_sink (sy_worker t)) = mx_tried (w_sink ?w)"
    "w_accepted (sy_worker t) = w_accepted ?w"
    unfolding relay_view_def by (rule disjI1, rule relay_of_same) (simp_all add: that)
  from assms(2) show ?thesis
  proof (cases rule: system_step.cases)
    case (serve sv)
    from serve(2) inv(3) show ?thesis
    proof (cases rule: server_step_store)
      case same
      then have c: "conn (sv_store sv) = conn (w_store ?w)" by simp
      show ?thesis by (rule frame) (simp_all add: serve(1) serving_def c stored_rows_same [OF c])
    next
      case (mail m i st)
      note wf = addressed_wf [OF mail(2)]
      have m: "enqueue m (w_store ?w) = (Inr i, st)" using mail(1) by simp
      have "stored_rows (w_store ?w) (sv_store sv) = [(i, m)]"
        using stored_rows_enqueue [OF inv(1) wf m] mail(3) by (simp add: stored_rows_def)
      then show ?thesis unfolding relay_view_def
        by (intro disjI2 relay_mail [of ?w m "addressed v" i st])
          (use inv(1) wf mail(2,3) m in \<open>simp_all add: serve(1) serving_def\<close>)
    qed
  next
    case (work w)
    then show ?thesis using matrix.task_relay [OF inv(1,2) work(2)] by (simp add: relay_view_def)
  next
    case (watch rp st)
    show ?thesis by (rule frame) (use monitor_turn_frame [OF watch(2)] watch(1) in simp_all)
  qed (rule frame; simp add: restarted_def)+
qed

interpretation system: simulation "system_init cfg" "system_step mp v sdk j ids cfg" "system_inv v ids cfg"
    relay_init "relay_step (addressed v) (max_retries (worker_of cfg))" relay_view
  for mp :: "'p mailparse" and v :: "string \<Rightarrow> bool"
    and sdk :: "('s, 'url, 'user, 'room, 'client, 'handle) sdk" and j :: "('env, 'tmpl) minijinja"
    and ids :: "('url, 'user, 'room) identifiers" and cfg :: config
proof unfold_locales
  show "system_inv v ids cfg s" if "system_init cfg s" for s :: "('s, 'user, 'room, 'client) mail_system"
    by (rule system_inv_init [OF that])
  show "system_inv v ids cfg t" if "system_inv v ids cfg s" "system_step mp v sdk j ids cfg s t"
    for s t :: "('s, 'user, 'room, 'client) mail_system"
    by (rule system_inv_step [OF that])
  show "relay_init (relay_view s)" if "system_init cfg s" for s :: "('s, 'user, 'room, 'client) mail_system"
    using that entry_id entry_issued
    by (auto simp: relay_init_def relay_view_def relay_of_def system_init_def worker_init_def)
  show "(relay_step (addressed v) (max_retries (worker_of cfg)))\<^sup>*\<^sup>* (relay_view s) (relay_view t)"
    if "system_inv v ids cfg s" "system_step mp v sdk j ids cfg s t"
    for s t :: "('s, 'user, 'room, 'client) mail_system"
    using system_relay_step [OF that] by auto
qed

text \<open>So what the relay keeps holds of the system.\<close>

lemma reach_relay_inv:
  "reach (system_init cfg) (system_step mp v sdk j ids cfg) s \<Longrightarrow> relay_inv (addressed v) (relay_view s)"
  by (rule system.sim_invariant [OF relay.step_invariant_axioms])

text \<open>What was stored stays on record.\<close>

lemma accepted_grows:
  "system_step mp v sdk j ids cfg s t \<Longrightarrow> set (w_accepted (sy_worker s)) \<subseteq> set (w_accepted (sy_worker t))"
  by (erule system_step.cases) (auto simp: serving_def restarted_def dest: task_accepted)

lemma accepted_kept:
  "(system_step mp v sdk j ids cfg)\<^sup>*\<^sup>* s t \<Longrightarrow> set (w_accepted (sy_worker s)) \<subseteq> set (w_accepted (sy_worker t))"
  by (induction rule: rtranclp_induct) (auto dest: accepted_grows)

text \<open>Runs of the listener are runs of the system, and record what is stored.\<close>

lemma serve_run:
  assumes "(server_step mp v (cfg_smtp cfg))\<^sup>*\<^sup>* sv0 sv" and "front s = sv0" and "\<not> w_shutdown (sy_worker s)"
    and "server_inv v (cfg_smtp cfg) sv0"
  shows "\<exists>t. (system_step mp v sdk j ids cfg)\<^sup>*\<^sup>* s t \<and> front t = sv \<and> \<not> w_shutdown (sy_worker t) \<and>
    w_sink (sy_worker t) = w_sink (sy_worker s) \<and> w_phase (sy_worker t) = w_phase (sy_worker s) \<and>
    (\<forall>i m. queued (sv_store sv) i = Some m \<longrightarrow>
       queued (w_store (sy_worker s)) i = Some m \<or> (i, m) \<in> set (w_accepted (sy_worker t)))"
  using assms(1)
proof (induction rule: rtranclp_induct)
  case base
  show ?case by (rule exI [of _ s]) (use assms in auto)
next
  case (step sv1 sv2)
  then obtain t where t: "(system_step mp v sdk j ids cfg)\<^sup>*\<^sup>* s t" "front t = sv1" "\<not> w_shutdown (sy_worker t)"
    "w_sink (sy_worker t) = w_sink (sy_worker s)" "w_phase (sy_worker t) = w_phase (sy_worker s)"
    "\<And>i m. queued (sv_store sv1) i = Some m \<Longrightarrow>
       queued (w_store (sy_worker s)) i = Some m \<or> (i, m) \<in> set (w_accepted (sy_worker t))" by blast
  have inv: "server_inv v (cfg_smtp cfg) sv1" by (rule listener.rtranclp_inv [OF step(1) assms(4)])
  have store: "sv_store sv1 = w_store (sy_worker t)" using t(2) by auto
  have "system_step mp v sdk j ids cfg t (serving sv2 t)"
    by (rule system_step.serve) (use step(2) t(2,3) in simp_all)
  with t(1) have "(system_step mp v sdk j ids cfg)\<^sup>*\<^sup>* s (serving sv2 t)" by (rule rtranclp.rtrancl_into_rtrancl)
  moreover have "queued (w_store (sy_worker s)) i = Some m \<or> (i, m) \<in> set (w_accepted (sy_worker (serving sv2 t)))"
    if "queued (sv_store sv2) i = Some m" for i m
    using server_step_recorded [OF step(2) inv that] t(6) [of i m] by (auto simp: serving_def store)
  ultimately show ?case
    by (intro exI [of _ "serving sv2 t"]) (use t(3-5) in \<open>auto simp: serving_def\<close>)
qed

lemma reach_rtranclp: "step\<^sup>*\<^sup>* s t \<Longrightarrow> reach init step s \<Longrightarrow> reach init step t"
  by (induction rule: rtranclp_induct) (auto intro: reach.move)

lemma working_clear: "sy_missed s = {} \<Longrightarrow> working t s = s\<lparr>sy_worker := t\<rparr>"
  by (cases s) (simp add: working_def split: phase.split)

lemma work_run:
  assumes "(task_step (connect_closure sdk ids cfg) (deliver sdk j) (worker_of cfg))\<^sup>*\<^sup>* (sy_worker s) t"
    and "sy_missed s = {}"
  shows "(system_step mp v sdk j ids cfg)\<^sup>*\<^sup>* s (s\<lparr>sy_worker := t\<rparr>)"
  using assms(1)
proof (induction rule: rtranclp_induct)
  case base
  show ?case by simp
next
  case (step t u)
  have "system_step mp v sdk j ids cfg (s\<lparr>sy_worker := t\<rparr>) (working u (s\<lparr>sy_worker := t\<rparr>))"
    by (rule system_step.work) (use step(2) in simp)
  with step.IH show ?case by (simp add: working_clear assms(2) rtranclp.rtrancl_into_rtrancl)
qed

subsection \<open>Three small runs\<close>

text \<open>
  The home server of the examples with every room open. In the first run a message that is in
  the database is delivered and the worker falls asleep; in the second a client delivers a
  message over SMTP before Matrix is connected.
\<close>

definition ex_open_sdk :: "((string \<times> string \<times> string) list, string, string, string, unit, string) sdk" where
  "ex_open_sdk = ex_sdk\<lparr>sdk_get_room := \<lambda>_ r _. Some r\<rparr>"

definition ex_mail_config :: config where
  "ex_mail_config = (ex_login_config (Some ''DEV''))\<lparr>cfg_smtp := ex_smtp_config\<rparr>"

definition ex_world ::
  "message_store \<Rightarrow> phase \<Rightarrow> (string \<times> string \<times> string) list \<Rightarrow> (string, string, unit) matrix_client option \<Rightarrow>
   (string \<times> message) list \<Rightarrow> (string \<times> message) list \<Rightarrow>
   ((string \<times> string \<times> string) list, string, string, unit) mail_system" where
  "ex_world st p evs c sent tries =
     \<lparr>sy_worker = \<lparr>w_store = st, w_sink = \<lparr>mx_env = evs, mx_client = c, mx_connected = c \<noteq> None,
        mx_log = sent, mx_tried = tries\<rparr>,
        w_phase = p, w_shutdown = False, w_accepted = []\<rparr>,
      sy_permits = 2, sy_sessions = [], sy_posting = [], sy_cut = {}, sy_missed = {}, sy_seen = 0\<rparr>"

abbreviation "ex_system st p evs c sent \<equiv> ex_world st p evs c sent sent"

abbreviation "ex_step_at sdk \<equiv> system_step ex_plain ex_valid sdk ex_minijinja ex_ids ex_mail_config"

abbreviation "ex_reach_at sdk \<equiv> reach (system_init ex_mail_config) (ex_step_at sdk)"

abbreviation "ex_step \<equiv> ex_step_at ex_open_sdk"

abbreviation "ex_reach \<equiv> ex_reach_at ex_open_sdk"

lemma ex_mail_connect: "connect (ex_sdk\<lparr>sdk_get_room := f\<rparr>) ex_ids ex_mail_config s = (Inr ex_client, s)"
proof -
  have "connect (ex_sdk\<lparr>sdk_get_room := f\<rparr>) ex_ids ex_mail_config s =
      connect (ex_sdk\<lparr>sdk_get_room := f\<rparr>) ex_ids (ex_login_config (Some ''DEV'')) s"
    by (simp add: ex_mail_config_def connect_def Let_def)
  then show ?thesis by (simp add: ex_connect_rooms verify_device_id_def and_then_def)
qed

lemma ex_open_send:
  "send_message ex_open_sdk ex_minijinja ex_client ex_message k s = (Inr (), s @ [(''!r'', ''hi'', k)])"
proof -
  have "resolve (mc_router ex_client) ex_message = ''!r''" by code_simp
  moreover have "format_message ex_minijinja ex_message ''t'' = Inr ''hi''"
    by (simp add: format_message_def ex_minijinja_def message_context_def ex_message_def)
  ultimately show ?thesis
    by (simp add: send_message_def ex_client_def open_room_def known_encryption_state_def ex_open_sdk_def ex_sdk_def map_err_def)
qed

lemma ex_system_init: "store_inv st \<Longrightarrow> system_init ex_mail_config (ex_system st Connecting [] None [])"
  by (simp add: system_init_def ex_world_def worker_init_def front_def server_start_def ex_mail_config_def ex_smtp_config_def)

lemma ex_system_connects:
  assumes "sdk = ex_sdk\<lparr>sdk_get_room := f\<rparr>"
  shows "ex_step_at sdk (ex_system st Connecting evs None sent) (ex_system st Claiming evs (Some ex_client) sent)"
proof -
  let ?s = "ex_system st Connecting evs None sent"
  have "task_step (connect_closure sdk ex_ids ex_mail_config) (deliver sdk ex_minijinja)
      (worker_of ex_mail_config) (sy_worker ?s)
      ((sy_worker ?s)\<lparr>w_phase := Claiming, w_sink := (w_sink (sy_worker ?s))\<lparr>mx_client := Some ex_client, mx_connected := True\<rparr>\<rparr>)"
    by (rule task_step.connect) (simp_all add: ex_world_def reconnect_iter_def connect_closure_def assms ex_mail_connect)
  moreover have "sy_missed ?s = {}" by (simp add: ex_world_def)
  ultimately show ?thesis
    using system_step.work [of sdk ex_ids ex_mail_config ex_minijinja ?s]
    by (fastforce simp: working_clear ex_world_def)
qed

lemma ex_system_iterates:
  assumes "run_iter (deliver sdk ex_minijinja) (worker_of ex_mail_config) False st
      (w_sink (sy_worker (ex_world st Claiming evs (Some ex_client) sent tries))) =
      (p, st', w_sink (sy_worker (ex_world st' p evs' (Some ex_client) sent' tries')))"
  shows "(ex_step_at sdk)\<^sup>*\<^sup>* (ex_world st Claiming evs (Some ex_client) sent tries)
    (ex_world st' p evs' (Some ex_client) sent' tries')"
proof -
  let ?s = "ex_world st Claiming evs (Some ex_client) sent tries"
  have "(task_step (connect_closure sdk ex_ids ex_mail_config) (deliver sdk ex_minijinja)
      (worker_of ex_mail_config))\<^sup>*\<^sup>* (sy_worker ?s)
      ((sy_worker ?s)\<lparr>w_phase := p, w_store := st', w_sink := w_sink (sy_worker (ex_world st' p evs' (Some ex_client) sent' tries'))\<rparr>)"
    by (rule matrix.run_iter_steps) (use assms in \<open>simp_all add: ex_world_def\<close>)
  from work_run [OF this] show ?thesis by (simp add: ex_world_def)
qed

definition ex_delivered :: message_store where
  "ex_delivered = ex_store1\<lparr>conn := (conn ex_store1)\<lparr>outbox := []\<rparr>\<rparr>"

definition ex_asleep :: "((string \<times> string \<times> string) list, string, string, unit) mail_system" where
  "ex_asleep = ex_system ex_delivered (Sleeping 0 3600) [(''!r'', ''hi'', idempotency_key 1)] (Some ex_client)
     [(idempotency_key 1, ex_message)]"

definition ex_sent :: "((string \<times> string \<times> string) list, string, string, unit) mail_system" where
  "ex_sent = ex_system ex_delivered Claiming [(''!r'', ''hi'', idempotency_key 1)] (Some ex_client)
     [(idempotency_key 1, ex_message)]"

lemma ex_connected_reached: "ex_reach (ex_system ex_store1 Claiming [] (Some ex_client) [])"
proof -
  have "ex_reach (ex_system ex_store1 Connecting [] None [])"
    by (rule reach.start, rule ex_system_init) (rule ex_inv1)
  from this ex_system_connects [OF ex_open_sdk_def] show ?thesis by (rule reach.move)
qed

lemma ex_sends: "ex_step\<^sup>*\<^sup>* (ex_system ex_store1 Claiming [] (Some ex_client) []) ex_sent"
proof -
  let ?sink = "\<lambda>evs sent. w_sink (sy_worker (ex_system ex_store1 Claiming evs (Some ex_client) sent))"
  let ?sent = "[(''!r'', ''hi'', idempotency_key 1)]"
  have c: "claim_next_ready 0 ex_store1 = (Inr (Some \<lparr>sm_id = 1, sm_message = ex_message, sm_attempts = 0\<rparr>), ex_store1)"
    by (simp add: claim_next_ready_def with_conn_no_fault exec_sql_no_fault sql_select_ready_def
        ex_store1_def ex_store_def)
  have now: "unix_now ex_store1 = (0, ex_store1)" by (simp add: unix_now_def ex_store1_def ex_store_def)
  have "deliver ex_open_sdk ex_minijinja ex_message (idempotency_key 1) (?sink [] []) =
      (Inr (), ?sink ?sent [(idempotency_key 1, ex_message)])"
    by (simp add: deliver_def ex_world_def ex_open_send)
  then have "run_iter (deliver ex_open_sdk ex_minijinja) (worker_of ex_mail_config) False ex_store1 (?sink [] []) =
      (Claiming, ex_delivered, ?sink ?sent [(idempotency_key 1, ex_message)])"
    by (simp add: run_iter_def now c deliver_one_def mark_delivered_no_fault)
      (simp add: ex_delivered_def ex_store1_def ex_row_def)
  then show ?thesis unfolding ex_sent_def by (intro ex_system_iterates) (simp add: ex_world_def)
qed

lemma ex_asleep_reached: "ex_reach ex_asleep"
proof -
  have now: "unix_now ex_delivered = (0, ex_delivered)"
    by (simp add: unix_now_def ex_delivered_def ex_store1_def ex_store_def)
  have "claim_next_ready 0 ex_delivered = (Inr None, ex_delivered)" "next_wakeup 0 ex_delivered = (Inr None, ex_delivered)"
    by (simp_all add: claim_next_ready_def next_wakeup_def with_conn_no_fault exec_sql_no_fault sql_select_ready_def
        sql_min_wakeup_def ex_delivered_def ex_store1_def ex_store_def)
  then have 2: "ex_step\<^sup>*\<^sup>* ex_sent ex_asleep"
    unfolding ex_asleep_def ex_sent_def
    by (intro ex_system_iterates) (simp add: run_iter_def now idle_wait_def IDLE_SLEEP_def ex_world_def)
  have "ex_reach ex_sent" by (rule reach_rtranclp [OF ex_sends ex_connected_reached])
  with 2 show ?thesis by (rule reach_rtranclp)
qed

text \<open>The same with a home server whose rooms are closed: the send fails and is rescheduled.\<close>

definition ex_closed_sdk :: "((string \<times> string \<times> string) list, string, string, string, unit, string) sdk" where
  "ex_closed_sdk = ex_sdk\<lparr>sdk_get_room := \<lambda>_ _ _. None\<rparr>"

definition ex_unnotified :: message_store where
  "ex_unnotified = ex_store1\<lparr>notify := False\<rparr>"

definition ex_waiting :: message_store where
  "ex_waiting = ex_unnotified\<lparr>conn := (conn ex_store1)\<lparr>outbox := [rescheduled 1 10 ex_row]\<rparr>\<rparr>"

lemma ex_closed_send:
  "\<exists>e. send_message ex_closed_sdk ex_minijinja ex_client ex_message k s = (Inl e, s)"
proof -
  have "format_message ex_minijinja ex_message ''t'' = Inr ''hi''"
    by (simp add: format_message_def ex_minijinja_def message_context_def ex_message_def)
  then show ?thesis
    by (simp add: send_message_def ex_client_def open_room_def ex_closed_sdk_def ex_sdk_def map_err_def and_then_def)
qed

lemma ex_waiting_reached:
  "ex_reach_at ex_closed_sdk (ex_world ex_waiting (Sleeping 0 10) [] (Some ex_client) [] [(idempotency_key 1, ex_message)])"
proof -
  let ?tries = "[(idempotency_key 1, ex_message)]"
  let ?sink = "w_sink (sy_worker (ex_system ex_unnotified Claiming [] (Some ex_client) []))"
  let ?sm = "\<lparr>sm_id = 1, sm_message = ex_message, sm_attempts = 0\<rparr>"
  have c: "claim_next_ready 0 ex_unnotified = (Inr (Some ?sm), ex_unnotified)"
    by (simp add: claim_next_ready_def with_conn_no_fault exec_sql_no_fault sql_select_ready_def
        ex_unnotified_def ex_store1_def ex_store_def)
  have now: "unix_now ex_unnotified = (0, ex_unnotified)" "unix_now ex_waiting = (0, ex_waiting)"
    by (simp_all add: unix_now_def ex_unnotified_def ex_waiting_def ex_store1_def ex_store_def)
  obtain e where e: "send_message ex_closed_sdk ex_minijinja ex_client ex_message (idempotency_key 1) [] = (Inl e, [])"
    using ex_closed_send by blast
  have b: "backoff_seconds 10 1 MAX_BACKOFF_SECONDS = 10"
    by (simp add: backoff_seconds_def MAX_BACKOFF_SECONDS_def saturating_mul_def saturating_pow_def min_def)
  have d: "deliver ex_closed_sdk ex_minijinja ex_message (idempotency_key 1) ?sink = (Inl e, ?sink\<lparr>mx_tried := ?tries\<rparr>)"
    by (simp add: deliver_def ex_world_def e)
  have w: "worker_of ex_mail_config = \<lparr>max_retries = 3, retry_backoff = 10\<rparr>"
    by (simp add: worker_of_def ex_mail_config_def ex_login_config_def ex_config_def)
  have r: "reschedule 1 1 10 ex_unnotified = (Inr (), ex_waiting)"
    by (simp add: reschedule_no_fault ex_waiting_def ex_unnotified_def ex_store1_def ex_store_def)
  have "run_iter (deliver ex_closed_sdk ex_minijinja) (worker_of ex_mail_config) False ex_unnotified ?sink =
      (Claiming, ex_waiting, ?sink\<lparr>mx_tried := ?tries\<rparr>)"
    by (simp add: run_iter_def now c deliver_one_def d handle_failure_def w b r wrap_i64_def)
  then have 1: "(ex_step_at ex_closed_sdk)\<^sup>*\<^sup>* (ex_system ex_unnotified Claiming [] (Some ex_client) [])
      (ex_world ex_waiting Claiming [] (Some ex_client) [] ?tries)"
    by (intro ex_system_iterates) (simp add: ex_world_def)
  have "claim_next_ready 0 ex_waiting = (Inr None, ex_waiting)" "next_wakeup 0 ex_waiting = (Inr (Some 10), ex_waiting)"
    by (simp_all add: claim_next_ready_def next_wakeup_def with_conn_no_fault exec_sql_no_fault sql_select_ready_def
        sql_min_wakeup_def ex_waiting_def ex_unnotified_def ex_store1_def ex_store_def rescheduled_def)
  then have 2: "(ex_step_at ex_closed_sdk)\<^sup>*\<^sup>* (ex_world ex_waiting Claiming [] (Some ex_client) [] ?tries)
      (ex_world ex_waiting (Sleeping 0 10) [] (Some ex_client) [] ?tries)"
    by (intro ex_system_iterates) (simp add: run_iter_def now idle_wait_def wrap_i64_def ex_world_def)
  have "ex_reach_at ex_closed_sdk (ex_system ex_unnotified Connecting [] None [])"
    by (rule reach.start, rule ex_system_init) (use ex_inv1 in \<open>simp add: ex_unnotified_def\<close>)
  from this ex_system_connects [OF ex_closed_sdk_def]
  have "ex_reach_at ex_closed_sdk (ex_system ex_unnotified Claiming [] (Some ex_client) [])" by (rule reach.move)
  with 1 have "ex_reach_at ex_closed_sdk (ex_world ex_waiting Claiming [] (Some ex_client) [] ?tries)" by (rule reach_rtranclp)
  with 2 show ?thesis by (rule reach_rtranclp)
qed

text \<open>The second run up to the point where the block of mail is about to be sent.\<close>

definition ex_block_session :: session where
  "ex_block_session = ex_session [wire ''DATA'', ex_wire_block, wire ''QUIT'']
     (map (\<lambda>x. x @ crlf) [''220 chimney-post ESMTP'', ok_reply, ok_reply, ok_reply]) (Some ''s@x'') [''a@x'', ''b@y'']"

lemma ex_block_turn:
  "session_turn ex_plain ex_valid ex_smtp_config ex_block_session ex_store =
     (Continue, ex_session [wire ''QUIT''] (map (\<lambda>x. x @ crlf)
        [''220 chimney-post ESMTP'', ok_reply, ok_reply, ok_reply, go_ahead, ok_reply]) None [], ex_store1)"
  unfolding ex_block_session_def by (simp only: turn_data turn_block append.simps list.map)

lemma ex_one_turn:
  assumes "session_turn ex_plain ex_valid ex_smtp_config s st = (Continue, s', st')"
  shows "server_step ex_plain ex_valid ex_smtp_config
    \<lparr>sv_permits = n, sv_sessions = [s], sv_posting = [], sv_cut = {}, sv_store = st\<rparr> \<lparr>sv_permits = n, sv_sessions = [s'], sv_posting = [], sv_cut = {}, sv_store = st'\<rparr>"
  using server_step.turn [of 0 "\<lparr>sv_permits = n, sv_sessions = [s], sv_posting = [], sv_cut = {}, sv_store = st\<rparr>" ex_plain ex_valid ex_smtp_config s' st'] assms
  by simp

definition ex_front :: "nat \<Rightarrow> session list \<Rightarrow> (i64 \<times> turn \<times> session) list \<Rightarrow> i64 set \<Rightarrow> message_store \<Rightarrow> server" where
  "ex_front n ss ps c st = \<lparr>sv_permits = n, sv_sessions = ss, sv_posting = ps, sv_cut = c, sv_store = st\<rparr>"

abbreviation "ex_server_step \<equiv> server_step ex_plain ex_valid ex_smtp_config"

lemma ex_block_run: "ex_server_step\<^sup>*\<^sup>* (ex_front 2 [] [] {} ex_store) (ex_front 1 [ex_block_session] [] {} ex_store)"
proof -
  let ?sv = "\<lambda>x. \<lparr>sv_permits = 1, sv_sessions = [x], sv_posting = [], sv_cut = {}, sv_store = ex_store\<rparr>"
  let ?s = "ex_front 2 [] [] {} ex_store"
  let ?greeted = "ex_session ex_dialogue (map (\<lambda>x. x @ crlf) [''220 chimney-post ESMTP'']) None []"
  have "reply ''220 chimney-post ESMTP'' Continue (new_session \<lparr>rd_buf = [], rd_events = map Chunk ex_dialogue\<rparr> []) =
      (Continue, ?greeted)"
    by (simp add: reply_def write_all_def new_session_def ex_session_def)
  moreover have "sv_permits ?s = Suc 1" by (simp add: ex_front_def)
  ultimately have "ex_server_step ?s (?s\<lparr>sv_permits := 1, sv_sessions := sv_sessions ?s @ [?greeted]\<rparr>)"
    by (intro server_step.accept)
  then have "ex_server_step ?s (?sv ?greeted)" by (simp add: ex_front_def)
  moreover have "ex_server_step\<^sup>*\<^sup>* (?sv ?greeted) (?sv ex_block_session)"
    unfolding ex_dialogue_def ex_block_session_def
    by (rule converse_rtranclp_into_rtranclp, rule ex_one_turn, rule turn_mail(1),
      rule converse_rtranclp_into_rtranclp, rule ex_one_turn, rule turn_rcpt(1),
      rule converse_rtranclp_into_rtranclp, rule ex_one_turn, rule turn_rcpt(2)) simp
  ultimately show ?thesis unfolding ex_front_def [of 1] by (rule converse_rtranclp_into_rtranclp)
qed

lemma ex_served:
  assumes "ex_reach (ex_system ex_store p evs c sent)" and "ex_server_step\<^sup>*\<^sup>* (ex_front 2 [] [] {} ex_store) sv"
  shows "\<exists>s. ex_reach s \<and> front s = sv \<and> w_phase (sy_worker s) = p \<and>
    (\<forall>i m. queued (sv_store sv) i = Some m \<longrightarrow> (i, m) \<in> set (w_accepted (sy_worker s)))"
proof -
  let ?s = "ex_system ex_store p evs c sent"
  have f: "front ?s = ex_front 2 [] [] {} ex_store" by (simp add: ex_world_def front_def ex_front_def)
  have inv: "server_inv ex_valid (cfg_smtp ex_mail_config) (ex_front 2 [] [] {} ex_store)"
    using system.reach_inv [OF assms(1)] f by (simp add: system_inv_def)
  have "(server_step ex_plain ex_valid (cfg_smtp ex_mail_config))\<^sup>*\<^sup>* (ex_front 2 [] [] {} ex_store) sv"
    using assms(2) by (simp add: ex_mail_config_def)
  from serve_run [OF this f _ inv, of ex_open_sdk ex_minijinja ex_ids]
  obtain t where t: "ex_step\<^sup>*\<^sup>* ?s t" "front t = sv" "w_phase (sy_worker t) = p"
    "\<And>i m. queued (sv_store sv) i = Some m \<Longrightarrow>
       queued ex_store i = Some m \<or> (i, m) \<in> set (w_accepted (sy_worker t))"
    by (auto simp: ex_world_def)
  have "ex_reach t" by (rule reach_rtranclp [OF t(1) assms(1)])
  moreover have "queued ex_store i = None" for i by (simp add: queued_def ex_store_def)
  ultimately show ?thesis using t(2-4) by (intro exI [of _ t]) auto
qed

lemma ex_start_reached: "ex_reach (ex_system ex_store Connecting [] None [])"
  by (rule reach.start, rule ex_system_init) simp

lemma ex_queued_reached:
  "\<exists>s. ex_reach s \<and> (1, ex_message) \<in> set (w_accepted (sy_worker s)) \<and> queued (w_store (sy_worker s)) 1 = Some ex_message"
proof -
  let ?f = "ex_front 2 [] [] {} ex_store"
  have "ex_server_step\<^sup>*\<^sup>* ?f (?f\<lparr>sv_store := ex_store1\<rparr>)"
    by (rule handle_connection_run) (use ex_dialogue_run in \<open>simp_all add: ex_connection_def ex_front_def\<close>)
  from ex_served [OF ex_start_reached this] obtain s where s: "ex_reach s" "front s = ?f\<lparr>sv_store := ex_store1\<rparr>"
    "queued ex_store1 1 = Some ex_message \<Longrightarrow> (1, ex_message) \<in> set (w_accepted (sy_worker s))" by auto
  have "sv_store (front s) = ex_store1" by (simp only: s(2)) simp
  then have "w_store (sy_worker s) = ex_store1" by simp
  with s(1,3) ex_queued(1) show ?thesis by (intro exI [of _ s]) simp
qed

lemma ex_block_reached:
  "\<exists>s. ex_reach s \<and> sy_sessions s = [ex_block_session] \<and> w_store (sy_worker s) = ex_store"
proof -
  from ex_served [OF ex_start_reached ex_block_run] obtain s
    where s: "ex_reach s" "front s = ex_front 1 [ex_block_session] [] {} ex_store" by blast
  then have "sy_sessions s = [ex_block_session]" "w_store (sy_worker s) = ex_store"
    by (simp_all add: front_def ex_front_def)
  with s(1) show ?thesis by blast
qed

text \<open>
  The third run: the worker sleeps on an empty queue, a session commits its message, and its
  deadline passes before the worker is signalled.
\<close>

definition ex_uncalled :: message_store where
  "ex_uncalled = ex_store1\<lparr>notify := False\<rparr>"

lemma ex_idle_reached: "ex_reach (ex_system ex_store (Sleeping 7 IDLE_SLEEP) [] (Some ex_client) [])"
proof -
  let ?st = "ex_store\<lparr>clock := [Some 7, Some 7]\<rparr>"
  have "ex_reach (ex_system ?st Connecting [] None [])"
    by (rule reach.start, rule ex_system_init) simp
  from this ex_system_connects [OF ex_open_sdk_def] have 1: "ex_reach (ex_system ?st Claiming [] (Some ex_client) [])"
    by (rule reach.move)
  have "unix_now ?st = (7, ex_store)" "claim_next_ready 7 ex_store = (Inr None, ex_store)"
    "next_wakeup 7 ex_store = (Inr None, ex_store)"
    by (simp_all add: unix_now_def claim_next_ready_def next_wakeup_def with_conn_no_fault exec_sql_no_fault
        sql_select_ready_def sql_min_wakeup_def ex_store_def empty_database_def wrap_i64_def)
  then have "ex_step\<^sup>*\<^sup>* (ex_system ?st Claiming [] (Some ex_client) [])
      (ex_system ex_store (Sleeping 7 IDLE_SLEEP) [] (Some ex_client) [])"
    by (intro ex_system_iterates) (simp add: run_iter_def idle_wait_def ex_world_def)
  from this 1 show ?thesis by (rule reach_rtranclp)
qed

lemma ex_cut_run: "ex_server_step\<^sup>*\<^sup>* (ex_front 2 [] [] {} ex_store) (ex_front 2 [] [] {1} ex_uncalled)"
proof -
  let ?s' = "ex_session [wire ''QUIT''] (map (\<lambda>x. x @ crlf)
        [''220 chimney-post ESMTP'', ok_reply, ok_reply, ok_reply, go_ahead, ok_reply]) None []"
  have "stored_rows ex_store ex_store1 = [(1, ex_message)]"
    by (rule stored_rows_enqueue) simp_all
  then have "ex_server_step (ex_front 1 [ex_block_session] [] {} ex_store) (ex_front 1 [] [(1, Continue, ?s')] {} ex_uncalled)"
    using server_step.commit [of 0 "ex_front 1 [ex_block_session] [] {} ex_store" ex_plain ex_valid ex_smtp_config
        Continue ?s' ex_store1 1 ex_message] ex_block_turn
    by (simp add: ex_front_def ex_uncalled_def remove_at_def ex_store_def)
  moreover have "ex_server_step (ex_front 1 [] [(1, Continue, ?s')] {} ex_uncalled) (ex_front 2 [] [] {1} ex_uncalled)"
    using server_step.cut [of 0 "ex_front 1 [] [(1, Continue, ?s')] {} ex_uncalled" 1 Continue ?s' ex_plain ex_valid ex_smtp_config]
    by (simp add: ex_front_def remove_at_def numeral_2_eq_2 del: append.simps list.map)
  ultimately show ?thesis using ex_block_run by (meson rtranclp.rtrancl_into_rtrancl)
qed

end
