(* ===== verification/Smtp_Client.thy ===== *)
theory Smtp_Client
  imports Smtp_Session
begin

section \<open>The session from the client's side\<close>

text \<open>
  What a client that keeps to RFC 5321 gets from a connection: a specification of the dialogue
  in terms of mails (sender, recipients, lines), without lines, chunks, limits or parsing of
  commands, and the proof that \<open>handle_connection\<close> implements it for every way the network cuts
  the client's bytes. Each command is a lemma about one turn on a stream that begins with its
  line and goes on in any way, so that the turns compose. The last section shows what the
  session makes of a mail that is too large.
\<close>

subsection \<open>The client and what it may expect\<close>

record mail =
  ml_from :: string
  ml_to :: "string list"
  ml_lines :: "bytes list"

definition path_line :: "string \<Rightarrow> string \<Rightarrow> bytes" where
  "path_line verb a = wire (verb @ '':<'' @ a @ ''>'')"

definition mail_bytes :: "mail \<Rightarrow> bytes" where
  "mail_bytes m = path_line ''MAIL FROM'' (ml_from m) @ concat (map (path_line ''RCPT TO'') (ml_to m)) @
     wire ''DATA'' @ concat (map stuff (ml_lines m)) @ wire ''.''"

definition client_bytes :: "string \<Rightarrow> mail list \<Rightarrow> bytes" where
  "client_bytes host ms = wire (''EHLO '' @ host) @ concat (map mail_bytes ms) @ wire ''QUIT''"

text \<open>What can stand between the brackets of a path and in a command line.\<close>

definition mailbox :: "string \<Rightarrow> bool" where
  "mailbox a \<longleftrightarrow> utf8_valid a \<and> CHR ''>'' \<notin> set a \<and> LF \<notin> set a \<and> length a \<le> 4000"

definition sendable :: "(string \<Rightarrow> bool) \<Rightarrow> smtp_config \<Rightarrow> mail \<Rightarrow> bool" where
  "sendable v cfg m \<longleftrightarrow>
     mailbox (ml_from m) \<and> (ml_from m = [] \<or> v (ml_from m)) \<and>
     ml_to m \<noteq> [] \<and> (\<forall>a\<in>set (ml_to m). mailbox a \<and> a \<noteq> [] \<and> v a) \<and>
     (\<forall>l\<in>set (ml_lines m). is_line l) \<and> length (concat (ml_lines m)) \<le> max_message_size cfg"

definition mail_message :: "'p mailparse \<Rightarrow> mail \<Rightarrow> message" where
  "mail_message mp m = parse_data mp (Some (ml_from m)) (ml_to m) (from_utf8_lossy (concat (ml_lines m)))"

text \<open>The mails are stored one after the other; the reply to each tells whether it was.\<close>

fun submit_all :: "'p mailparse \<Rightarrow> mail list \<Rightarrow> message_store \<Rightarrow> string list \<times> message_store" where
  "submit_all mp [] st = ([], st)"
| "submit_all mp (m # ms) st =
     (case enqueue (mail_message mp m) st of
        (res, st1) \<Rightarrow>
          (case submit_all mp ms st1 of
             (out, st2) \<Rightarrow>
               ([ok_reply] @ map (\<lambda>_. ok_reply) (ml_to m) @
                [go_ahead, case res of Inr _ \<Rightarrow> ok_reply
                           | Inl _ \<Rightarrow> ''451 Requested action aborted: local error in processing''] @ out, st2)))"

subsection \<open>One turn\<close>

text \<open>A session whose client has still to send \<open>rest\<close>, with its replies and its envelope.\<close>

definition at_turn :: "session \<Rightarrow> bytes \<Rightarrow> string list \<Rightarrow> string option \<Rightarrow> string list \<Rightarrow> bool" where
  "at_turn s rest out frm to \<longleftrightarrow>
     healthy (s_reader s) \<and> stream_of (s_reader s) = rest \<and> s_out s = map (\<lambda>x. x @ crlf) out \<and> s_faults s = [] \<and>
     s_from s = frm \<and> s_rcpts s = to"

definition command_text :: "string \<Rightarrow> bool" where
  "command_text l \<longleftrightarrow> l \<noteq> [] \<and> last l \<notin> {CR, LF} \<and> LF \<notin> set l \<and> utf8_valid l \<and> length l + 2 \<le> MAX_COMMAND_LINE_BYTES"

lemma reply_at_turn: "at_turn s rest out frm to \<Longrightarrow> \<exists>s'. reply x t s = (t, s') \<and> at_turn s' rest (out @ [x]) frm to"
  by (simp add: at_turn_def reply_def write_all_def)

lemma turn_command:
  assumes "at_turn s (wire l @ rest) out frm to" and "command_text l"
  shows "\<exists>s'. session_turn mp v cfg s st = command mp v cfg l s' st \<and> at_turn s' rest out frm to"
proof -
  have line: "is_line (wire l)" using assms(2) by (simp add: is_line_def wire_def command_text_def butlast_append)
  have f: "first_line (stream_of (s_reader s)) = wire l"
    using first_line_is_line [OF line] assms(1) by (simp add: at_turn_def)
  have "length (first_line (stream_of (s_reader s))) \<le> MAX_COMMAND_LINE_BYTES"
    using assms(2) by (simp add: f wire_def command_text_def)
  with assms(1) obtain r where r0: "read_line_limited_bytes (s_reader s) [] MAX_COMMAND_LINE_BYTES =
      (Done (Inr (length (first_line (stream_of (s_reader s))))), first_line (stream_of (s_reader s)), r)"
    "healthy r" "stream_of (s_reader s) = first_line (stream_of (s_reader s)) @ stream_of r"
    unfolding at_turn_def by (blast elim: read_line_stream)
  have r: "stream_of r = rest" using r0(3) assms(1) unfolding f by (simp add: at_turn_def)
  have "utf8_valid (wire l)" using assms(2) by (simp add: command_text_def wire_def utf8_valid_append utf8_head_def)
  then have "read_line_limited (s_reader s) [] MAX_COMMAND_LINE_BYTES = (Done (Inr (length (wire l))), wire l, r)"
    using r0(1) unfolding f by (simp add: read_line_limited_def from_utf8_def)
  moreover have "trim_end_matches [CR, LF] (wire l) = l"
    using assms(2) by (cases l rule: rev_cases) (simp_all add: trim_end_matches_def wire_def command_text_def)
  moreover have "wire l \<noteq> []" by (simp add: wire_def)
  ultimately have "session_turn mp v cfg s st = command mp v cfg l (s\<lparr>s_reader := r\<rparr>) st"
    using assms(2) by (simp add: session_turn_def command_text_def Let_def)
  moreover have "at_turn (s\<lparr>s_reader := r\<rparr>) rest out frm to"
    using assms(1) r0(2) r by (simp add: at_turn_def)
  ultimately show ?thesis by blast
qed

subsection \<open>The commands\<close>

lemma trim_start_id: "c \<notin> set ascii_ws \<Longrightarrow> byte c < 0x80 \<Longrightarrow> trim_start (c # s) = c # s"
  by (simp add: trim_start_def drop_while_len.simps ws_len_def head_len_def)

lemma trim_start_blank: "trim_start (CHR 0x20 # s) = trim_start s"
  by (simp add: trim_start_def drop_while_len.simps [of _ "CHR 0x20 # s"] ws_len_def head_len_def ascii_ws_def)

lemma trim_end_id: "c \<notin> set ascii_ws \<Longrightarrow> byte c < 0x80 \<Longrightarrow> trim_end (s @ [c]) = s @ [c]"
  by (simp add: trim_end_def drop_while_len.simps ws_len_rev_def head_len_def)

lemma path_in_brackets: "trim (''<'' @ a @ ''>'') = ''<'' @ a @ ''>''"
  using trim_end_id [of "CHR ''>''" "''<'' @ a"] by (simp add: trim_def trim_start_id ascii_ws_def)

lemma position_end: "c \<notin> set a \<Longrightarrow> position (\<lambda>x. x = c) (a @ [c]) = Some (length a)"
proof -
  assume "c \<notin> set a"
  then have "position (\<lambda>x. x = c) a = None" by (auto simp: position_None)
  then show ?thesis by (simp add: position_append)
qed

lemma parse_paths:
  assumes "mailbox a"
  shows "a = [] \<or> v a \<Longrightarrow> parse_mail_from v (''MAIL FROM:<'' @ a @ ''>'') = Some a"
    and "a \<noteq> [] \<Longrightarrow> v a \<Longrightarrow> parse_rcpt_to v (''RCPT TO:<'' @ a @ ''>'') = Some a"
proof -
  have a: "position (\<lambda>c. c = CHR ''>'') (a @ ''>'') = Some (length a)"
    using assms by (intro position_end) (simp add: mailbox_def)
  have "extract_address_after_colon (''MAIL FROM:<'' @ a @ ''>'') = Some a"
    "extract_address_after_colon (''RCPT TO:<'' @ a @ ''>'') = Some a"
    using path_in_brackets [of a] a by (simp_all add: extract_address_after_colon_def Let_def)
  moreover have "has_path_syntax ''MAIL'' ''FROM'' (''MAIL FROM:<'' @ a @ ''>'')"
    "has_path_syntax ''RCPT'' ''TO'' (''RCPT TO:<'' @ a @ ''>'')"
    by (simp_all add: has_path_syntax_def ascii_upper_def trim_start_blank trim_start_id ascii_ws_def starts_with_def)
  ultimately show "a = [] \<or> v a \<Longrightarrow> parse_mail_from v (''MAIL FROM:<'' @ a @ ''>'') = Some a"
    "a \<noteq> [] \<Longrightarrow> v a \<Longrightarrow> parse_rcpt_to v (''RCPT TO:<'' @ a @ ''>'') = Some a"
    by (auto simp: parse_mail_from_def parse_rcpt_to_def)
qed

text \<open>The commands that answer at once, and what each turn leaves.\<close>

lemma turn_say:
  assumes "at_turn s (wire l @ rest) out f rc" and "command_text l"
    and "\<And>s'. command mp v cfg l s' st = (case reply x t (g s') of (t, s1) \<Rightarrow> (t, s1, st))"
    and "\<And>s'. at_turn s' rest out f rc \<Longrightarrow> at_turn (g s') rest out f' rc'"
  shows "\<exists>s'. session_turn mp v cfg s st = (t, s', st) \<and> at_turn s' rest (out @ [x]) f' rc'"
proof -
  from turn_command [OF assms(1,2)] obtain s1
    where "session_turn mp v cfg s st = command mp v cfg l s1 st" "at_turn s1 rest out f rc" by blast
  moreover from reply_at_turn [OF assms(4) [OF this(2)], of x t] obtain s2
    where "reply x t (g s1) = (t, s2)" "at_turn s2 rest (out @ [x]) f' rc'" by blast
  ultimately show ?thesis using assms(3) by simp
qed

lemma command_text_of [simp]:
  "command_text ''DATA''" "command_text ''QUIT''"
  "utf8_valid host \<Longrightarrow> host \<noteq> [] \<Longrightarrow> CR \<notin> set host \<Longrightarrow> LF \<notin> set host \<Longrightarrow> length host \<le> 4000 \<Longrightarrow> command_text (''EHLO '' @ host)"
  "mailbox a \<Longrightarrow> command_text (''MAIL FROM:<'' @ a @ ''>'')"
  "mailbox a \<Longrightarrow> command_text (''RCPT TO:<'' @ a @ ''>'')"
  by (auto simp: command_text_def mailbox_def MAX_COMMAND_LINE_BYTES_def utf8_head_def utf8_valid_append dest: last_in_set)

lemma command_word:
  "split_whitespace (to_uppercase (''EHLO '' @ a)) = ''EHLO'' # split_whitespace (to_uppercase a)"
  "split_whitespace (to_uppercase (''MAIL '' @ a)) = ''MAIL'' # split_whitespace (to_uppercase a)"
  "split_whitespace (to_uppercase (''RCPT '' @ a)) = ''RCPT'' # split_whitespace (to_uppercase a)"
  "split_whitespace (to_uppercase ''DATA'') = [''DATA'']"
  "split_whitespace (to_uppercase ''QUIT'') = [''QUIT'']"
  by (simp_all add: split_whitespace_def ascii_upper_def ws_len_def head_len_def ascii_ws_def)

lemma turn_ehlo:
  assumes "at_turn s (wire (''EHLO '' @ host) @ rest) out f rc" and "command_text (''EHLO '' @ host)"
  shows "\<exists>s'. session_turn mp v cfg s st = (Continue, s', st) \<and>
    at_turn s' rest (out @ [''250-chimney-post'' @ crlf @ ''250 SIZE '' @ nat_str (max_message_size cfg)]) f rc"
  by (rule turn_say [where g = id, OF assms])
    (use command_word(1) [of host] in \<open>simp_all add: command_def del: to_uppercase.simps\<close>)

lemma turn_mail_from:
  assumes "at_turn s (path_line ''MAIL FROM'' a @ rest) out f rc" and "mailbox a" and "a = [] \<or> v a"
  shows "\<exists>s'. session_turn mp v cfg s st = (Continue, s', st) \<and> at_turn s' rest (out @ [ok_reply]) (Some a) rc"
  by (rule turn_say [where f = f and rc = rc and rest = rest and g = "\<lambda>s. s\<lparr>s_from := Some a\<rparr>" and l = "''MAIL FROM:<'' @ a @ ''>''"])
    (use assms command_text_of(4) [of a] parse_paths(1) [of a v] command_word(2) [of "''FROM:<'' @ a @ ''>''"] in
      \<open>simp_all add: command_def path_line_def at_turn_def del: to_uppercase.simps\<close>)

lemma turn_rcpt_to:
  assumes "at_turn s (path_line ''RCPT TO'' a @ rest) out f rc" and "mailbox a" and "a \<noteq> []" and "v a"
  shows "\<exists>s'. session_turn mp v cfg s st = (Continue, s', st) \<and> at_turn s' rest (out @ [ok_reply]) f (rc @ [a])"
  by (rule turn_say [where f = f and rc = rc and rest = rest and g = "\<lambda>s. s\<lparr>s_rcpts := s_rcpts s @ [a]\<rparr>" and l = "''RCPT TO:<'' @ a @ ''>''"])
    (use assms command_text_of(5) [of a] parse_paths(2) [of a v] command_word(3) [of "''TO:<'' @ a @ ''>''"] in
      \<open>simp_all add: command_def path_line_def at_turn_def del: to_uppercase.simps\<close>)

lemma turn_quit_client:
  assumes "at_turn s (wire ''QUIT'' @ rest) out f rc"
  shows "\<exists>s'. session_turn mp v cfg s st = (Close (Inr ()), s', st) \<and> at_turn s' rest (out @ [''221 Bye'']) f rc"
  by (rule turn_say [where g = id, OF assms])
    (use command_word(5) in \<open>simp_all add: command_def del: to_uppercase.simps\<close>)

text \<open>The block: its lines arrive as one text, and the store answers for the message made of it.\<close>

lemma turn_data_client:
  assumes "at_turn s (wire ''DATA'' @ concat (map stuff ls) @ wire ''.'' @ rest) out (Some f) rc" and "rc \<noteq> []"
    and "\<forall>l\<in>set ls. is_line l" and "length (concat ls) \<le> max_message_size cfg" and "max_message_size cfg + 4 \<le> usize_max"
    and "enqueue (parse_data mp (Some f) rc (from_utf8_lossy (concat ls))) st = (res, st1)"
  shows "\<exists>s'. session_turn mp v cfg s st = (Continue, s', st1) \<and>
    at_turn s' rest (out @ [go_ahead, case res of Inr _ \<Rightarrow> ok_reply
      | Inl _ \<Rightarrow> ''451 Requested action aborted: local error in processing'']) None []"
proof -
  let ?rest = "concat (map stuff ls) @ wire ''.'' @ rest"
  let ?text = "case res of Inr _ \<Rightarrow> ok_reply | Inl _ \<Rightarrow> ''451 Requested action aborted: local error in processing''"
  from turn_command [OF assms(1)] obtain s1 where s1:
    "session_turn mp v cfg s st = command mp v cfg ''DATA'' s1 st" "at_turn s1 ?rest out (Some f) rc" by fastforce
  then have "session_turn mp v cfg s st = data_command mp cfg s1 st"
    using command_word(4) by (simp add: command_def del: to_uppercase.simps)
  moreover from reply_at_turn [OF s1(2), of go_ahead Continue] obtain s2 where s2:
    "reply go_ahead Continue s1 = (Continue, s2)" "at_turn s2 ?rest (out @ [go_ahead]) (Some f) rc" by blast
  from data_roundtrip [OF _ _ assms(3-5), of "s_reader s2" rest] s2(2) obtain r where r:
    "read_data (s_reader s2) (max_message_size cfg) = (Inr (from_utf8_lossy (concat ls)), r)" "healthy r" "stream_of r = rest"
    by (auto simp: at_turn_def wire_def)
  have "at_turn (s2\<lparr>s_reader := r\<rparr>) rest (out @ [go_ahead]) (Some f) rc" using s2(2) r(2,3) by (simp add: at_turn_def)
  from reply_at_turn [OF this, of ?text Continue] obtain s3 where s3:
    "reply ?text Continue (s2\<lparr>s_reader := r\<rparr>) = (Continue, s3)" "at_turn s3 rest (out @ [go_ahead, ?text]) (Some f) rc" by auto
  ultimately have "session_turn mp v cfg s st = (Continue, clear_envelope s3, st1)"
    using s1(2) s2 r(1) assms(2,6) by (simp add: data_command_def at_turn_def Let_def)
  moreover have "at_turn (clear_envelope s3) rest (out @ [go_ahead, ?text]) None []"
    using s3(2) by (simp add: at_turn_def clear_envelope_def)
  ultimately show ?thesis by blast
qed

text \<open>A block whose first line is too long is refused; what the reader has left is then open.\<close>

lemma turn_data_oversized:
  assumes "at_turn s (wire ''DATA'' @ block) out (Some f) rc" and "rc \<noteq> []"
    and "max_message_size cfg + 4 < length (first_line block)" and "max_message_size cfg + 4 \<le> usize_max"
  shows "\<exists>s'. session_turn mp v cfg s st = (Continue, s', st) \<and>
    s_out s' = map (\<lambda>x. x @ crlf) (out @ [go_ahead, ''552 Message size exceeded''])"
proof -
  let ?m = "max_message_size cfg"
  from turn_command [OF assms(1)] obtain s1 where s1:
    "session_turn mp v cfg s st = command mp v cfg ''DATA'' s1 st" "at_turn s1 block out (Some f) rc" by fastforce
  then have "session_turn mp v cfg s st = data_command mp cfg s1 st"
    using command_word(4) by (simp add: command_def del: to_uppercase.simps)
  moreover from reply_at_turn [OF s1(2), of go_ahead Continue] obtain s2 where s2:
    "reply go_ahead Continue s1 = (Continue, s2)" "at_turn s2 block (out @ [go_ahead]) (Some f) rc" by blast
  have m: "usize_saturating_add (usize_saturating_sub ?m 0) 4 = ?m + 4"
    using assms(4) by (simp add: usize_saturating_add_def usize_saturating_sub_def)
  from s2(2) assms(3) have "healthy (s_reader s2)" "?m + 4 < length (first_line (stream_of (s_reader s2)))"
    by (simp_all add: at_turn_def)
  from read_line_long [OF this] obtain b r where
    "read_line_limited_bytes (s_reader s2) [] (?m + 4) = (Done (Inl SmtpLineTooLong), b, r)" by blast
  then have "read_data (s_reader s2) ?m = (Inl SmtpSizeExceeded, r)"
    by (simp add: read_data_def read_data_loop.simps [of ?m "[]"] m)
  moreover have "\<exists>s3. reply ''552 Message size exceeded'' Continue (s2\<lparr>s_reader := r\<rparr>) = (Continue, s3) \<and>
      s_out s3 = map (\<lambda>x. x @ crlf) (out @ [go_ahead, ''552 Message size exceeded''])"
    using s2(2) by (simp add: reply_def write_all_def at_turn_def)
  ultimately show ?thesis using s1(2) s2 assms(2) by (auto simp: data_command_def at_turn_def Let_def)
qed

text \<open>Replies are never taken back.\<close>

lemma turn_replies_kept:
  assumes "session_turn mp v cfg s st = (t, s', st')" shows "\<exists>x. s_out s' = s_out s @ x"
  using assms
proof (cases rule: session_turn_cases)
  case (command line r1)
  from command(1) show ?thesis
    by (cases rule: command_cases) (auto elim!: data_command_cases)
qed auto

lemma loop_replies_kept: "connection_loop mp v cfg s st = (q, s', st') \<Longrightarrow> \<exists>x. s_out s' = s_out s @ x"
proof (induction mp v cfg s st rule: connection_loop.induct)
  case (1 mp v cfg s st)
  obtain t s1 st1 where t: "session_turn mp v cfg s st = (t, s1, st1)" by (metis prod_cases3)
  from turn_replies_kept [OF t] obtain x where x: "s_out s1 = s_out s @ x" by blast
  show ?case
  proof (cases t)
    case Continue
    with t "1.prems" have "connection_loop mp v cfg s1 st1 = (q, s', st')" by (simp add: connection_loop.simps [of mp v cfg s st])
    from "1.IH" [OF t [symmetric] Continue refl this] x show ?thesis by auto
  next
    case (Close r)
    with t "1.prems" x show ?thesis by (simp add: connection_loop.simps [of mp v cfg s st])
  qed
qed

subsection \<open>The dialogue\<close>

lemma loop_turn:
  "session_turn mp v cfg s st = (Continue, s', st') \<Longrightarrow> connection_loop mp v cfg s st = connection_loop mp v cfg s' st'"
  by (simp add: connection_loop.simps [of mp v cfg s st])

lemma loop_close: "session_turn mp v cfg s st = (Close q, s', st') \<Longrightarrow> connection_loop mp v cfg s st = (q, s', st')"
  by (simp add: connection_loop.simps [of mp v cfg s st])

lemma loop_rcpts:
  "at_turn s (concat (map (path_line ''RCPT TO'') as) @ rest) out f rc \<Longrightarrow> \<forall>a\<in>set as. mailbox a \<and> a \<noteq> [] \<and> v a \<Longrightarrow>
   \<exists>s'. connection_loop mp v cfg s st = connection_loop mp v cfg s' st \<and>
     at_turn s' rest (out @ map (\<lambda>_. ok_reply) as) f (rc @ as)"
proof (induction as arbitrary: s out rc)
  case Nil
  then show ?case by auto
next
  case (Cons a as)
  from turn_rcpt_to [of s a "concat (map (path_line ''RCPT TO'') as) @ rest" out f rc v mp cfg st] Cons.prems obtain s1
    where s1: "session_turn mp v cfg s st = (Continue, s1, st)"
      "at_turn s1 (concat (map (path_line ''RCPT TO'') as) @ rest) (out @ [ok_reply]) f (rc @ [a])" by auto
  from Cons.IH [OF s1(2)] Cons.prems(2) loop_turn [OF s1(1)] show ?case by auto
qed

lemma loop_mail:
  assumes "at_turn s (mail_bytes m @ rest) out None []" and "sendable v cfg m" and "max_message_size cfg + 4 \<le> usize_max"
    and "enqueue (mail_message mp m) st = (res, st1)"
  shows "\<exists>s'. connection_loop mp v cfg s st = connection_loop mp v cfg s' st1 \<and>
    at_turn s' rest (out @ [ok_reply] @ map (\<lambda>_. ok_reply) (ml_to m) @ [go_ahead, case res of Inr _ \<Rightarrow> ok_reply
      | Inl _ \<Rightarrow> ''451 Requested action aborted: local error in processing'']) None []"
proof -
  let ?block = "wire ''DATA'' @ concat (map stuff (ml_lines m)) @ wire ''.'' @ rest"
  let ?rcpts = "concat (map (path_line ''RCPT TO'') (ml_to m)) @ ?block"
  have m: "mailbox (ml_from m)" "ml_from m = [] \<or> v (ml_from m)" "ml_to m \<noteq> []"
    "\<forall>a\<in>set (ml_to m). mailbox a \<and> a \<noteq> [] \<and> v a" "\<forall>l\<in>set (ml_lines m). is_line l"
    "length (concat (ml_lines m)) \<le> max_message_size cfg"
    using assms(2) by (auto simp: sendable_def)
  have "at_turn s (path_line ''MAIL FROM'' (ml_from m) @ ?rcpts) out None []" using assms(1) by (simp add: mail_bytes_def)
  from turn_mail_from [where v = v, OF this m(1,2)] obtain s1 where s1: "session_turn mp v cfg s st = (Continue, s1, st)"
    "at_turn s1 ?rcpts (out @ [ok_reply]) (Some (ml_from m)) []" by blast
  from loop_rcpts [OF s1(2) m(4), of mp cfg st] obtain s2 where s2: "connection_loop mp v cfg s1 st = connection_loop mp v cfg s2 st"
    "at_turn s2 ?block ((out @ [ok_reply]) @ map (\<lambda>_. ok_reply) (ml_to m)) (Some (ml_from m)) (ml_to m)" by auto
  from turn_data_client [OF s2(2) m(3,5,6) assms(3)] assms(4) obtain s3
    where "session_turn mp v cfg s2 st = (Continue, s3, st1)"
      "at_turn s3 rest (((out @ [ok_reply]) @ map (\<lambda>_. ok_reply) (ml_to m)) @ [go_ahead, case res of Inr _ \<Rightarrow> ok_reply
        | Inl _ \<Rightarrow> ''451 Requested action aborted: local error in processing'']) None []"
    unfolding mail_message_def by blast
  then show ?thesis using loop_turn [OF s1(1)] s2(1) loop_turn by (intro exI [of _ s3]) auto
qed

lemma loop_mails:
  "at_turn s (concat (map mail_bytes ms) @ rest) out None [] \<Longrightarrow> \<forall>m\<in>set ms. sendable v cfg m \<Longrightarrow>
   max_message_size cfg + 4 \<le> usize_max \<Longrightarrow>
   \<exists>s'. connection_loop mp v cfg s st = connection_loop mp v cfg s' (snd (submit_all mp ms st)) \<and>
     at_turn s' rest (out @ fst (submit_all mp ms st)) None []"
proof (induction ms arbitrary: s st out)
  case Nil
  then show ?case by (intro exI [of _ s]) simp
next
  case (Cons m ms)
  obtain res st1 where e: "enqueue (mail_message mp m) st = (res, st1)" by fastforce
  have "at_turn s (mail_bytes m @ concat (map mail_bytes ms) @ rest) out None []" using Cons.prems(1) by simp
  from loop_mail [OF this _ Cons.prems(3) e] Cons.prems(2) obtain s1
    where s1: "connection_loop mp v cfg s st = connection_loop mp v cfg s1 st1"
      "at_turn s1 (concat (map mail_bytes ms) @ rest) (out @ [ok_reply] @ map (\<lambda>_. ok_reply) (ml_to m) @
        [go_ahead, case res of Inr _ \<Rightarrow> ok_reply
         | Inl _ \<Rightarrow> ''451 Requested action aborted: local error in processing'']) None []" by auto
  from Cons.IH [OF s1(2) _ Cons.prems(3), of st1] Cons.prems(2) s1(1) e show ?case
    by (cases "submit_all mp ms st1") auto
qed

lemma greeted:
  assumes "healthy r" and "stream_of r = bytes"
  shows "\<exists>s. handle_connection mp v cfg r [] st = connection_loop mp v cfg s st \<and>
    at_turn s bytes [''220 chimney-post ESMTP''] None []"
proof -
  have "at_turn (new_session r []) bytes [] None []" using assms by (simp add: at_turn_def new_session_def)
  from reply_at_turn [OF this, of "''220 chimney-post ESMTP''" Continue] obtain s where
    "reply ''220 chimney-post ESMTP'' Continue (new_session r []) = (Continue, s)"
    "at_turn s bytes [''220 chimney-post ESMTP''] None []" by auto
  then show ?thesis by (intro exI [of _ s]) (simp add: handle_connection_def)
qed

text \<open>A client that hangs up between two turns has closed the connection without a reply.\<close>

lemma turn_hang_up:
  assumes "at_turn s [] out f rc"
  shows "\<exists>s'. session_turn mp v cfg s st = (Close (Inr ()), s', st) \<and> at_turn s' [] out f rc"
proof -
  have s: "healthy (s_reader s)" "stream_of (s_reader s) = []" using assms by (simp_all add: at_turn_def)
  then have f: "first_line (stream_of (s_reader s)) = []" by (simp add: first_line_def)
  then have "length (first_line (stream_of (s_reader s))) \<le> MAX_COMMAND_LINE_BYTES" by simp
  with s(1) obtain r where "read_line_limited_bytes (s_reader s) [] MAX_COMMAND_LINE_BYTES =
      (Done (Inr (length (first_line (stream_of (s_reader s))))), first_line (stream_of (s_reader s)), r)"
    "healthy r" "stream_of (s_reader s) = first_line (stream_of (s_reader s)) @ stream_of r" by (rule read_line_stream)
  then have "read_line_limited_bytes (s_reader s) [] MAX_COMMAND_LINE_BYTES = (Done (Inr 0), [], r)" "healthy r" "stream_of r = []"
    using s(2) by (simp_all add: f)
  then have "session_turn mp v cfg s st = (Close (Inr ()), s\<lparr>s_reader := r\<rparr>, st)" "at_turn (s\<lparr>s_reader := r\<rparr>) [] out f rc"
    using assms by (simp_all add: session_turn_def read_line_limited_def from_utf8_def at_turn_def)
  then show ?thesis by blast
qed

lemma submitted_then_gone:
  assumes "healthy r" and "stream_of r = concat (map mail_bytes ms)" and "\<forall>m\<in>set ms. sendable v cfg m"
    and "max_message_size cfg + 4 \<le> usize_max"
  shows "\<exists>s'. handle_connection mp v cfg r [] st = (Inr (), s', snd (submit_all mp ms st)) \<and>
    s_out s' = map (\<lambda>x. x @ crlf) (''220 chimney-post ESMTP'' # fst (submit_all mp ms st))"
proof -
  from greeted [OF assms(1,2)] obtain s1 where s1: "handle_connection mp v cfg r [] st = connection_loop mp v cfg s1 st"
    "at_turn s1 (concat (map mail_bytes ms) @ []) [''220 chimney-post ESMTP''] None []" by fastforce
  from loop_mails [OF s1(2) assms(3,4)] obtain s2
    where s2: "connection_loop mp v cfg s1 st = connection_loop mp v cfg s2 (snd (submit_all mp ms st))"
      "at_turn s2 [] ([''220 chimney-post ESMTP''] @ fst (submit_all mp ms st)) None []" by blast
  from turn_hang_up [OF s2(2), of mp v cfg "snd (submit_all mp ms st)"] obtain s3
    where s3: "session_turn mp v cfg s2 (snd (submit_all mp ms st)) = (Close (Inr ()), s3, snd (submit_all mp ms st))"
      "at_turn s3 [] ([''220 chimney-post ESMTP''] @ fst (submit_all mp ms st)) None []" by blast
  with loop_close [OF s3(1)] s1(1) s2(1) show ?thesis by (intro exI [of _ s3]) (simp add: at_turn_def)
qed

lemma client_dialogue:
  assumes "healthy r" and "stream_of r = client_bytes host ms @ rest" and "command_text (''EHLO '' @ host)"
    and "\<forall>m\<in>set ms. sendable v cfg m" and "max_message_size cfg + 4 \<le> usize_max"
  shows "\<exists>s'. handle_connection mp v cfg r [] st = (Inr (), s', snd (submit_all mp ms st)) \<and>
    s_out s' = map (\<lambda>x. x @ crlf)
      ([''220 chimney-post ESMTP'', ''250-chimney-post'' @ crlf @ ''250 SIZE '' @ nat_str (max_message_size cfg)] @
       fst (submit_all mp ms st) @ [''221 Bye'']) \<and>
    stream_of (s_reader s') = rest"
proof -
  let ?mails = "concat (map mail_bytes ms) @ wire ''QUIT'' @ rest"
  have "stream_of r = wire (''EHLO '' @ host) @ ?mails" using assms(2) by (simp add: client_bytes_def)
  from greeted [OF assms(1) this] obtain s1 where s1: "handle_connection mp v cfg r [] st = connection_loop mp v cfg s1 st"
    "at_turn s1 (wire (''EHLO '' @ host) @ ?mails) [''220 chimney-post ESMTP''] None []" by blast
  from turn_ehlo [OF s1(2) assms(3)] obtain s2 where s2: "session_turn mp v cfg s1 st = (Continue, s2, st)"
    "at_turn s2 ?mails ([''220 chimney-post ESMTP''] @
       [''250-chimney-post'' @ crlf @ ''250 SIZE '' @ nat_str (max_message_size cfg)]) None []" by blast
  from loop_mails [OF s2(2) assms(4,5)] obtain s3
    where s3: "connection_loop mp v cfg s2 st = connection_loop mp v cfg s3 (snd (submit_all mp ms st))"
      "at_turn s3 (wire ''QUIT'' @ rest) (([''220 chimney-post ESMTP''] @
       [''250-chimney-post'' @ crlf @ ''250 SIZE '' @ nat_str (max_message_size cfg)]) @ fst (submit_all mp ms st)) None []" by blast
  from turn_quit_client [OF s3(2), of mp v cfg "snd (submit_all mp ms st)"] obtain s4
    where s4: "session_turn mp v cfg s3 (snd (submit_all mp ms st)) = (Close (Inr ()), s4, snd (submit_all mp ms st))"
      "at_turn s4 rest ((([''220 chimney-post ESMTP''] @
       [''250-chimney-post'' @ crlf @ ''250 SIZE '' @ nat_str (max_message_size cfg)]) @ fst (submit_all mp ms st)) @ [''221 Bye''])
       None []" by blast
  with loop_close [OF s4(1)] s1(1) s3(1) loop_turn [OF s2(1)] show ?thesis
    by (intro exI [of _ s4]) (simp add: at_turn_def)
qed

text \<open>
  C11. The session implements the dialogue of RFC 5321: a client that keeps to it (EHLO, its
  mails with dots stuffed, QUIT) is served in full, however the network cuts its bytes. Every
  command gets its positive reply, every mail is stored as the message its lines parse to,
  with its own sender and recipients and in its turn, and 250 or 451 after the block tells
  whether it was.
\<close>

theorem client_served:
  assumes "healthy r" and "stream_of r = client_bytes host ms @ rest" and "command_text (''EHLO '' @ host)"
    and "\<forall>m\<in>set ms. sendable v cfg m" and "max_message_size cfg + 4 \<le> usize_max"
  shows "\<exists>s'. handle_connection mp v cfg r [] st = (Inr (), s', snd (submit_all mp ms st)) \<and>
    s_out s' = map (\<lambda>x. x @ crlf)
      ([''220 chimney-post ESMTP'', ''250-chimney-post'' @ crlf @ ''250 SIZE '' @ nat_str (max_message_size cfg)] @
       fst (submit_all mp ms st) @ [''221 Bye'']) \<and>
    stream_of (s_reader s') = rest"
  by (rule client_dialogue [OF assms])

definition ex_letter :: mail where
  "ex_letter = \<lparr>ml_from = ''s@x'', ml_to = [''a@x'', ''b@y''], ml_lines = [crlf, ''hi'' @ crlf]\<rparr>"

definition ex_client_reader :: buf_reader where
  "ex_client_reader = \<lparr>rd_buf = [], rd_events = [Chunk (client_bytes ''h'' [ex_letter])]\<rparr>"

lemma ex_client:
  "mail_message ex_plain ex_letter = ex_message" "sendable ex_valid ex_smtp_config ex_letter" "command_text (''EHLO '' @ ''h'')"
  "healthy ex_client_reader" "stream_of ex_client_reader = client_bytes ''h'' [ex_letter] @ []"
  by (code_simp, code_simp, rule command_text_of,
    simp_all add: utf8_head_def ex_client_reader_def healthy_def stream_of_def client_bytes_def wire_def)

lemma client_served_witness:
  "\<exists>s'. handle_connection ex_plain ex_valid ex_smtp_config ex_client_reader [] ex_store = (Inr (), s', ex_store1)"
proof -
  have "\<forall>m\<in>set [ex_letter]. sendable ex_valid ex_smtp_config m" "max_message_size ex_smtp_config + 4 \<le> usize_max"
    using ex_client(2) by (simp_all add: ex_smtp_config_def usize_max_def)
  from client_served [OF ex_client(4,5,3) this, of ex_plain ex_store] ex_client(1) show ?thesis by auto
qed

subsection \<open>A block that is too large\<close>

text \<open>
  A line that the session, were it to read it or its end as a command, would not take for one:
  it is answered with 502, or not at all when it is blank.
\<close>

definition no_command :: "bytes \<Rightarrow> bool" where
  "no_command x \<longleftrightarrow>
     utf8_valid x \<and>
     (case split_whitespace (to_uppercase (trim_end_matches [CR, LF] x)) of
        [] \<Rightarrow> True
      | w # _ \<Rightarrow> w \<notin> {''QUIT'', ''HELO'', ''EHLO'', ''RSET'', ''NOOP'', ''MAIL'', ''RCPT'', ''DATA''})"

fun never_a_command :: "bytes \<Rightarrow> bool" where
  "never_a_command [] = True"
| "never_a_command (c # cs) = (no_command (c # cs) \<and> never_a_command cs)"

lemma never_a_command_end: "never_a_command (y @ x) \<Longrightarrow> x \<noteq> [] \<Longrightarrow> no_command x"
  by (induction y) (auto simp: neq_Nil_conv)

abbreviation not_implemented :: string where
  "not_implemented \<equiv> ''502 Command not implemented''"

lemma turn_no_command:
  assumes "at_turn s (x @ rest) out f rc" and "is_line x" and "no_command x" and "length x \<le> MAX_COMMAND_LINE_BYTES"
  shows "\<exists>s' ns. session_turn mp v cfg s st = (Continue, s', st) \<and> at_turn s' rest (out @ ns) f rc \<and>
    set ns \<subseteq> {not_implemented}"
proof -
  have fl: "first_line (stream_of (s_reader s)) = x"
    using first_line_is_line [OF assms(2)] assms(1) by (simp add: at_turn_def)
  have "length (first_line (stream_of (s_reader s))) \<le> MAX_COMMAND_LINE_BYTES"
    using assms(4) by (simp add: fl)
  with assms(1) obtain r where r0: "read_line_limited_bytes (s_reader s) [] MAX_COMMAND_LINE_BYTES =
      (Done (Inr (length (first_line (stream_of (s_reader s))))), first_line (stream_of (s_reader s)), r)"
    "healthy r" "stream_of (s_reader s) = first_line (stream_of (s_reader s)) @ stream_of r"
    unfolding at_turn_def by (blast elim: read_line_stream)
  have "stream_of r = rest" using r0(3) [unfolded fl] assms(1) by (simp add: at_turn_def)
  with assms(1) r0(2) have at: "at_turn (s\<lparr>s_reader := r\<rparr>) rest out f rc" by (simp add: at_turn_def)
  have "read_line_limited (s_reader s) [] MAX_COMMAND_LINE_BYTES = (Done (Inr (length x)), x, r)"
    using r0(1) assms(3) unfolding fl by (simp add: read_line_limited_def from_utf8_def no_command_def)
  moreover have "x \<noteq> []" using assms(2) by (simp add: is_line_def)
  ultimately have t: "session_turn mp v cfg s st =
      (if trim_end_matches [CR, LF] x = [] then (Continue, s\<lparr>s_reader := r\<rparr>, st)
       else command mp v cfg (trim_end_matches [CR, LF] x) (s\<lparr>s_reader := r\<rparr>) st)"
    by (simp add: session_turn_def Let_def)
  show ?thesis
  proof (cases "trim_end_matches [CR, LF] x = []")
    case True
    with t at show ?thesis by (intro exI [of _ "s\<lparr>s_reader := r\<rparr>"] exI [of _ "[]"]) simp
  next
    case False
    from reply_at_turn [OF at, of not_implemented Continue] obtain s' where
      s': "reply not_implemented Continue (s\<lparr>s_reader := r\<rparr>) = (Continue, s')"
      "at_turn s' rest (out @ [not_implemented]) f rc" by blast
    have "command mp v cfg (trim_end_matches [CR, LF] x) (s\<lparr>s_reader := r\<rparr>) st =
        (case reply not_implemented Continue (s\<lparr>s_reader := r\<rparr>) of (t, s1) \<Rightarrow> (t, s1, st))"
      using assms(3) unfolding command_def no_command_def Let_def by (auto split: list.splits)
    with t False s' show ?thesis by (intro exI [of _ s'] exI [of _ "[not_implemented]"]) simp
  qed
qed

text \<open>The block is refused at the line \<open>l\<close>, and the session goes on at the end of that line.\<close>

lemma turn_data_overflow:
  assumes "at_turn s (wire ''DATA'' @ concat (map stuff ls) @ stuff l @ rest) out (Some f) rc" and "rc \<noteq> []"
    and "\<forall>k\<in>set (l # ls). is_line k" and "length (concat ls) \<le> max_message_size cfg"
    and "max_message_size cfg < length (concat ls) + length l" and "max_message_size cfg + 4 \<le> usize_max"
  shows "\<exists>s' y x. session_turn mp v cfg s st = (Continue, s', st) \<and> stuff l = y @ x \<and>
    at_turn s' (x @ rest) (out @ [go_ahead, ''552 Message size exceeded'']) None []"
proof -
  let ?rest = "concat (map stuff ls) @ stuff l @ rest"
  from turn_command [OF assms(1)] obtain s1 where s1:
    "session_turn mp v cfg s st = command mp v cfg ''DATA'' s1 st" "at_turn s1 ?rest out (Some f) rc" by fastforce
  then have d: "session_turn mp v cfg s st = data_command mp cfg s1 st"
    using command_word(4) by (simp add: command_def del: to_uppercase.simps)
  from reply_at_turn [OF s1(2), of go_ahead Continue] obtain s2 where s2:
    "reply go_ahead Continue s1 = (Continue, s2)" "at_turn s2 ?rest (out @ [go_ahead]) (Some f) rc" by blast
  have "healthy (s_reader s2)" "stream_of (s_reader s2) = ?rest" using s2(2) by (simp_all add: at_turn_def)
  from read_data_loop_overflow [OF this assms(3), of "[]" "max_message_size cfg"] assms(4-6) obtain r y x where
    r: "read_data_loop (max_message_size cfg) [] (s_reader s2) = (Inl SmtpSizeExceeded, r)" "healthy r"
    "stuff l = y @ x" "stream_of r = x @ rest" by auto
  then have rd: "read_data (s_reader s2) (max_message_size cfg) = (Inl SmtpSizeExceeded, r)" by (simp add: read_data_def)
  have "at_turn (s2\<lparr>s_reader := r\<rparr>) (x @ rest) (out @ [go_ahead]) (Some f) rc"
    using s2(2) r(2,4) by (simp add: at_turn_def)
  from reply_at_turn [OF this, of "''552 Message size exceeded''" Continue] obtain s3 where s3:
    "reply ''552 Message size exceeded'' Continue (s2\<lparr>s_reader := r\<rparr>) = (Continue, s3)"
    "at_turn s3 (x @ rest) (out @ [go_ahead, ''552 Message size exceeded'']) (Some f) rc" by auto
  have "session_turn mp v cfg s st = (Continue, clear_envelope s3, st)"
    using d s1(2) s2 rd s3(1) assms(2) by (simp add: data_command_def at_turn_def Let_def)
  moreover have "at_turn (clear_envelope s3) (x @ rest) (out @ [go_ahead, ''552 Message size exceeded'']) None []"
    using s3(2) by (simp add: at_turn_def clear_envelope_def)
  ultimately show ?thesis using r(3) by blast
qed

lemma loop_rest_of_line:
  assumes "at_turn s (x @ rest) out f rc" and "stuff l = y @ x" and "is_line l" and "never_a_command (stuff l)"
    and "length (stuff l) \<le> MAX_COMMAND_LINE_BYTES"
  shows "\<exists>s' ns. connection_loop mp v cfg s st = connection_loop mp v cfg s' st \<and>
    at_turn s' rest (out @ ns) f rc \<and> set ns \<subseteq> {not_implemented}"
proof (cases "x = []")
  case True
  with assms(1) show ?thesis by (intro exI [of _ s] exI [of _ "[]"]) simp
next
  case False
  have "is_line (y @ x)" using stuff_is_line [OF assms(3)] assms(2) by simp
  with False have "is_line x" by (auto simp: is_line_def butlast_append)
  moreover have "no_command x" using never_a_command_end [of y x] assms(4) False by (simp add: assms(2))
  moreover have "length x \<le> MAX_COMMAND_LINE_BYTES" using assms(5) by (simp add: assms(2))
  ultimately obtain s' ns where "session_turn mp v cfg s st = (Continue, s', st)" "at_turn s' rest (out @ ns) f rc"
    "set ns \<subseteq> {not_implemented}" using turn_no_command [OF assms(1)] by blast
  with loop_turn show ?thesis by blast
qed

text \<open>A mail as the lines of a text: what a dialogue looks like in a body.\<close>

definition as_lines :: "mail \<Rightarrow> bytes list" where
  "as_lines m = path_line ''MAIL FROM'' (ml_from m) # map (path_line ''RCPT TO'') (ml_to m) @ [wire ''DATA''] @ ml_lines m"

lemma stuff_as_lines:
  "concat (map stuff (as_lines m)) @ wire ''.'' = path_line ''MAIL FROM'' (ml_from m) @
     concat (map (path_line ''RCPT TO'') (ml_to m)) @ wire ''DATA'' @ concat (map stuff (ml_lines m)) @ wire ''.''"
proof -
  have "stuff (path_line ''MAIL FROM'' a) = path_line ''MAIL FROM'' a"
    "stuff (path_line ''RCPT TO'' a) = path_line ''RCPT TO'' a" "stuff (wire ''DATA'') = wire ''DATA''" for a
    by (simp_all add: stuff_def path_line_def wire_def starts_with_def)
  then show ?thesis by (simp add: as_lines_def comp_def)
qed

text \<open>
  C29. A refused mail can queue another one. A client that keeps to the protocol (EHLO, one mail
  with its dots stuffed, QUIT) sends a mail \<open>M\<close> that outgrows the size limit with its line \<open>l\<close>,
  by however much (a line that fits the command buffer and no end of which reads as a command), and whose further lines look like a dialogue: MAIL FROM, RCPT TO, DATA and
  the lines of a mail \<open>m\<close>. The block is refused with 552, but the session does not read it to
  its end: it executes the lines after \<open>l\<close> as commands, and stores \<open>m\<close>, with the sender and
  the recipients that stand in the body of \<open>M\<close>, as a message of its own. This holds for every
  parser, address check, limit and store and for every way the bytes are cut into chunks;
  what is left of \<open>l\<close> itself, which depends on the chunks, is answered with 502 at most.
\<close>

theorem oversized_block_smuggles:
  assumes "healthy r" and "stream_of r = client_bytes host [M] @ rest" and "command_text (''EHLO '' @ host)"
    and "ml_lines M = ls @ l # as_lines m" and "sendable v cfg (M\<lparr>ml_lines := ls\<rparr>)" and "sendable v cfg m"
    and "max_message_size cfg < length (concat ls) + length l" and "max_message_size cfg + 4 \<le> usize_max"
    and "is_line l" and "never_a_command (stuff l)" and "length (stuff l) \<le> MAX_COMMAND_LINE_BYTES"
  shows "\<exists>s' ns. handle_connection mp v cfg r [] st = (Inr (), s', snd (enqueue (mail_message mp m) st)) \<and>
    s_out s' = map (\<lambda>x. x @ crlf)
      ([''220 chimney-post ESMTP'', ''250-chimney-post'' @ crlf @ ''250 SIZE '' @ nat_str (max_message_size cfg), ok_reply] @
       map (\<lambda>_. ok_reply) (ml_to M) @ [go_ahead, ''552 Message size exceeded''] @ ns @
       fst (submit_all mp [m] st) @ [''221 Bye'']) \<and>
    set ns \<subseteq> {not_implemented} \<and> stream_of (s_reader s') = rest"
proof -
  let ?quit = "wire ''QUIT'' @ rest"
  let ?inner = "concat (map mail_bytes [m]) @ ?quit"
  let ?block = "wire ''DATA'' @ concat (map stuff ls) @ stuff l @ ?inner"
  let ?rcpts = "concat (map (path_line ''RCPT TO'') (ml_to M)) @ ?block"
  let ?mail = "path_line ''MAIL FROM'' (ml_from M) @ ?rcpts"
  let ?st = "snd (submit_all mp [m] st)"
  have M: "mailbox (ml_from M)" "ml_from M = [] \<or> v (ml_from M)" "ml_to M \<noteq> []"
    "\<forall>a\<in>set (ml_to M). mailbox a \<and> a \<noteq> [] \<and> v a" "\<forall>k\<in>set (l # ls). is_line k"
    "length (concat ls) \<le> max_message_size cfg"
    using assms(5,9) by (auto simp: sendable_def)
  have "stream_of r = wire (''EHLO '' @ host) @ ?mail"
    using assms(2,4) stuff_as_lines [of m] by (simp add: client_bytes_def mail_bytes_def)
  from greeted [OF assms(1) this] obtain s1 where s1: "handle_connection mp v cfg r [] st = connection_loop mp v cfg s1 st"
    "at_turn s1 (wire (''EHLO '' @ host) @ ?mail) [''220 chimney-post ESMTP''] None []" by blast
  from turn_ehlo [OF s1(2) assms(3)] obtain s2 out2 where s2: "session_turn mp v cfg s1 st = (Continue, s2, st)"
    "at_turn s2 ?mail out2 None []" and out2: "out2 = [''220 chimney-post ESMTP''] @
      [''250-chimney-post'' @ crlf @ ''250 SIZE '' @ nat_str (max_message_size cfg)]" by blast
  from turn_mail_from [where v = v, OF s2(2) M(1,2)] obtain s3 where s3: "session_turn mp v cfg s2 st = (Continue, s3, st)"
    "at_turn s3 ?rcpts (out2 @ [ok_reply]) (Some (ml_from M)) []" by blast
  from loop_rcpts [OF s3(2) M(4), of mp cfg st] obtain s4 out4 where
    s4: "connection_loop mp v cfg s3 st = connection_loop mp v cfg s4 st"
    "at_turn s4 ?block out4 (Some (ml_from M)) (ml_to M)"
    and out4: "out4 = (out2 @ [ok_reply]) @ map (\<lambda>_. ok_reply) (ml_to M)" by auto
  from turn_data_overflow [OF s4(2) M(3,5,6) assms(7,8)] obtain s5 y x where
    s5: "session_turn mp v cfg s4 st = (Continue, s5, st)" "stuff l = y @ x"
    "at_turn s5 (x @ ?inner) (out4 @ [go_ahead, ''552 Message size exceeded'']) None []" by blast
  from loop_rest_of_line [OF s5(3,2) assms(9-11)] obtain s6 ns out6 where
    s6: "connection_loop mp v cfg s5 st = connection_loop mp v cfg s6 st" "at_turn s6 ?inner out6 None []"
    "set ns \<subseteq> {not_implemented}" and out6: "out6 = (out4 @ [go_ahead, ''552 Message size exceeded'']) @ ns" by blast
  have "\<forall>k\<in>set [m]. sendable v cfg k" using assms(6) by simp
  from loop_mails [OF s6(2) this assms(8), of mp st] obtain s7 where
    s7: "connection_loop mp v cfg s6 st = connection_loop mp v cfg s7 ?st"
    "at_turn s7 ?quit (out6 @ fst (submit_all mp [m] st)) None []" by blast
  from turn_quit_client [OF s7(2), of mp v cfg ?st] obtain s8 where
    s8: "session_turn mp v cfg s7 ?st = (Close (Inr ()), s8, ?st)"
    "at_turn s8 rest ((out6 @ fst (submit_all mp [m] st)) @ [''221 Bye'']) None []" by blast
  have "handle_connection mp v cfg r [] st = (Inr (), s8, ?st)"
    unfolding s1(1) loop_turn [OF s2(1)] loop_turn [OF s3(1)] s4(1) loop_turn [OF s5(1)] s6(1) s7(1)
    by (rule loop_close [OF s8(1)])
  moreover have "?st = snd (enqueue (mail_message mp m) st)" by (simp split: prod.split)
  moreover have "s_out s8 = map (\<lambda>x. x @ crlf) ((out6 @ fst (submit_all mp [m] st)) @ [''221 Bye''])"
    "stream_of (s_reader s8) = rest" using s8(2) by (simp_all add: at_turn_def)
  ultimately show ?thesis
    using s6(3) by (intro exI [of _ s8] exI [of _ ns]) (simp add: out6 out4 out2 del: submit_all.simps)
qed

text \<open>In the example the limit is 10 bytes and the mail's first line has 18.\<close>

definition ex_carrier :: mail where
  "ex_carrier = \<lparr>ml_from = ''r@z'', ml_to = [''a@x''], ml_lines = [] @ (''a very long line'' @ crlf) # as_lines ex_letter\<rparr>"

definition ex_carrier_reader :: buf_reader where
  "ex_carrier_reader = \<lparr>rd_buf = [], rd_events = [Chunk (client_bytes ''h'' [ex_carrier])]\<rparr>"

theorem oversized_block_smuggles_witness:
  "\<exists>s'. handle_connection ex_plain ex_valid ex_smtp_config ex_carrier_reader [] ex_store = (Inr (), s', ex_store1) \<and>
     queued ex_store1 1 = Some ex_message"
proof -
  let ?l = "''a very long line'' @ crlf"
  have r: "healthy ex_carrier_reader" "stream_of ex_carrier_reader = client_bytes ''h'' [ex_carrier] @ []"
    by (simp_all add: ex_carrier_reader_def healthy_def stream_of_def client_bytes_def wire_def)
  have l: "ml_lines ex_carrier = [] @ ?l # as_lines ex_letter" by (simp add: ex_carrier_def)
  have e: "sendable ex_valid ex_smtp_config (ex_carrier\<lparr>ml_lines := []\<rparr>)" 
    by (simp add: sendable_def ex_carrier_def mailbox_def ex_valid_def utf8_head_def)
  have "never_a_command (''a very long line'' @ crlf)" by code_simp
  moreover have "stuff ?l = ?l" by (simp add: stuff_def starts_with_def)
  ultimately have n: "never_a_command (stuff ?l)" "length (stuff ?l) \<le> MAX_COMMAND_LINE_BYTES"
    by (simp_all only:) (simp add: MAX_COMMAND_LINE_BYTES_def)
  have "max_message_size ex_smtp_config < length (concat ([] :: bytes list)) + length ?l"
    "max_message_size ex_smtp_config + 4 \<le> usize_max" "is_line ?l"
    by (simp_all add: ex_smtp_config_def usize_max_def is_line_def)
  from oversized_block_smuggles [OF r ex_client(3) l e ex_client(2) this n, of ex_plain ex_store] ex_client(1) ex_queued(1)
  show ?thesis by auto
qed

end
