(* ===== verification/Recovery.thy ===== *)
theory Recovery
  imports System Smtp_Client
begin

section \<open>Recovery\<close>

text \<open>
  What the composed system can always do: when the process is started again, on whatever
  tables it left, with a storage that works, a home server that takes its messages and the
  clock past every due time, the worker delivers the whole queue. The runs are made of turns
  of the worker (\<open>run_iter\<close>), one for every message.
\<close>

definition recovering ::
  "config \<Rightarrow> nat \<Rightarrow> ('s, 'user, 'room, 'client) mail_system \<Rightarrow> ('s, 'user, 'room, 'client) mail_system" where
  "recovering cfg late s =
     (let st = w_store (sy_worker s);
          t = restarted cfg st (w_sink (sy_worker s)) s
      in t\<lparr>sy_worker := (sy_worker t)\<lparr>w_store :=
           refresh [] (replicate (length (outbox (conn st))) (Some late)) (w_store (sy_worker t))\<rparr>\<rparr>)"

lemma recovering_steps: "(system_step mp v sdk j ids cfg)\<^sup>*\<^sup>* s (recovering cfg late s)"
proof -
  let ?t = "restarted cfg (w_store (sy_worker s)) (w_sink (sy_worker s)) s"
  have "system_step mp v sdk j ids cfg s ?t" by (rule system_step.die)
  moreover have "system_step mp v sdk j ids cfg ?t (recovering cfg late s)"
    unfolding recovering_def Let_def by (rule system_step.environment)
  ultimately show ?thesis by (rule converse_rtranclp_into_rtranclp [OF _ r_into_rtranclp])
qed

text \<open>One turn of a worker that is up: the earliest row goes and its message is sent.\<close>

lemma delivering_turn:
  fixes s :: "('s, 'user, 'room, 'client) mx_world worker_sys"
  assumes "store_inv (w_store s)" and "sql_faults (w_store s) = []" and "clock (w_store s) = Some late # clk"
    and "int late \<le> i64_max" and "outbox (conn (w_store s)) \<noteq> []"
    and "\<forall>r\<in>set (outbox (conn (w_store s))). next_attempt_at r \<le> int late"
    and "mx_client (w_sink s) = Some c" and "\<And>m k env. \<exists>u env'. send_message sdk j c m k env = (Inr u, env')"
  obtains r st snk where "run_iter (deliver sdk j) w sd (w_store s) (w_sink s) = (Claiming, st, snk)"
    "r \<in> set (outbox (conn (w_store s)))" "store_inv st" "sql_faults st = []" "clock st = clk"
    "conn st = (conn (w_store s))\<lparr>outbox := filter (\<lambda>r'. ob_id r' \<noteq> ob_id r) (outbox (conn (w_store s)))\<rparr>"
    "mx_client snk = Some c"
    "mx_log snk = mx_log (w_sink s) @ [(idempotency_key (ob_id r), sm_message (row_to_stored r))]"
proof -
  let ?st = "w_store s" and ?st1 = "(w_store s)\<lparr>clock := clk\<rparr>"
  have now: "unix_now ?st = (int late, ?st1)"
    using assms(3,4) by (simp add: unix_now_def is_i64_def i64_max_def)
  have 1: "store_inv ?st1" "sql_faults ?st1 = []" using assms(1,2) by simp_all
  from claim_no_fault [OF 1(2)] obtain a where a: "claim_next_ready (int late) ?st1 = (Inr a, ?st1)" by blast
  show thesis
  proof (cases a)
    case None
    with a have "\<forall>r\<in>set (outbox (conn ?st)). int late < next_attempt_at r"
      using claim_None(3) [of "int late" ?st1 ?st1] by auto
    with assms(5,6) show thesis by (metis list.set_intros(1) neq_Nil_conv not_less)
  next
    case (Some sm)
    with a have cl: "claim_next_ready (int late) ?st1 = (Inr (Some sm), ?st1)" by simp
    from claim_Some(3) [OF 1(1) cl] obtain r where
      r: "rows (conn ?st1) (sm_id sm) = Some r" "sm = row_to_stored r" by blast
    have id: "ob_id r = sm_id sm" "r \<in> set (outbox (conn ?st))" using rows_Some [OF r(1)] by simp_all
    obtain u env' where "send_message sdk j c (sm_message sm) (idempotency_key (sm_id sm)) (mx_env (w_sink s)) = (Inr u, env')"
      using assms(8) by blast
    then have "\<exists>snk. deliver sdk j (sm_message sm) (idempotency_key (sm_id sm)) (w_sink s) = (Inr (), snk) \<and>
        mx_client snk = Some c \<and> mx_log snk = mx_log (w_sink s) @ [(idempotency_key (sm_id sm), sm_message sm)]"
      by (simp add: deliver_def assms(7))
    then obtain snk where d: "deliver sdk j (sm_message sm) (idempotency_key (sm_id sm)) (w_sink s) = (Inr (), snk)"
      "mx_client snk = Some c" "mx_log snk = mx_log (w_sink s) @ [(idempotency_key (sm_id sm), sm_message sm)]" by blast
    let ?st2 = "snd (mark_delivered (sm_id sm) ?st1)"
    have "store_inv ?st2" using oq.ack_inv [OF 1(1)] by (metis surjective_pairing)
    moreover have "run_iter (deliver sdk j) w sd ?st (w_sink s) = (Claiming, ?st2, snk)"
      using now cl d by (simp add: run_iter_def deliver_one_def)
    ultimately show thesis
      using id d(2,3) 1(2) r(2) by (intro that [of ?st2 snk r]) (simp_all add: mark_delivered_no_fault)
  qed
qed

lemma insert_rest: "x \<in> A \<Longrightarrow> (\<And>y. y \<in> A \<Longrightarrow> f y = f x \<Longrightarrow> y = x) \<Longrightarrow> insert x {y \<in> A. f y \<noteq> f x} = A"
  by blast

text \<open>As many turns as there are messages empty the queue.\<close>

lemma delivering_run:
  fixes s :: "('s, 'user, 'room, 'client) mx_world worker_sys"
  assumes "w_phase s = Claiming" and "store_inv (w_store s)" and "sql_faults (w_store s) = []"
    and "clock (w_store s) = replicate n (Some late)" and "length (outbox (conn (w_store s))) \<le> n"
    and "int late \<le> i64_max" and "\<forall>r\<in>set (outbox (conn (w_store s))). next_attempt_at r \<le> int late"
    and "mx_client (w_sink s) = Some c" and "\<And>m k env. \<exists>u env'. send_message sdk j c m k env = (Inr u, env')"
  shows "\<exists>t. (task_step (connect_closure sdk ids cfg) (deliver sdk j) (worker_of cfg))\<^sup>*\<^sup>* s t \<and>
    outbox (conn (w_store t)) = [] \<and> dead_letters (conn (w_store t)) = dead_letters (conn (w_store s)) \<and>
    set (mx_log (w_sink t)) = set (mx_log (w_sink s)) \<union>
      (\<lambda>r. (idempotency_key (ob_id r), sm_message (row_to_stored r))) ` set (outbox (conn (w_store s)))"
  using assms(1-5,7,8)
proof (induction n arbitrary: s)
  case 0
  then show ?case by (intro exI [of _ s]) simp
next
  case (Suc n)
  show ?case
  proof (cases "outbox (conn (w_store s)) = []")
    case True
    then show ?thesis by (intro exI [of _ s]) simp
  next
    case False
    have clk: "clock (w_store s) = Some late # replicate n (Some late)" using Suc.prems(4) by simp
    from delivering_turn [OF Suc.prems(2,3) clk assms(6) False Suc.prems(6,7) assms(9), of "worker_of cfg" "w_shutdown s"]
    obtain r st snk where t: "run_iter (deliver sdk j) (worker_of cfg) (w_shutdown s) (w_store s) (w_sink s) = (Claiming, st, snk)"
      "r \<in> set (outbox (conn (w_store s)))" "store_inv st" "sql_faults st = []" "clock st = replicate n (Some late)"
      "conn st = (conn (w_store s))\<lparr>outbox := filter (\<lambda>r'. ob_id r' \<noteq> ob_id r) (outbox (conn (w_store s)))\<rparr>"
      "mx_client snk = Some c"
      "mx_log snk = mx_log (w_sink s) @ [(idempotency_key (ob_id r), sm_message (row_to_stored r))]" by blast
    let ?s = "s\<lparr>w_phase := Claiming, w_store := st, w_sink := snk\<rparr>"
    have run: "(task_step (connect_closure sdk ids cfg) (deliver sdk j) (worker_of cfg))\<^sup>*\<^sup>* s ?s"
      by (rule matrix.run_iter_steps [OF Suc.prems(1) t(1)])
    have "length (outbox (conn st)) < length (outbox (conn (w_store s)))"
      unfolding t(6) using length_filter_less [OF t(2)] by simp
    with Suc.prems t obtain u where u: "(task_step (connect_closure sdk ids cfg) (deliver sdk j) (worker_of cfg))\<^sup>*\<^sup>* ?s u"
      "outbox (conn (w_store u)) = []" "dead_letters (conn (w_store u)) = dead_letters (conn st)"
      "set (mx_log (w_sink u)) = set (mx_log snk) \<union>
        (\<lambda>r. (idempotency_key (ob_id r), sm_message (row_to_stored r))) ` set (outbox (conn st))"
      using Suc.IH [of ?s] by auto
    have same: "r' = r" if "r' \<in> set (outbox (conn (w_store s)))" "ob_id r' = ob_id r" for r'
      using rows_member [OF Suc.prems(2) that(1)] rows_member [OF Suc.prems(2) t(2)] that(2) by (metis option.inject)
    have "set (outbox (conn st)) = {r' \<in> set (outbox (conn (w_store s))). ob_id r' \<noteq> ob_id r}" by (simp add: t(6))
    then have rest: "set (outbox (conn (w_store s))) = insert r (set (outbox (conn st)))"
      using insert_rest [OF t(2), of ob_id] same by simp
    have "set (mx_log (w_sink u)) = set (mx_log (w_sink s)) \<union>
        (\<lambda>r. (idempotency_key (ob_id r), sm_message (row_to_stored r))) ` set (outbox (conn (w_store s)))"
      unfolding u(4) t(8) rest by simp
    moreover have "dead_letters (conn (w_store u)) = dead_letters (conn (w_store s))" unfolding u(3) t(6) by simp
    moreover note rtranclp_trans [OF run u(1)] u(2)
    ultimately show ?thesis by blast
  qed
qed

text \<open>The worker that is started again connects and empties the queue.\<close>

lemma recovery_run:
  fixes s :: "('s, 'user, 'room, 'client) mail_system"
  assumes "reach (system_init cfg) (system_step mp v sdk j ids cfg) s"
    and "\<And>env. \<exists>c env'. Matrix_Client.connect sdk ids cfg env = (Inr c, env')"
    and "\<And>c m k env. as_configured ids cfg c \<Longrightarrow> \<exists>u env'. send_message sdk j c m k env = (Inr u, env')"
    and "\<And>r. r \<in> set (outbox (conn (w_store (sy_worker s)))) \<Longrightarrow> next_attempt_at r \<le> int late" and "int late \<le> i64_max"
  shows "(system_step mp v sdk j ids cfg)\<^sup>*\<^sup>* s (recovering cfg late s) \<and>
    (\<exists>w. (task_step (connect_closure sdk ids cfg) (deliver sdk j) (worker_of cfg))\<^sup>*\<^sup>* (sy_worker (recovering cfg late s)) w \<and>
      (system_step mp v sdk j ids cfg)\<^sup>*\<^sup>* (recovering cfg late s) ((recovering cfg late s)\<lparr>sy_worker := w\<rparr>) \<and>
      outbox (conn (w_store w)) = [] \<and> dead_letters (conn (w_store w)) = dead_letters (conn (w_store (sy_worker s))) \<and>
      (\<forall>i m. queued (w_store (sy_worker s)) i = Some m \<longrightarrow> (idempotency_key i, m) \<in> set (mx_log (w_sink w))))"
proof -
  let ?r = "recovering cfg late s" and ?step = "task_step (connect_closure sdk ids cfg) (deliver sdk j) (worker_of cfg)"
  let ?w = "sy_worker ?r"
  have inv: "store_inv (w_store (sy_worker s))" by (rule system_store_inv [OF system.reach_inv [OF assms(1)]])
  have r: "w_phase ?w = Connecting" "\<not> w_shutdown ?w" "conn (w_store ?w) = conn (w_store (sy_worker s))"
    "sql_faults (w_store ?w) = []" "clock (w_store ?w) = replicate (length (outbox (conn (w_store (sy_worker s))))) (Some late)"
    "sy_missed ?r = {}"
    by (simp_all add: recovering_def restarted_def refresh_def reboot_def Let_def)
  obtain c env' where c: "Matrix_Client.connect sdk ids cfg (mx_env (w_sink ?w)) = (Inr c, env')" using assms(2) by blast
  then have good: "as_configured ids cfg c"
    using connected_client [of sdk ids cfg "mx_env (w_sink ?w)" c env'] by (simp add: as_configured_def)
  let ?snk = "(w_sink ?w)\<lparr>mx_env := env', mx_client := Some c, mx_connected := True\<rparr>"
  let ?w1 = "?w\<lparr>w_phase := Claiming, w_sink := ?snk\<rparr>"
  have 1: "?step ?w ?w1"
    by (rule task_step.connect) (use r(1,2) c in \<open>simp_all add: reconnect_iter_def connect_closure_def\<close>)
  obtain t where t: "?step\<^sup>*\<^sup>* ?w1 t" "outbox (conn (w_store t)) = []"
    "dead_letters (conn (w_store t)) = dead_letters (conn (w_store (sy_worker s)))"
    "set (mx_log (w_sink t)) = set (mx_log ?snk) \<union>
      (\<lambda>r. (idempotency_key (ob_id r), sm_message (row_to_stored r))) ` set (outbox (conn (w_store (sy_worker s))))"
    using delivering_run [of ?w1 "length (outbox (conn (w_store (sy_worker s))))" late c sdk j ids cfg]
      inv r assms(3) [OF good] assms(4,5) by auto
  have steps: "?step\<^sup>*\<^sup>* ?w t" using 1 t(1) by (rule converse_rtranclp_into_rtranclp)
  have "(idempotency_key i, m) \<in> set (mx_log (w_sink t))" if "queued (w_store (sy_worker s)) i = Some m" for i m
    using that unfolding t(4) by (auto simp: queued_def dest: rows_Some)
  with steps t(2,3) recovering_steps work_run [OF steps r(6)] show ?thesis by blast
qed

text \<open>
  C7. The system recovers: from every reachable state, whatever failures and crashes led to it,
  a restart after which the storage works, the home server takes its messages and the clock is
  past every due time leads by steps of the worker alone to an empty queue, and every message
  that was queued has been sent under its own transaction id; none became a dead letter.
\<close>

theorem restart_delivers_everything:
  fixes s :: "('s, 'user, 'room, 'client) mail_system"
  assumes "reach (system_init cfg) (system_step mp v sdk j ids cfg) s"
    and "\<And>env. \<exists>c env'. Matrix_Client.connect sdk ids cfg env = (Inr c, env')"
    and "\<And>c m k env. as_configured ids cfg c \<Longrightarrow> \<exists>u env'. send_message sdk j c m k env = (Inr u, env')"
    and "\<And>r. r \<in> set (outbox (conn (w_store (sy_worker s)))) \<Longrightarrow> next_attempt_at r \<le> int late" and "int late \<le> i64_max"
  shows "(system_step mp v sdk j ids cfg)\<^sup>*\<^sup>* s (recovering cfg late s) \<and>
    (\<exists>w. (task_step (connect_closure sdk ids cfg) (deliver sdk j) (worker_of cfg))\<^sup>*\<^sup>* (sy_worker (recovering cfg late s)) w \<and>
      (system_step mp v sdk j ids cfg)\<^sup>*\<^sup>* (recovering cfg late s) ((recovering cfg late s)\<lparr>sy_worker := w\<rparr>) \<and>
      outbox (conn (w_store w)) = [] \<and> dead_letters (conn (w_store w)) = dead_letters (conn (w_store (sy_worker s))) \<and>
      (\<forall>i m. queued (w_store (sy_worker s)) i = Some m \<longrightarrow> (idempotency_key i, m) \<in> set (mx_log (w_sink w))))"
  by (rule recovery_run [OF assms])

lemma ex_open_delivers:
  assumes "as_configured ex_ids ex_mail_config c"
  shows "\<exists>u env'. send_message ex_open_sdk ex_minijinja c m k env = (Inr u, env')"
proof -
  have "mc_message_template c = ''t''"
    using assms by (simp add: as_configured_def ex_mail_config_def ex_login_matrix ex_matrix_config_def)
  then have "format_message ex_minijinja m (mc_message_template c) = Inr (msg_body m)"
    by (simp add: format_message_def ex_minijinja_def message_context_def)
  then show ?thesis
    by (simp add: send_message_def open_room_def known_encryption_state_def ex_open_sdk_def ex_sdk_def map_err_def and_then_def)
qed

theorem restart_delivers_everything_witness:
  "\<exists>w. ex_step\<^sup>*\<^sup>* (recovering ex_mail_config 7 (ex_system ex_store1 Claiming [] (Some ex_client) []))
       ((recovering ex_mail_config 7 (ex_system ex_store1 Claiming [] (Some ex_client) []))\<lparr>sy_worker := w\<rparr>) \<and>
     outbox (conn (w_store w)) = [] \<and> (idempotency_key 1, ex_message) \<in> set (mx_log (w_sink w))"
proof -
  have c: "\<exists>c env'. Matrix_Client.connect ex_open_sdk ex_ids ex_mail_config env = (Inr c, env')" for env
    using ex_mail_connect by (simp add: ex_open_sdk_def)
  have d: "next_attempt_at r \<le> int 7"
    if "r \<in> set (outbox (conn (w_store (sy_worker (ex_system ex_store1 Claiming [] (Some ex_client) [])))))" for r
    using that by (auto simp: ex_world_def ex_store1_def ex_row_def)
  have q: "queued (w_store (sy_worker (ex_system ex_store1 Claiming [] (Some ex_client) []))) 1 = Some ex_message"
    using ex_queued(1) by (simp add: ex_world_def)
  from restart_delivers_everything [OF ex_connected_reached c ex_open_delivers d] q show ?thesis
    by (auto simp: i64_max_def)
qed

subsection \<open>From the client to the room\<close>

text \<open>A connection the system serves whole leaves it at the store the session leaves.\<close>

lemma connection_served:
  fixes s :: "('s, 'user, 'room, 'client) mail_system"
  assumes "reach (system_init cfg) (system_step mp v sdk j ids cfg) s"
    and "0 < sy_permits s" and "\<not> w_shutdown (sy_worker s)"
    and "handle_connection mp v (cfg_smtp cfg) r [] (w_store (sy_worker s)) = (res, s', st)"
  shows "\<exists>t. (system_step mp v sdk j ids cfg)\<^sup>*\<^sup>* s t \<and> w_store (sy_worker t) = st"
proof -
  have f: "sv_permits (front s) = sy_permits s" "sv_store (front s) = w_store (sy_worker s)" by simp_all
  have inv: "server_inv v (cfg_smtp cfg) (front s)" using system.reach_inv [OF assms(1)] by (simp add: system_inv_def)
  have "(server_step mp v (cfg_smtp cfg))\<^sup>*\<^sup>* (front s) ((front s)\<lparr>sv_store := st\<rparr>)"
    by (rule handle_connection_run) (use assms(2,4) f in simp_all)
  from serve_run [OF this refl assms(3) inv, of sdk j ids]
  obtain t where t: "(system_step mp v sdk j ids cfg)\<^sup>*\<^sup>* s t" "front t = (front s)\<lparr>sv_store := st\<rparr>" by blast
  have "sv_store (front t) = st" by (simp only: t(2)) simp
  with t(1) show ?thesis by auto
qed

lemma enqueued_due:
  assumes "store_inv st" and "wf_message m" and "enqueue m st = (Inr i, st')"
    and "\<And>r. r \<in> set (outbox (conn st)) \<Longrightarrow> next_attempt_at r \<le> int late" and "r \<in> set (outbox (conn st'))"
  shows "next_attempt_at r \<le> int late"
proof -
  obtain r0 where r0: "rows (conn st') = (rows (conn st))(i \<mapsto> r0)" "next_attempt_at r0 = 0"
    using enqueue_ok(7) [OF assms(1-3)] by blast
  have "rows (conn st') (ob_id r) = Some r" by (rule rows_member [OF enqueue_inv [OF assms(1,3)] assms(5)])
  then have "r = r0 \<or> rows (conn st) (ob_id r) = Some r" using r0(1) by (auto split: if_splits)
  with r0(2) assms(4) show ?thesis by (auto dest: rows_Some)
qed

lemma sendable_addressed:
  assumes "sendable v cfg m" shows "addressed v (mail_message mp m)"
proof -
  have "list_all (good_address v) (ml_to m)" "ml_from m = [] \<or> good_address v (ml_from m)"
    using assms by (auto simp: sendable_def mailbox_def good_address_def list_all_iff)
  then show ?thesis using assms by (auto simp: addressed_def mail_message_def sendable_def)
qed

text \<open>
  C8. End to end. From every reachable state, a client that sends one mail while a permit is free
  is answered 250 when the queue has room, and from the state this leads to, even if the
  process dies at once, a restart (with a storage that works, a home server that takes
  messages and the clock past every due time) leads to a state in which the home server was
  sent the message the client's lines parse to, under the transaction id of its row.
\<close>

theorem mail_reaches_the_room:
  fixes s :: "('s, 'user, 'room, 'client) mail_system"
  assumes "reach (system_init cfg) (system_step mp v sdk j ids cfg) s"
    and "0 < sy_permits s" and "\<not> w_shutdown (sy_worker s)"
    and "healthy r" and "stream_of r = client_bytes host [m]" and "command_text (''EHLO '' @ host)"
    and "sendable v (cfg_smtp cfg) m" and "max_message_size (cfg_smtp cfg) + 4 \<le> usize_max"
    and "enqueue (mail_message mp m) (w_store (sy_worker s)) = (Inr i, st)"
    and "\<And>env. \<exists>c env'. Matrix_Client.connect sdk ids cfg env = (Inr c, env')"
    and "\<And>c m k env. as_configured ids cfg c \<Longrightarrow> \<exists>u env'. send_message sdk j c m k env = (Inr u, env')"
    and "\<And>r. r \<in> set (outbox (conn (w_store (sy_worker s)))) \<Longrightarrow> next_attempt_at r \<le> int late" and "int late \<le> i64_max"
  shows "\<exists>s' t w. handle_connection mp v (cfg_smtp cfg) r [] (w_store (sy_worker s)) = (Inr (), s', st) \<and>
    drop (length (s_out s') - 3) (s_out s') = [go_ahead @ crlf, ok_reply @ crlf, ''221 Bye'' @ crlf] \<and>
    (system_step mp v sdk j ids cfg)\<^sup>*\<^sup>* s t \<and> w_store (sy_worker t) = st \<and>
    (system_step mp v sdk j ids cfg)\<^sup>*\<^sup>* (recovering cfg late t) ((recovering cfg late t)\<lparr>sy_worker := w\<rparr>) \<and>
    (idempotency_key i, mail_message mp m) \<in> set (mx_log (w_sink w))"
proof -
  let ?st = "w_store (sy_worker s)"
  have inv: "store_inv ?st" by (rule system_store_inv [OF system.reach_inv [OF assms(1)]])
  have wf: "wf_message (mail_message mp m)" by (rule addressed_wf [OF sendable_addressed [OF assms(7)]])
  have sub: "submit_all mp [m] ?st = ([ok_reply] @ map (\<lambda>_. ok_reply) (ml_to m) @ [go_ahead, ok_reply], st)"
    using assms(9) by simp
  obtain s' where s': "handle_connection mp v (cfg_smtp cfg) r [] ?st = (Inr (), s', st)"
    "drop (length (s_out s') - 3) (s_out s') = [go_ahead @ crlf, ok_reply @ crlf, ''221 Bye'' @ crlf]"
    using client_dialogue [of r host "[m]" "[]" v "cfg_smtp cfg" mp ?st] assms(4-8) sub by auto
  from connection_served [OF assms(1-3) s'(1)] obtain t
    where t: "(system_step mp v sdk j ids cfg)\<^sup>*\<^sup>* s t" "w_store (sy_worker t) = st" by blast
  have due: "\<And>r. r \<in> set (outbox (conn (w_store (sy_worker t)))) \<Longrightarrow> next_attempt_at r \<le> int late"
    unfolding t(2) by (rule enqueued_due [OF inv wf assms(9,12)])
  have "queued (w_store (sy_worker t)) i = Some (mail_message mp m)"
    using enqueue_ok(1) [OF inv wf assms(9)] t(2) by simp
  with recovery_run [OF reach_rtranclp [OF t(1) assms(1)] assms(10,11) due assms(13)] s' t show ?thesis by blast
qed

theorem mail_reaches_the_room_witness:
  "\<exists>t w. ex_step\<^sup>*\<^sup>* (ex_system ex_store Connecting [] None []) t \<and> w_store (sy_worker t) = ex_store1 \<and>
     ex_step\<^sup>*\<^sup>* (recovering ex_mail_config 7 t) ((recovering ex_mail_config 7 t)\<lparr>sy_worker := w\<rparr>) \<and>
     (idempotency_key 1, ex_message) \<in> set (mx_log (w_sink w))"
proof -
  let ?s = "ex_system ex_store Connecting [] None []"
  have cfg: "cfg_smtp ex_mail_config = ex_smtp_config" by (simp add: ex_mail_config_def)
  have s: "0 < sy_permits ?s" "\<not> w_shutdown (sy_worker ?s)" "w_store (sy_worker ?s) = ex_store" by (simp_all add: ex_world_def)
  have c: "\<exists>c env'. Matrix_Client.connect ex_open_sdk ex_ids ex_mail_config env = (Inr c, env')" for env
    using ex_mail_connect by (simp add: ex_open_sdk_def)
  have m: "stream_of ex_client_reader = client_bytes ''h'' [ex_letter]" "sendable ex_valid (cfg_smtp ex_mail_config) ex_letter"
    "max_message_size (cfg_smtp ex_mail_config) + 4 \<le> usize_max"
    "enqueue (mail_message ex_plain ex_letter) (w_store (sy_worker ?s)) = (Inr 1, ex_store1)"
    using ex_client(1,2,5) by (simp_all add: cfg s(3)) (simp add: ex_smtp_config_def usize_max_def)
  have d: "next_attempt_at r \<le> int 7" if "r \<in> set (outbox (conn (w_store (sy_worker ?s))))" for r
    using that unfolding s(3) by (simp add: ex_store_def empty_database_def)
  from mail_reaches_the_room [OF ex_start_reached s(1,2) ex_client(4) m(1) ex_client(3) m(2-4) c ex_open_delivers d] ex_client(1)
  show ?thesis by (fastforce simp: i64_max_def)
qed

end
