(* ===== verification/Conformance_Mail.thy ===== *)
theory Conformance_Mail
  imports Mime Formatter Settings
begin

section \<open>The unit tests of the MIME walk and the templates, run on the model\<close>

text \<open>
  The tests at the end of \<^verbatim>\<open>src/smtp/mime.rs\<close> and \<^verbatim>\<open>src/matrix/formatter.rs\<close>. They go through the
  crates \<open>mailparse\<close> and \<open>minijinja\<close>, which are parameters of the model. Here the parameters are
  instantiated by two small fixtures that follow the formats as far as the inputs of the tests
  use them: MIME entities with unfolded header fields in their usual spelling, boundaries, quoted-printable, base64 and
  encoded words in UTF-8 (RFC 2045, 2046, 2047), and templates with expressions, \<open>if\<close>, \<open>else\<close> and
  white-space control. They are not models of the crates, and no theorem outside this theory
  uses them.
\<close>

subsection \<open>A template engine\<close>

text \<open>A piece of a template: text, an expression, or the words of a tag.\<close>

datatype piece = Text string | Var string | Tag "string list"

fun cut :: "string \<Rightarrow> string \<Rightarrow> (string \<times> string) option" where
  "cut pat [] = None"
| "cut pat (c # s) =
     (if starts_with (c # s) pat then Some ([], drop (length pat) (c # s))
      else map_option (\<lambda>(a, b). (c # a, b)) (cut pat s))"

fun to_brace :: "string \<Rightarrow> string \<times> (bool \<times> string) option" where
  "to_brace [] = ([], None)"
| "to_brace (c # s) =
     (if c = CHR ''{'' \<and> s \<noteq> [] \<and> hd s \<in> {CHR ''{'', CHR ''%''} then ([], Some (hd s = CHR ''{'', tl s))
      else case to_brace s of (a, r) \<Rightarrow> (c # a, r))"

fun pieces :: "nat \<Rightarrow> string \<Rightarrow> string + piece list" where
  "pieces 0 s = Inl ''too long''"
| "pieces (Suc n) s =
     (case to_brace s of
        (t, None) \<Rightarrow> Inr [Text t]
      | (t, Some (var, r)) \<Rightarrow>
          (case cut (if var then ''}}'' else ''%}'') r of
             None \<Rightarrow> Inl ''syntax error: unexpected end of input''
           | Some (inner, r') \<Rightarrow>
               (case pieces n r' of
                  Inl e \<Rightarrow> Inl e
                | Inr ps \<Rightarrow>
                    let dash = starts_with inner ''-'';
                        ws = split_whitespace (if dash then tl inner else inner)
                    in Inr (Text (if dash then trim_end t else t) # (if var then Var (concat ws) else Tag ws) # ps))))"

fun clauses :: "string list \<Rightarrow> string list \<Rightarrow> string list list" where
  "clauses cur [] = [cur]"
| "clauses cur (w # ws) = (if w = ''and'' then cur # clauses [] ws else clauses (cur @ [w]) ws)"

definition field :: "template_context \<Rightarrow> string \<Rightarrow> string" where
  "field c n =
     (if n = ''from'' then ctx_from c else if n = ''to'' then ctx_to c
      else if n = ''subject'' then ctx_subject c else if n = ''body'' then ctx_body c else [])"

definition holds_clause :: "template_context \<Rightarrow> string list \<Rightarrow> bool" where
  "holds_clause c ws =
     (case ws of
        [] \<Rightarrow> False
      | n # r \<Rightarrow> if r = [''|'', ''trim''] then trim (field c n) \<noteq> []
                 else if r = [''is'', ''string''] then True
                 else field c n \<noteq> [])"

text \<open>The stack holds, for each open \<open>if\<close>, whether its current branch is taken.\<close>

fun emit :: "template_context \<Rightarrow> bool list \<Rightarrow> piece list \<Rightarrow> string" where
  "emit c st [] = []"
| "emit c st (Text t # ps) = (if list_all id st then t else []) @ emit c st ps"
| "emit c st (Var n # ps) = (if list_all id st then field c n else []) @ emit c st ps"
| "emit c st (Tag ws # ps) =
     (if ws = [''else''] then emit c ((\<not> hd st) # tl st) ps
      else if ws = [''endif''] then emit c (tl st) ps
      else emit c (list_all (holds_clause c) (clauses [] (tl ws)) # st) ps)"

definition test_engine :: "(piece list, piece list) minijinja" where
  "test_engine = \<lparr>add_template = (\<lambda>t. pieces 30 t), get_template = Inr, render = (\<lambda>t c. Inr (emit c [] t))\<rparr>"

subsection \<open>Templates\<close>

definition default_template_formats_full_message :: bool where
  "default_template_formats_full_message \<longleftrightarrow>
     (case format_message test_engine
         \<lparr>msg_from = Some ''alice@example.com'', msg_to = [''bob@example.com''], msg_subject = Some ''Hello'',
          msg_body = ''Hi Bob!''\<rparr> default_message_template of
        Inl _ \<Rightarrow> False
      | Inr result \<Rightarrow> contains result ''From: alice@example.com'' \<and> contains result ''To: bob@example.com'' \<and>
          contains result ''Subject: Hello'' \<and> contains result ''Hi Bob!'')"

definition default_template_formats_missing_fields :: bool where
  "default_template_formats_missing_fields \<longleftrightarrow>
     (case format_message test_engine
         \<lparr>msg_from = None, msg_to = [], msg_subject = None, msg_body = []\<rparr> default_message_template of
        Inl _ \<Rightarrow> False
      | Inr result \<Rightarrow> contains result ''Subject: (none)'' \<and> contains result ''(empty message body)'' \<and>
          \<not> contains result ''From:'')"

definition custom_template_works :: bool where
  "custom_template_works \<longleftrightarrow>
     format_message test_engine
       \<lparr>msg_from = Some ''sender@test.com'', msg_to = [''rcpt@test.com''], msg_subject = Some ''Alert'',
        msg_body = ''Server is down''\<rparr> ''[{{ subject }}] {{ body }}'' = Inr ''[Alert] Server is down''"

definition invalid_template_returns_error :: bool where
  "invalid_template_returns_error \<longleftrightarrow>
     (case format_message test_engine
         \<lparr>msg_from = None, msg_to = [], msg_subject = None, msg_body = ''test''\<rparr> ''{{ unclosed'' of
        Inl e \<Rightarrow> contains (error_to_string e) ''Template error''
      | Inr _ \<Rightarrow> False)"

definition template_with_multiple_recipients :: bool where
  "template_with_multiple_recipients \<longleftrightarrow>
     format_message test_engine
       \<lparr>msg_from = None, msg_to = [''a@example.com'', ''b@example.com''], msg_subject = None, msg_body = ''test''\<rparr>
       ''To: {{ to }}'' = Inr ''To: a@example.com, b@example.com''"

lemma template_tests_pass:
  default_template_formats_full_message
  default_template_formats_missing_fields
  custom_template_works
  invalid_template_returns_error
  template_with_multiple_recipients
  by code_simp+

subsection \<open>A MIME reader\<close>

text \<open>The last bits of a number, and the digits of the two encodings as numbers.\<close>

fun low_bits :: "nat \<Rightarrow> int \<Rightarrow> bool list \<Rightarrow> bool list" where
  "low_bits 0 n acc = acc"
| "low_bits (Suc k) n acc = low_bits k (n div 2) (odd n # acc)"

definition base64_value :: "int \<Rightarrow> bool list" where
  "base64_value n =
     (if 65 \<le> n \<and> n \<le> 90 then low_bits 6 (n - 65) [] else if 97 \<le> n \<and> n \<le> 122 then low_bits 6 (n - 71) []
      else if 48 \<le> n \<and> n \<le> 57 then low_bits 6 (n + 4) [] else if n = 43 then low_bits 6 62 []
      else if n = 47 then low_bits 6 63 [] else [])"

definition hex_value :: "int \<Rightarrow> bool list" where
  "hex_value n =
     (if 48 \<le> n \<and> n \<le> 57 then low_bits 4 (n - 48) [] else if 65 \<le> n \<and> n \<le> 70 then low_bits 4 (n - 55) [] else [])"

fun octets :: "bool list \<Rightarrow> bytes" where
  "octets (b7 # b6 # b5 # b4 # b3 # b2 # b1 # b0 # bs) = Char b0 b1 b2 b3 b4 b5 b6 b7 # octets bs"
| "octets _ = []"

definition base64_digit :: "char \<Rightarrow> bool list" where
  "base64_digit c = base64_value (of_char c)"

definition base64 :: "bytes \<Rightarrow> bytes" where
  "base64 s = octets (concat (map base64_digit s))"

fun quoted_printable :: "bytes \<Rightarrow> bytes" where
  "quoted_printable (c # a # b # s) =
     (if c \<noteq> CHR ''='' then c # quoted_printable (a # b # s)
      else if a = CR \<and> b = LF then quoted_printable s
      else octets (hex_value (of_char a) @ hex_value (of_char b)) @ quoted_printable s)"
| "quoted_printable s = s"

definition encoded_word :: "string \<Rightarrow> string" where
  "encoded_word v = (case strip_prefix ''=?utf-8?B?'' v of Some w \<Rightarrow> base64 w | None \<Rightarrow> v)"

fun split_on :: "char \<Rightarrow> string \<Rightarrow> string \<Rightarrow> string list" where
  "split_on d cur [] = [cur]"
| "split_on d cur (c # s) = (if c = d then cur # split_on d [] s else split_on d (cur @ [c]) s)"

text \<open>A field value with parameters, and the fields of a header.\<close>

definition name_value :: "char \<Rightarrow> string \<Rightarrow> string \<times> string" where
  "name_value sep x = (takeWhile (\<lambda>c. c \<noteq> sep) x, filter (\<lambda>c. c \<noteq> CHR 0x22) (trim (drop 1 (dropWhile (\<lambda>c. c \<noteq> sep) x))))"

fun parameters :: "string list \<Rightarrow> string \<times> (string \<times> string) list" where
  "parameters [] = ([], [])"
| "parameters (x # xs) = (trim x, map (name_value (CHR ''='')) (map trim xs))"

definition fields :: "string list \<Rightarrow> (string \<times> string) list" where
  "fields ls = map (name_value (CHR '':'')) ls"

fun sections :: "string \<Rightarrow> string list option \<Rightarrow> string list \<Rightarrow> string list list" where
  "sections d cur [] = (case cur of None \<Rightarrow> [] | Some p \<Rightarrow> [p])"
| "sections d cur (l # ls) =
     (if l = d @ ''--'' then sections d cur []
      else if l = d then sections d cur [] @ sections d (Some []) ls
      else sections d (map_option (\<lambda>p. p @ [l]) cur) ls)"

type_synonym content = "(string \<times> string) list \<times> string list"

definition parameters_of :: "(string \<times> string) list \<Rightarrow> string \<Rightarrow> string \<Rightarrow> string \<times> (string \<times> string) list" where
  "parameters_of hs n d = parameters (split_on (CHR '';'') [] (case map_of hs n of Some v \<Rightarrow> v | None \<Rightarrow> d))"

fun parts_of :: "(string list \<Rightarrow> content parsed_mail) \<Rightarrow> string option \<Rightarrow> string list \<Rightarrow> content parsed_mail list" where
  "parts_of f None body = []"
| "parts_of f (Some b) body = map f (sections (''--'' @ b) None body)"

fun node :: "(string list \<Rightarrow> content parsed_mail) \<Rightarrow> content \<Rightarrow> string \<times> (string \<times> string) list \<Rightarrow> content parsed_mail" where
  "node f (hs, body) (mt, ps) = ParsedMail mt (map_of ps) (hs, body) (parts_of f (map_of ps ''boundary'') body)"

fun entity_of :: "(string list \<Rightarrow> content parsed_mail) \<Rightarrow> content \<Rightarrow> content parsed_mail" where
  "entity_of f (hs, body) = node f (hs, body) (parameters_of hs ''Content-Type'' ''text/plain'')"

definition content_of :: "string list \<Rightarrow> content" where
  "content_of ls = (fields (takeWhile (\<lambda>l. l \<noteq> []) ls), drop 1 (dropWhile (\<lambda>l. l \<noteq> []) ls))"

text \<open>Entities nest at most as deep as the first argument.\<close>

fun entity :: "nat \<Rightarrow> string list \<Rightarrow> content parsed_mail" where
  "entity 0 ls = entity_of (\<lambda>_. ParsedMail [] Map.empty ([], []) []) (content_of ls)"
| "entity (Suc n) ls = entity_of (entity n) (content_of ls)"

definition read_mail :: "bytes \<Rightarrow> content parsed_mail option" where
  "read_mail d = Some (entity 2 (lines d))"

fun decode :: "string option \<Rightarrow> bytes \<Rightarrow> bytes" where
  "decode None raw = raw"
| "decode (Some e) raw =
     (if e = ''quoted-printable'' then quoted_printable raw else if e = ''base64'' then base64 raw else raw)"

definition decoded_body :: "content parsed_mail \<Rightarrow> string option" where
  "decoded_body mail =
     Some (decode (map_of (fst (payload mail)) ''Content-Transfer-Encoding'')
       (concat (map (\<lambda>l. l @ crlf) (snd (payload mail)))))"

fun disposition_from :: "string \<times> (string \<times> string) list \<Rightarrow> content_disposition" where
  "disposition_from (t, ps) = \<lparr>disposition = (if t = ''attachment'' then Attachment else Inline), disp_params = map_of ps\<rparr>"

definition read_disposition :: "content parsed_mail \<Rightarrow> content_disposition" where
  "read_disposition mail = disposition_from (parameters_of (fst (payload mail)) ''Content-Disposition'' ''inline'')"

definition first_value :: "content parsed_mail \<Rightarrow> string \<Rightarrow> string option" where
  "first_value mail n = map_option encoded_word (map_of (fst (payload mail)) n)"

definition test_mailparse :: "content mailparse" where
  "test_mailparse = \<lparr>parse_mail = read_mail, get_body = decoded_body, get_content_disposition = read_disposition,
     get_first_value = first_value\<rparr>"

subsection \<open>Messages\<close>

text \<open>The input of a test, line by line, and what the walk makes of it.\<close>

definition mail_of :: "string list \<Rightarrow> string" where
  "mail_of ls = concat (map (\<lambda>l. l @ crlf) ls)"

definition body_of :: "string list \<Rightarrow> string option" where
  "body_of ls = map_option mime_body (parse test_mailparse (mail_of ls))"

text \<open>The lines of a message that is made of lines, so that evaluation starts from them.\<close>

definition plain_line :: "string \<Rightarrow> bool" where
  "plain_line l \<longleftrightarrow> LF \<notin> set l \<and> CR \<notin> set l"

lemma lines_from_line: "LF \<notin> set l \<Longrightarrow> lines_from cur (l @ LF # s) = strip_cr (cur @ l) # lines_from [] s"
  by (induction l arbitrary: cur) auto

lemma lines_mail_of: "list_all plain_line ls \<Longrightarrow> lines (mail_of ls) = ls"
proof (induction ls)
  case (Cons l ls)
  then have "lines_from [] (mail_of (l # ls)) = strip_cr (l @ [CR]) # lines_from [] (mail_of ls)"
    using lines_from_line [of "l @ [CR]" "[]" "mail_of ls"] by (simp add: mail_of_def plain_line_def)
  with Cons show ?case by (simp add: lines_def strip_cr_def)
qed (simp add: lines_def mail_of_def)

lemma parse_tree:
  fixes mp :: "'p mailparse"
  assumes "parse_mail mp d = Some mail"
  shows "parse mp d = parse (mp\<lparr>parse_mail := \<lambda>_. Some mail\<rparr>) []"
proof -
  let ?mp = "mp\<lparr>parse_mail := \<lambda>_. Some mail\<rparr>"
  have e: "is_attachment ?mp = is_attachment mp" "attachment_name ?mp = attachment_name mp"
    by (simp_all add: fun_eq_iff is_attachment_def attachment_name_def)
  have r: "readable ?mp = readable mp" by (intro ext) (simp add: readable_def e)
  have w: "find_text ?mp mail = find_text mp mail" "collect_attachments ?mp mail = collect_attachments mp mail"
    by (simp_all only: fun_eq_iff find_text_leaves collect_attachments_leaves e r simp_thms)
  have f: "get_body ?mp = get_body mp" "get_first_value ?mp = get_first_value mp" "parse_mail ?mp [] = Some mail" by simp_all
  have "text_body ?mp mail = text_body mp mail" unfolding text_body_def w f ..
  then show ?thesis by (simp only: parse_def f w assms option.case)
qed

lemma parse_mail_of:
  "list_all plain_line ls \<Longrightarrow>
   parse test_mailparse (mail_of ls) = parse (test_mailparse\<lparr>parse_mail := \<lambda>_. Some (entity 2 ls)\<rparr>) []"
  by (rule parse_tree) (simp add: test_mailparse_def read_mail_def lines_mail_of)

definition NEXTCLOUD_TEST_EMAIL :: "string list" where
  "NEXTCLOUD_TEST_EMAIL =
    [''Subject: Email setting test'',
     ''From: nextcloud@mail.home.heimbs.me'',
     ''To: lenny@example.org'',
     ''MIME-Version: 1.0'',
     ''Content-Type: multipart/alternative; boundary=ZkhUrnZN'',
     [],
     ''--ZkhUrnZN'',
     ''Content-Type: text/plain; charset=utf-8'',
     ''Content-Transfer-Encoding: quoted-printable'',
     [],
     ''Well done, lenny!'',
     [],
     ''If you received this email, the email configuration ='',
     ''seems to be correct.'',
     [],
     ''--=20'',
     ''Nextcloud - a safe home for all your dat='',
     ''a'',
     ''--ZkhUrnZN'',
     ''Content-Type: text/html; charset=utf-8'',
     ''Content-Transfer-Encoding: quoted-printable'',
     [],
     ''<html><body><h1 class=3D'' @ [CHR 0x22] @ ''text-center'' @ [CHR 0x22] @ ''>Well done, lenny!</h1>'',
     ''=09<p>If you received this email, the email configuration seems to be ='',
     ''correct.</p></body></html>'',
     ''--ZkhUrnZN--'']"

definition multipart_alternative_takes_the_plain_part_and_decodes_it :: bool where
  "multipart_alternative_takes_the_plain_part_and_decodes_it \<longleftrightarrow>
     parse test_mailparse (mail_of NEXTCLOUD_TEST_EMAIL) = Some
       \<lparr>mime_subject = Some ''Email setting test'',
        mime_body = join [LF] [''Well done, lenny!'', [],
          ''If you received this email, the email configuration seems to be correct.'', [],
          ''-- '', ''Nextcloud - a safe home for all your data'']\<rparr>"

definition multipart_alternative_leaves_no_trace_of_the_html_part :: bool where
  "multipart_alternative_leaves_no_trace_of_the_html_part \<longleftrightarrow>
     (case body_of NEXTCLOUD_TEST_EMAIL of
        None \<Rightarrow> False
      | Some b \<Rightarrow> \<not> contains b ''ZkhUrnZN'' \<and> \<not> contains b ''<h1'' \<and> \<not> contains b ''=3D'' \<and> \<not> contains b ''=09'')"

definition quoted_printable_soft_breaks_rejoin_the_word_they_split :: bool where
  "quoted_printable_soft_breaks_rejoin_the_word_they_split \<longleftrightarrow>
     (case body_of NEXTCLOUD_TEST_EMAIL of None \<Rightarrow> False | Some b \<Rightarrow> contains b ''all your data'')"

definition base64_parts_are_decoded :: bool where
  "base64_parts_are_decoded \<longleftrightarrow>
     body_of
       [''Subject: encoded'',
        ''Content-Type: text/plain; charset=utf-8'',
        ''Content-Transfer-Encoding: base64'',
        [],
        ''SGVsbG8sIHdvcmxkIQ==''] =
       Some (''Hello, world!'')"

definition encoded_word_subjects_are_decoded :: bool where
  "encoded_word_subjects_are_decoded \<longleftrightarrow>
     Option.bind (parse test_mailparse (mail_of
       [''Subject: =?utf-8?B?QsO8Y2hlcmVpIHZlcmbDvGdiYXI=?='',
        [],
        ''body''])) mime_subject =
       Some (''B'' @ [CHR 0xC3, CHR 0xBC] @ ''cherei verf'' @ [CHR 0xC3, CHR 0xBC] @ ''gbar'')"

definition a_plain_non_mime_message_is_unchanged :: bool where
  "a_plain_non_mime_message_is_unchanged \<longleftrightarrow>
     parse test_mailparse (mail_of
       [''Subject: Cron <root@omv> /usr/bin/backup'',
        [],
        ''/usr/bin/backup: line 4: warning'']) = Some
       \<lparr>mime_subject = Some ''Cron <root@omv> /usr/bin/backup'',
        mime_body = ''/usr/bin/backup: line 4: warning''\<rparr>"

definition html_only_mail_falls_back_to_stripped_text :: bool where
  "html_only_mail_falls_back_to_stripped_text \<longleftrightarrow>
     body_of
       [''Subject: html only'',
        ''Content-Type: text/html; charset=utf-8'',
        [],
        ''<html><body><p>Disk <b>sda</b> is failing.</p><p>Replace it.</p></body></html>''] =
       Some (''Disk sda is failing.'' @ [CHR 0x0A, CHR 0x0A] @ ''Replace it.'')"

definition nested_multipart_still_finds_the_plain_part :: bool where
  "nested_multipart_still_finds_the_plain_part \<longleftrightarrow>
     body_of
       [''Subject: nested'',
        ''Content-Type: multipart/mixed; boundary=outer'',
        [],
        ''--outer'',
        ''Content-Type: multipart/alternative; boundary=inner'',
        [],
        ''--inner'',
        ''Content-Type: text/plain'',
        [],
        ''the readable part'',
        ''--inner'',
        ''Content-Type: text/html'',
        [],
        ''<p>the markup</p>'',
        ''--inner--'',
        ''--outer--''] =
       Some (''the readable part'')"

definition attachments_are_named_but_not_included :: bool where
  "attachments_are_named_but_not_included \<longleftrightarrow>
     (let b = body_of
       [''Subject: backup report'',
        ''Content-Type: multipart/mixed; boundary=sep'',
        [],
        ''--sep'',
        ''Content-Type: text/plain'',
        [],
        ''Backup finished.'',
        ''--sep'',
        ''Content-Type: application/pdf'',
        ''Content-Disposition: attachment; filename='' @ [CHR 0x22] @ ''report.pdf'' @ [CHR 0x22],
        ''Content-Transfer-Encoding: base64'',
        [],
        ''SGVsbG8sIHdvcmxkIQ=='',
        ''--sep--'']
      in b = Some (''Backup finished.'' @ [CHR 0x0A, CHR 0x0A] @ ''[1 attachment: report.pdf]'') \<and> \<not> contains (the b) ''Hello, world!'')"

definition several_attachments_are_listed_together :: bool where
  "several_attachments_are_listed_together \<longleftrightarrow>
     body_of
       [''Content-Type: multipart/mixed; boundary=sep'',
        [],
        ''--sep'',
        ''Content-Type: text/plain'',
        [],
        ''see attached'',
        ''--sep'',
        ''Content-Type: application/pdf'',
        ''Content-Disposition: attachment; filename='' @ [CHR 0x22] @ ''a.pdf'' @ [CHR 0x22],
        [],
        ''x'',
        ''--sep'',
        ''Content-Type: image/png'',
        ''Content-Disposition: attachment; filename='' @ [CHR 0x22] @ ''b.png'' @ [CHR 0x22],
        [],
        ''y'',
        ''--sep--''] =
       Some (''see attached'' @ [CHR 0x0A, CHR 0x0A] @ ''[2 attachments: a.pdf, b.png]'')"

definition an_attachment_without_a_disposition_is_still_named :: bool where
  "an_attachment_without_a_disposition_is_still_named \<longleftrightarrow>
     body_of
       [''Content-Type: multipart/mixed; boundary=sep'',
        [],
        ''--sep'',
        ''Content-Type: text/plain'',
        [],
        ''body'',
        ''--sep'',
        ''Content-Type: application/octet-stream; name='' @ [CHR 0x22] @ ''core.dump'' @ [CHR 0x22],
        [],
        ''z'',
        ''--sep--''] =
       Some (''body'' @ [CHR 0x0A, CHR 0x0A] @ ''[1 attachment: core.dump]'')"

definition an_attachment_only_message_still_says_what_arrived :: bool where
  "an_attachment_only_message_still_says_what_arrived \<longleftrightarrow>
     body_of
       [''Subject: scan'',
        ''Content-Type: application/pdf; name='' @ [CHR 0x22] @ ''scan.pdf'' @ [CHR 0x22],
        ''Content-Disposition: attachment; filename='' @ [CHR 0x22] @ ''scan.pdf'' @ [CHR 0x22],
        [],
        ''data''] =
       Some (''[1 attachment: scan.pdf]'')"

lemma multipart_tests_pass:
  multipart_alternative_takes_the_plain_part_and_decodes_it
  multipart_alternative_leaves_no_trace_of_the_html_part
  quoted_printable_soft_breaks_rejoin_the_word_they_split
proof -
  let ?parsed = "Some \<lparr>mime_subject = Some ''Email setting test'',
    mime_body = join [LF] [''Well done, lenny!'', [],
      ''If you received this email, the email configuration seems to be correct.'', [],
      ''-- '', ''Nextcloud - a safe home for all your data'']\<rparr>"
  have p: "parse test_mailparse (mail_of NEXTCLOUD_TEST_EMAIL) = ?parsed"
    by (subst parse_mail_of) code_simp+
  then show multipart_alternative_takes_the_plain_part_and_decodes_it
    unfolding multipart_alternative_takes_the_plain_part_and_decodes_it_def .
  show multipart_alternative_leaves_no_trace_of_the_html_part
    quoted_printable_soft_breaks_rejoin_the_word_they_split
    unfolding multipart_alternative_leaves_no_trace_of_the_html_part_def
      quoted_printable_soft_breaks_rejoin_the_word_they_split_def body_of_def p
    by code_simp+
qed

lemma leaf_tests_pass:
  base64_parts_are_decoded
  encoded_word_subjects_are_decoded
  a_plain_non_mime_message_is_unchanged
  unfolding base64_parts_are_decoded_def encoded_word_subjects_are_decoded_def a_plain_non_mime_message_is_unchanged_def body_of_def
  by (subst parse_mail_of, code_simp, code_simp)+

lemma walk_tests_pass:
  html_only_mail_falls_back_to_stripped_text
  nested_multipart_still_finds_the_plain_part
  unfolding html_only_mail_falls_back_to_stripped_text_def nested_multipart_still_finds_the_plain_part_def body_of_def
  by (subst parse_mail_of, code_simp, code_simp)+

lemma attachment_tests_pass:
  attachments_are_named_but_not_included
  an_attachment_only_message_still_says_what_arrived
  unfolding attachments_are_named_but_not_included_def an_attachment_only_message_still_says_what_arrived_def body_of_def
  by (subst parse_mail_of, code_simp, code_simp)+

lemma attachments_tests_pass:
  several_attachments_are_listed_together
  an_attachment_without_a_disposition_is_still_named
  unfolding several_attachments_are_listed_together_def an_attachment_without_a_disposition_is_still_named_def body_of_def
  by (subst parse_mail_of, code_simp, code_simp)+

end
