(* ===== verification/Conformance_Store.thy ===== *)
theory Conformance_Store
  imports Store
begin

section \<open>The unit tests of the store, run on the model\<close>

text \<open>
  The tests the repository keeps for the store (end of \<^verbatim>\<open>src/queue/store.rs\<close>), translated one by
  one and evaluated on the definitions of \<open>Store\<close>: the model gives the results the tests
  demand of the code. A test is a truth value; \<open>unwrap\<close> continues with what a call returned and
  fails the test on an error, \<open>unwrap_err\<close> the other way round. The database in memory starts
  empty and the clock stands still.

  Left out are the test of the directories on disk, which asks the file system, and the one
  that poisons the mutex by a panic.
\<close>

subsection \<open>The vocabulary of the tests\<close>

definition unwrap :: "'a result \<times> 's \<Rightarrow> ('a \<Rightarrow> 's \<Rightarrow> bool) \<Rightarrow> bool" where
  "unwrap r k = (case r of (Inr a, s) \<Rightarrow> k a s | (Inl _, _) \<Rightarrow> False)"

definition unwrap_err :: "'a result \<times> 's \<Rightarrow> (chimney_error \<Rightarrow> 's \<Rightarrow> bool) \<Rightarrow> bool" where
  "unwrap_err r k = (case r of (Inl e, s) \<Rightarrow> k e s | (Inr _, _) \<Rightarrow> False)"

definition test_now :: i64 where "test_now = 7"

definition memory_env :: "database \<Rightarrow> storage_env" where
  "memory_env db = \<lparr>se_task = None, se_mkdir = \<lambda>_. None, se_open = \<lambda>_. Inr db, se_schema = None,
     se_faults = [], se_clock = replicate 60 (Some (nat test_now))\<rparr>"

definition opened :: "message_store result \<Rightarrow> (message_store \<Rightarrow> bool) \<Rightarrow> bool" where
  "opened r k = (case r of Inr st \<Rightarrow> k st | Inl _ \<Rightarrow> False)"

definition open_in_memory :: "message_store result" where
  "open_in_memory = open_unbounded (memory_env empty_database) '':memory:''"

definition store_msg :: "string \<Rightarrow> string list \<Rightarrow> message" where
  "store_msg body to = \<lparr>msg_from = Some ''sender@example.com'', msg_to = to, msg_subject = Some ''subj'', msg_body = body\<rparr>"

subsection \<open>The tests\<close>

definition enqueue_then_claim_roundtrips_all_fields :: bool where
  "enqueue_then_claim_roundtrips_all_fields \<longleftrightarrow>
     opened open_in_memory (\<lambda>store.
     unwrap (enqueue (store_msg ''hello'' [''a@x.com'', ''b@y.com'']) store) (\<lambda>id store.
     unwrap (claim_next_ready test_now store) (\<lambda>claimed store.
       case claimed of
         None \<Rightarrow> False
       | Some c \<Rightarrow> sm_id c = id \<and> sm_attempts c = 0 \<and>
           sm_message c = store_msg ''hello'' [''a@x.com'', ''b@y.com''])))"

definition claim_returns_messages_in_fifo_order :: bool where
  "claim_returns_messages_in_fifo_order \<longleftrightarrow>
     opened open_in_memory (\<lambda>store.
     unwrap (enqueue (store_msg ''first'' [''a@x.com'']) store) (\<lambda>_ store.
     unwrap (enqueue (store_msg ''second'' [''a@x.com'']) store) (\<lambda>_ store.
     unwrap (claim_next_ready test_now store) (\<lambda>first store.
       case first of None \<Rightarrow> False | Some c \<Rightarrow> msg_body (sm_message c) = ''first''))))"

definition mark_delivered_removes_the_message :: bool where
  "mark_delivered_removes_the_message \<longleftrightarrow>
     opened open_in_memory (\<lambda>store.
     unwrap (enqueue (store_msg ''bye'' [''a@x.com'']) store) (\<lambda>id store.
     unwrap (len store) (\<lambda>n store. n = 1 \<and>
     unwrap (mark_delivered id store) (\<lambda>_ store.
     unwrap (len store) (\<lambda>n store. n = 0 \<and>
     unwrap (claim_next_ready test_now store) (\<lambda>c store. c = None))))))"

definition rescheduled_message_is_not_claimed_until_due :: bool where
  "rescheduled_message_is_not_claimed_until_due \<longleftrightarrow>
     opened open_in_memory (\<lambda>store.
     unwrap (enqueue (store_msg ''retry'' [''a@x.com'']) store) (\<lambda>id store.
     unwrap (reschedule id 1 (test_now + 100) store) (\<lambda>_ store.
     unwrap (claim_next_ready test_now store) (\<lambda>c store. c = None \<and>
     unwrap (next_wakeup test_now store) (\<lambda>at store. at = Some (test_now + 100) \<and>
     unwrap (claim_next_ready (test_now + 100) store) (\<lambda>c store.
       map_option sm_attempts c = Some 1))))))"

definition ready_message_is_preferred_over_a_parked_one :: bool where
  "ready_message_is_preferred_over_a_parked_one \<longleftrightarrow>
     opened open_in_memory (\<lambda>store.
     unwrap (enqueue (store_msg ''parked'' [''a@x.com'']) store) (\<lambda>parked store.
     unwrap (reschedule parked 1 (test_now + 1000) store) (\<lambda>_ store.
     unwrap (enqueue (store_msg ''ready'' [''a@x.com'']) store) (\<lambda>_ store.
     unwrap (claim_next_ready test_now store) (\<lambda>c store.
       map_option (\<lambda>c. msg_body (sm_message c)) c = Some ''ready'')))))"

definition next_wakeup_is_none_when_empty_or_all_due :: bool where
  "next_wakeup_is_none_when_empty_or_all_due \<longleftrightarrow>
     opened open_in_memory (\<lambda>store.
     unwrap (next_wakeup test_now store) (\<lambda>at store. at = None \<and>
     unwrap (enqueue (store_msg ''due'' [''a@x.com'']) store) (\<lambda>_ store.
     unwrap (next_wakeup test_now store) (\<lambda>at store. at = None))))"

text \<open>Opening the database again finds the tables the first store left.\<close>

definition messages_survive_reopening_the_database :: bool where
  "messages_survive_reopening_the_database \<longleftrightarrow>
     opened (open_unbounded (memory_env empty_database) ''tmp/queue.db'') (\<lambda>store.
     unwrap (enqueue (store_msg ''durable'' [''a@x.com'', ''b@y.com'']) store) (\<lambda>_ store.
     opened (open_unbounded (memory_env (conn store)) ''tmp/queue.db'') (\<lambda>store.
     unwrap (len store) (\<lambda>n store. n = 1 \<and>
     unwrap (claim_next_ready test_now store) (\<lambda>c store.
       map_option sm_message c = Some (store_msg ''durable'' [''a@x.com'', ''b@y.com'']))))))"

definition enqueue_rejects_when_at_max_len :: bool where
  "enqueue_rejects_when_at_max_len \<longleftrightarrow>
     opened (open_with_max_len (memory_env empty_database) '':memory:'' 2) (\<lambda>store.
     unwrap (enqueue (store_msg ''a'' [''x@x.com'']) store) (\<lambda>_ store.
     unwrap (enqueue (store_msg ''b'' [''x@x.com'']) store) (\<lambda>_ store.
     unwrap_err (enqueue (store_msg ''c'' [''x@x.com'']) store) (\<lambda>err store. err = QueueFull \<and>
     unwrap (len store) (\<lambda>n store. n = 2)))))"

definition removing_a_message_frees_a_slot :: bool where
  "removing_a_message_frees_a_slot \<longleftrightarrow>
     opened (open_with_max_len (memory_env empty_database) '':memory:'' 1) (\<lambda>store.
     unwrap (enqueue (store_msg ''a'' [''x@x.com'']) store) (\<lambda>id store.
     unwrap_err (enqueue (store_msg ''b'' [''x@x.com'']) store) (\<lambda>err store. err = QueueFull \<and>
     unwrap (mark_delivered id store) (\<lambda>_ store.
     unwrap (enqueue (store_msg ''b'' [''x@x.com'']) store) (\<lambda>_ store.
     unwrap (len store) (\<lambda>n store. n = 1))))))"

definition max_len_zero_means_unlimited :: bool where
  "max_len_zero_means_unlimited \<longleftrightarrow>
     opened (open_with_max_len (memory_env empty_database) '':memory:'' 0) (\<lambda>store.
     unwrap (fold (\<lambda>m (r, store). case r of Inl e \<Rightarrow> (Inl e, store) | Inr _ \<Rightarrow> enqueue m store)
               (map (\<lambda>i. store_msg (''m'' @ nat_str i) [''x@x.com'']) [0..<50]) (Inr 0, store)) (\<lambda>_ store.
     unwrap (len store) (\<lambda>n store. n = 50)))"

definition dead_letter_moves_message_out_of_the_outbox :: bool where
  "dead_letter_moves_message_out_of_the_outbox \<longleftrightarrow>
     opened open_in_memory (\<lambda>store.
     unwrap (enqueue (store_msg ''doomed'' [''x@x.com'']) store) (\<lambda>id store.
     unwrap (len store) (\<lambda>n store. n = 1 \<and>
     unwrap (dead_letter_len store) (\<lambda>n store. n = 0 \<and>
     unwrap (dead_letter id ''permanent failure'' store) (\<lambda>_ store.
     unwrap (len store) (\<lambda>n store. n = 0 \<and>
     unwrap (dead_letter_len store) (\<lambda>n store. n = 1 \<and>
     unwrap (claim_next_ready test_now store) (\<lambda>c store. c = None))))))))"

definition dead_letter_on_unknown_id_is_a_noop :: bool where
  "dead_letter_on_unknown_id_is_a_noop \<longleftrightarrow>
     opened open_in_memory (\<lambda>store.
     unwrap (enqueue (store_msg ''keep'' [''x@x.com'']) store) (\<lambda>_ store.
     unwrap (dead_letter 999 ''no such row'' store) (\<lambda>_ store.
     unwrap (len store) (\<lambda>n store. n = 1 \<and>
     unwrap (dead_letter_len store) (\<lambda>n store. n = 0)))))"

definition recipient_encoding_roundtrips :: bool where
  "recipient_encoding_roundtrips \<longleftrightarrow>
     list_all (\<lambda>c. decode_recipients (encode_recipients c) = c)
       [[], [''only@x.com''], [''a@x.com'', ''b@y.com'']]"

text \<open>The fifty messages of the test of the unlimited queue, for any number of messages.\<close>

lemma enqueue_all:
  assumes "sql_faults st = []" and "max_len st = 0" and "outbox_seq (conn st) + int (length ms) \<le> i64_max"
  shows "\<exists>id st'. fold (\<lambda>m (r, store). case r of Inl e \<Rightarrow> (Inl e, store) | Inr _ \<Rightarrow> enqueue m store) ms (Inr i, st) =
      (Inr id, st') \<and> sql_faults st' = [] \<and> length (outbox (conn st')) = length (outbox (conn st)) + length ms"
  using assms
proof (induction ms arbitrary: st i)
  case Nil
  then show ?case by simp
next
  case (Cons m ms)
  obtain id st1 where e: "enqueue m st = (Inr id, st1)" "sql_faults st1 = []" "max_len st1 = 0"
    "outbox_seq (conn st1) = outbox_seq (conn st) + 1" "length (outbox (conn st1)) = Suc (length (outbox (conn st)))"
  proof -
    obtain c st0 where u: "unix_now st = (c, st0)" "conn st0 = conn st" "sql_faults st0 = []" "max_len st0 = 0"
      using Cons.prems by (cases "unix_now st") (auto simp: unix_now_def split: list.splits option.splits)
    obtain r st1 where e: "enqueue m st = (r, st1)" by fastforce
    have "\<exists>id. r = Inr id" "sql_faults st1 = []" "max_len st1 = 0"
      "outbox_seq (conn st1) = outbox_seq (conn st) + 1" "length (outbox (conn st1)) = Suc (length (outbox (conn st)))"
      using e u Cons.prems(3)
      by (auto simp: enqueue_def enqueue_locked_def insert_message_def exec_sql_no_fault with_conn_no_fault
          sql_insert_outbox_def Let_def)
    with e that show ?thesis by blast
  qed
  from Cons.IH [OF e(2,3), of id] Cons.prems e(4,5) show ?case by (simp add: e(1) algebra_simps)
qed

lemma store_tests_pass:
  enqueue_then_claim_roundtrips_all_fields
  claim_returns_messages_in_fifo_order
  mark_delivered_removes_the_message
  rescheduled_message_is_not_claimed_until_due
  ready_message_is_preferred_over_a_parked_one
  next_wakeup_is_none_when_empty_or_all_due
  messages_survive_reopening_the_database
  enqueue_rejects_when_at_max_len
  removing_a_message_frees_a_slot
  dead_letter_moves_message_out_of_the_outbox
  dead_letter_on_unknown_id_is_a_noop
  recipient_encoding_roundtrips
  by code_simp+

lemma unlimited_test_passes: max_len_zero_means_unlimited
proof -
  let ?ms = "map (\<lambda>i. store_msg (''m'' @ nat_str i) [''x@x.com'']) [0..<50]"
  let ?st = "\<lparr>conn = empty_database, notify = False, max_len = 0, sql_faults = [], clock = replicate 60 (Some (nat test_now))\<rparr>"
  obtain id st where "fold (\<lambda>m (r, store). case r of Inl e \<Rightarrow> (Inl e, store) | Inr _ \<Rightarrow> enqueue m store) ?ms (Inr 0, ?st) =
      (Inr id, st)" "sql_faults st = []" "length (outbox (conn st)) = 50"
    using enqueue_all [of ?st ?ms 0] by (auto simp: empty_database_def i64_max_def)
  then show ?thesis
    by (simp add: max_len_zero_means_unlimited_def open_with_max_len_def memory_env_def create_parent_def opened_def
        unwrap_def len_def with_conn_def exec_sql_def next_fault_def sql_count_outbox_def)
qed

end
