(* ===== verification/Conformance_Text.thy ===== *)
theory Conformance_Text
  imports Conformance_Store Smtp_Server Routing Parser Html Matrix_Client
begin

section \<open>The unit tests of the readers, the parsers and the router, run on the model\<close>

text \<open>
  The tests the repository keeps for the readers and the address parser (end of
  \<^verbatim>\<open>src/smtp/server.rs\<close>), the raw split (\<^verbatim>\<open>src/smtp/parser.rs\<close>), the HTML reduction
  (\<^verbatim>\<open>src/smtp/mime.rs\<close>), the router (\<^verbatim>\<open>src/matrix/routing.rs\<close>) and the device check
  (\<^verbatim>\<open>src/matrix/client.rs\<close>), one definition for each, evaluated on the model.

  Where the code calls a crate, the tests run with a stand-in that decides as the crate does on
  the inputs of the test: \<open>test_email\<close> for the address check, \<open>test_room\<close> for the parser of room
  ids. The tests of the MIME walk and of the templates are in \<open>Conformance_Mail\<close>.
\<close>

text \<open>Natural numbers are unary when they are evaluated; the sum is computed on integers.\<close>

lemma usize_saturating_add_eval [code]: "usize_saturating_add a b = nat (min (int a + int b) 18446744073709551615)"
  by (simp add: usize_saturating_add_def usize_max_def min_def nat_int_add)

text \<open>A \<open>BufReader\<close> over a byte slice with the given capacity.\<close>

fun chunks :: "nat \<Rightarrow> nat \<Rightarrow> bytes \<Rightarrow> read_event list" where
  "chunks 0 cap data = []"
| "chunks (Suc fuel) cap data =
     (if data = [] then [] else Chunk (take cap data) # chunks fuel cap (drop cap data))"

definition with_capacity :: "nat \<Rightarrow> bytes \<Rightarrow> buf_reader" where
  "with_capacity cap data = \<lparr>rd_buf = [], rd_events = chunks (Suc (length data)) cap data\<rparr>"

definition read_data_str :: "bytes \<Rightarrow> usize \<Rightarrow> string result" where
  "read_data_str data max_size = fst (read_data (with_capacity 8 data) max_size)"

subsection \<open>Blocks\<close>

definition read_data_returns_the_block_up_to_the_terminator :: bool where
  "read_data_returns_the_block_up_to_the_terminator \<longleftrightarrow>
     read_data_str (''Subject: hi'' @ crlf @ crlf @ ''body'' @ crlf @ ''.'' @ crlf) 1024 =
       Inr (''Subject: hi'' @ crlf @ crlf @ ''body'' @ crlf)"

definition read_data_accepts_an_empty_body :: bool where
  "read_data_accepts_an_empty_body \<longleftrightarrow> read_data_str (''.'' @ crlf) 1024 = Inr []"

definition read_data_unstuffs_leading_dots :: bool where
  "read_data_unstuffs_leading_dots \<longleftrightarrow>
     read_data_str (''..dotted line'' @ crlf @ ''.'' @ crlf) 1024 = Inr (''.dotted line'' @ crlf)"

definition read_data_errors_on_premature_eof_without_terminator :: bool where
  "read_data_errors_on_premature_eof_without_terminator \<longleftrightarrow>
     read_data_str (''Subject: x'' @ crlf @ crlf @ ''half a mess'') 1024 = Inl SmtpDataIncomplete"

definition read_data_errors_on_immediate_eof :: bool where
  "read_data_errors_on_immediate_eof \<longleftrightarrow> read_data_str [] 1024 = Inl SmtpDataIncomplete"

definition read_data_enforces_the_size_limit :: bool where
  "read_data_enforces_the_size_limit \<longleftrightarrow>
     read_data_str (''123456789'' @ crlf @ ''.'' @ crlf) 8 = Inl SmtpSizeExceeded"

definition read_data_preserves_8bit_body_lossily :: bool where
  "read_data_preserves_8bit_body_lossily \<longleftrightarrow>
     (case read_data_str (''caf'' @ [CHR 0xE9] @ '' time'' @ crlf @ ''.'' @ crlf) 1024 of
        Inl _ \<Rightarrow> False
      | Inr data \<Rightarrow> contains data ''caf'' \<and> contains data ''time'' \<and> contains data [CHR 0xEF, CHR 0xBF, CHR 0xBD])"

lemma data_tests_pass:
  read_data_returns_the_block_up_to_the_terminator
  read_data_accepts_an_empty_body
  read_data_unstuffs_leading_dots
  read_data_errors_on_premature_eof_without_terminator
  read_data_errors_on_immediate_eof
  read_data_enforces_the_size_limit
  read_data_preserves_8bit_body_lossily
  by code_simp+

subsection \<open>Lines\<close>

definition read_one :: "bytes \<Rightarrow> nat \<Rightarrow> usize \<Rightarrow> (string \<times> usize) result" where
  "read_one data cap max_bytes =
     (case read_line_limited (with_capacity cap data) [] max_bytes of
        (Done (Inr n), buf, _) \<Rightarrow> Inr (buf, n)
      | (Done (Inl e), _, _) \<Rightarrow> Inl e
      | (Elapsed, _, _) \<Rightarrow> Inl (Io ''pending''))"

definition reads_a_simple_line_including_newline :: bool where
  "reads_a_simple_line_including_newline \<longleftrightarrow>
     read_one (''EHLO test'' @ crlf) 64 4096 = Inr (''EHLO test'' @ crlf, 11)"

definition line_exactly_at_limit_is_accepted :: bool where
  "line_exactly_at_limit_is_accepted \<longleftrightarrow> read_one (''abcd'' @ [LF]) 64 5 = Inr (''abcd'' @ [LF], 5)"

definition line_one_over_limit_is_rejected :: bool where
  "line_one_over_limit_is_rejected \<longleftrightarrow> read_one (''abcde'' @ [LF]) 64 5 = Inl SmtpLineTooLong"

definition cap_is_enforced_across_chunks_for_a_line_without_newline :: bool where
  "cap_is_enforced_across_chunks_for_a_line_without_newline \<longleftrightarrow>
     read_one (replicate 100 (CHR ''A'')) 4 16 = Inl SmtpLineTooLong"

definition handles_a_line_split_across_many_chunks :: bool where
  "handles_a_line_split_across_many_chunks \<longleftrightarrow>
     read_one (''hello world'' @ [LF]) 4 4096 = Inr (''hello world'' @ [LF], 12)"

definition eof_without_newline_returns_remaining_then_zero :: bool where
  "eof_without_newline_returns_remaining_then_zero \<longleftrightarrow>
     (case read_line_limited (with_capacity 8 ''partial'') [] 4096 of
        (Done (Inr n), buf, reader) \<Rightarrow> buf = ''partial'' \<and> n = 7 \<and>
          (case read_line_limited reader [] 4096 of
             (Done (Inr n2), buf2, _) \<Rightarrow> n2 = 0 \<and> buf2 = []
           | _ \<Rightarrow> False)
      | _ \<Rightarrow> False)"

definition reads_multiple_sequential_lines :: bool where
  "reads_multiple_sequential_lines \<longleftrightarrow>
     (case read_line_limited (with_capacity 4 (''one'' @ crlf @ ''two'' @ crlf)) [] 4096 of
        (Done (Inr _), a, reader) \<Rightarrow> a = ''one'' @ crlf \<and>
          (case read_line_limited reader [] 4096 of
             (Done (Inr _), b, _) \<Rightarrow> b = ''two'' @ crlf
           | _ \<Rightarrow> False)
      | _ \<Rightarrow> False)"

definition invalid_utf8_is_rejected :: bool where
  "invalid_utf8_is_rejected \<longleftrightarrow>
     (case read_one [CHR 0xFF, CHR 0xFE, LF] 64 4096 of Inl (Smtp _) \<Rightarrow> True | _ \<Rightarrow> False)"

lemma line_tests_pass:
  reads_a_simple_line_including_newline
  line_exactly_at_limit_is_accepted
  line_one_over_limit_is_rejected
  cap_is_enforced_across_chunks_for_a_line_without_newline
  handles_a_line_split_across_many_chunks
  eof_without_newline_returns_remaining_then_zero
  reads_multiple_sequential_lines
  invalid_utf8_is_rejected
  by code_simp+

subsection \<open>Addresses\<close>

text \<open>Decides the addresses of these tests as \<open>validate_email\<close> does: one @ between plain characters.\<close>

definition test_email :: "string \<Rightarrow> bool" where
  "test_email a \<longleftrightarrow> length (filter (\<lambda>c. c = CHR ''@'') a) = 1 \<and> hd a \<noteq> CHR ''@'' \<and> last a \<noteq> CHR ''@'' \<and>
     CHR 0x22 \<notin> set a"

definition parse_mail_from_ignores_esmtp_parameters :: bool where
  "parse_mail_from_ignores_esmtp_parameters \<longleftrightarrow>
     parse_mail_from test_email ''MAIL FROM:<sender@example.com> SIZE=1234'' = Some ''sender@example.com''"

definition parse_rcpt_to_ignores_esmtp_parameters :: bool where
  "parse_rcpt_to_ignores_esmtp_parameters \<longleftrightarrow>
     parse_rcpt_to test_email ''RCPT TO:<alerts@chimney> NOTIFY=SUCCESS'' = Some ''alerts@chimney''"

definition parse_mail_from_rejects_unterminated_path :: bool where
  "parse_mail_from_rejects_unterminated_path \<longleftrightarrow>
     parse_mail_from test_email ''MAIL FROM:<sender@example.com'' = None"

definition parse_mail_from_accepts_null_sender :: bool where
  "parse_mail_from_accepts_null_sender \<longleftrightarrow> parse_mail_from test_email ''MAIL FROM:<>'' = Some []"

definition parse_rcpt_to_accepts_single_label_domain :: bool where
  "parse_rcpt_to_accepts_single_label_domain \<longleftrightarrow>
     parse_rcpt_to test_email ''RCPT TO:<alerts@chimney>'' = Some ''alerts@chimney''"

definition parse_mail_from_rejects_addresses_with_no_at_sign :: bool where
  "parse_mail_from_rejects_addresses_with_no_at_sign \<longleftrightarrow>
     parse_mail_from test_email ''MAIL FROM:<not-an-email>'' = None"

definition parse_rcpt_to_rejects_addresses_with_no_at_sign :: bool where
  "parse_rcpt_to_rejects_addresses_with_no_at_sign \<longleftrightarrow>
     parse_rcpt_to test_email ''RCPT TO:<not-an-email>'' = None"

definition parse_mail_from_rejects_quoted_local_part_containing_a_bracket :: bool where
  "parse_mail_from_rejects_quoted_local_part_containing_a_bracket \<longleftrightarrow>
     parse_mail_from test_email (''MAIL FROM:<'' @ [CHR 0x22] @ ''a>b'' @ [CHR 0x22] @ ''@example.com>'') = None"

lemma address_tests_pass:
  parse_mail_from_ignores_esmtp_parameters
  parse_rcpt_to_ignores_esmtp_parameters
  parse_mail_from_rejects_unterminated_path
  parse_mail_from_accepts_null_sender
  parse_rcpt_to_accepts_single_label_domain
  parse_mail_from_rejects_addresses_with_no_at_sign
  parse_rcpt_to_rejects_addresses_with_no_at_sign
  parse_mail_from_rejects_quoted_local_part_containing_a_bracket
  by code_simp+

subsection \<open>The raw split and the HTML reduction\<close>

definition parses_subject_case_insensitive :: bool where
  "parses_subject_case_insensitive \<longleftrightarrow>
     extract_subject_and_body (''subject: hello'' @ crlf @ crlf @ ''Body'') = (Some ''hello'', ''Body'')"

definition parses_folded_subject :: bool where
  "parses_folded_subject \<longleftrightarrow>
     extract_subject_and_body (''Subject: Hello'' @ crlf @ [CHR 0x09] @ ''World'' @ crlf @ crlf @ ''Body'') =
       (Some ''Hello World'', ''Body'')"

text \<open>What the crate makes of a multipart body without a part: the comment of the test.\<close>

definition no_parts :: "unit mailparse" where
  "no_parts = \<lparr>parse_mail = (\<lambda>_. Some (ParsedMail ''multipart/mixed'' [''boundary'' \<mapsto> ''nothing-matches-this''] () [])),
     get_body = (\<lambda>_. None), get_content_disposition = (\<lambda>_. \<lparr>disposition = Inline, disp_params = Map.empty\<rparr>),
     get_first_value = (\<lambda>_ _. Some ''broken'')\<rparr>"

definition falls_back_to_the_raw_split_when_mime_yields_nothing :: bool where
  "falls_back_to_the_raw_split_when_mime_yields_nothing \<longleftrightarrow>
     (let m = parse_data no_parts None [''to@example.com'']
        (''Subject: broken'' @ crlf @ ''Content-Type: multipart/mixed; boundary=nothing-matches-this'' @ crlf @ crlf @
         ''the only text there is'' @ crlf)
      in msg_subject m = Some ''broken'' \<and> msg_body m = ''the only text there is'')"

definition parse_data_normalises_null_sender_to_none :: "'p mailparse \<Rightarrow> bool" where
  "parse_data_normalises_null_sender_to_none mp \<longleftrightarrow> msg_from (parse_data mp (Some []) [''to@example.com''] []) = None"

definition parse_data_preserves_a_real_sender :: "'p mailparse \<Rightarrow> bool" where
  "parse_data_preserves_a_real_sender mp \<longleftrightarrow>
     msg_from (parse_data mp (Some ''sender@example.com'') [''to@example.com''] []) = Some ''sender@example.com''"

definition html_entities_are_decoded :: bool where
  "html_entities_are_decoded \<longleftrightarrow>
     html_to_text ''<p>a &amp; b &lt;c&gt; &quot;d&quot; &#39;e&#39; &#x2713;</p>'' =
       ''a & b <c> '' @ [CHR 0x22] @ ''d'' @ [CHR 0x22] @ '' 'e' '' @ [CHR 0xE2, CHR 0x9C, CHR 0x93]"

definition html_scripts_and_styles_are_dropped_entirely :: bool where
  "html_scripts_and_styles_are_dropped_entirely \<longleftrightarrow>
     html_to_text (''<html><head><style>body{color:#fff}</style></head>'' @
       ''<body><script>alert('x')</script><p>real text</p></body></html>'') = ''real text''"

lemma split_tests_pass:
  parses_subject_case_insensitive
  parses_folded_subject
  falls_back_to_the_raw_split_when_mime_yields_nothing
  html_scripts_and_styles_are_dropped_entirely
  by code_simp+

lemma entity_test_passes: html_entities_are_decoded
proof -
  let ?html = "''<p>a &amp; b &lt;c&gt; &quot;d&quot; &#39;e&#39; &#x2713;</p>''"
  let ?t = "[LF] @ ''a &amp; b &lt;c&gt; &quot;d&quot; &#39;e&#39; &#x2713;'' @ [LF]"
  let ?d = "[LF] @ ''a & b <c> '' @ [CHR 0x22] @ ''d'' @ [CHR 0x22] @ '' 'e' '' @ [CHR 0xE2, CHR 0x9C, CHR 0x93] @ [LF]"
  have 1: "strip_tags (strip_elements ?html [''script'', ''style'', ''head'']) = ?t" by code_simp
  have 2: "numeric_entity ''#x2713'' = Some [CHR 0xE2, CHR 0x9C, CHR 0x93]"
    by (simp add: numeric_entity_def u32_from_str_radix_def digit_value_def char_from_u32_def
        starts_with_def char_of_def of_char_def bit_0)
  have 3: "decode_entities ?t = ?d"
    by (simp add: decode_entity_def entity_end_def named_entity_def to_ascii_lowercase_def ascii_lower_def 2)
  have 4: "tidy ?d = ''a & b <c> '' @ [CHR 0x22] @ ''d'' @ [CHR 0x22] @ '' 'e' '' @ [CHR 0xE2, CHR 0x9C, CHR 0x93]"
    by code_simp
  show ?thesis unfolding html_entities_are_decoded_def html_to_text_def 1 3 4 by simp
qed

text \<open>The tests of the sender pass whatever the parser makes of the empty data.\<close>

lemma sender_tests_pass:
  "parse_data_normalises_null_sender_to_none mp"
  "parse_data_preserves_a_real_sender mp"
  by (simp_all add: parse_data_normalises_null_sender_to_none_def parse_data_preserves_a_real_sender_def
      parse_data_def split_beta)

subsection \<open>The device check\<close>

definition rejected_with :: "'a result \<Rightarrow> string \<Rightarrow> bool" where
  "rejected_with r fragment = (case r of Inl e \<Rightarrow> contains (error_to_string e) fragment | Inr _ \<Rightarrow> False)"

definition device_id_ok_when_matching :: bool where
  "device_id_ok_when_matching \<longleftrightarrow> is_ok (verify_device_id (Some ''ABCD'') (Some ''ABCD''))"

definition device_id_errors_when_mismatched :: bool where
  "device_id_errors_when_mismatched \<longleftrightarrow>
     rejected_with (verify_device_id (Some ''ABCD'') (Some ''WXYZ'')) ''does not match''"

definition device_id_ok_when_not_configured :: bool where
  "device_id_ok_when_not_configured \<longleftrightarrow>
     is_ok (verify_device_id None (Some ''WXYZ'')) \<and> is_ok (verify_device_id None None)"

definition device_id_ok_when_server_reports_none :: bool where
  "device_id_ok_when_server_reports_none \<longleftrightarrow> is_ok (verify_device_id (Some ''ABCD'') None)"

definition detects_wrapped_account_mismatch :: bool where
  "detects_wrapped_account_mismatch \<longleftrightarrow>
     message_indicates_mismatch
       (''failed to read or write to the crypto store the account in '' @
        ''the store doesn't match the account in the constructor: '' @
        ''expected @user:matrix.org:CQIY3fUCQw, got @user:matrix.org:N44C4nQOfa'')"

definition ignores_unrelated_doesnt_match_errors :: bool where
  "ignores_unrelated_doesnt_match_errors \<longleftrightarrow>
     \<not> message_indicates_mismatch ''the public key that was part of the message doesn't match the key we have'' \<and>
     \<not> message_indicates_mismatch ''the room id of the room key doesn't match the room id of the decrypted event''"

lemma device_tests_pass:
  device_id_ok_when_matching
  device_id_errors_when_mismatched
  device_id_ok_when_not_configured
  device_id_ok_when_server_reports_none
  detects_wrapped_account_mismatch
  ignores_unrelated_doesnt_match_errors
  by code_simp+

subsection \<open>Routing\<close>

text \<open>Decides the room ids of these tests as the crate \<open>ruma\<close> does.\<close>

definition test_room :: "string \<Rightarrow> string + string" where
  "test_room v = (if starts_with v ''!'' then Inr v else Inl ''leading sigil is incorrect or missing'')"

definition test_route :: "string option \<Rightarrow> string option \<Rightarrow> string \<Rightarrow> route_config" where
  "test_route to frm room = \<lparr>rt_to = to, rt_from = frm, rt_room_id = room\<rparr>"

definition routed_msg :: "string option \<Rightarrow> string list \<Rightarrow> message" where
  "routed_msg frm to = \<lparr>msg_from = frm, msg_to = to, msg_subject = None, msg_body = []\<rparr>"

definition DEFAULT :: string where "DEFAULT = ''!default:example.org''"

definition resolves :: "route_config list \<Rightarrow> (message \<times> string) list \<Rightarrow> bool" where
  "resolves rs cases =
     (case build test_room DEFAULT rs of
        Inl _ \<Rightarrow> False
      | Inr r \<Rightarrow> list_all (\<lambda>(m, room). resolve r m = room) cases)"

definition empty_routes_always_resolve_to_default :: bool where
  "empty_routes_always_resolve_to_default \<longleftrightarrow>
     resolves [] [(routed_msg (Some ''anyone@x'') [''anything@y''], DEFAULT)]"

definition to_rule_matches_recipient :: bool where
  "to_rule_matches_recipient \<longleftrightarrow>
     resolves [test_route (Some ''alerts@chimney'') None ''!alerts:example.org'']
       [(routed_msg (Some ''app@server'') [''alerts@chimney''], ''!alerts:example.org'')]"

definition to_rule_matches_any_of_multiple_recipients :: bool where
  "to_rule_matches_any_of_multiple_recipients \<longleftrightarrow>
     resolves [test_route (Some ''ops@chimney'') None ''!ops:example.org'']
       [(routed_msg (Some ''app@server'') [''other@chimney'', ''ops@chimney''], ''!ops:example.org'')]"

definition to_rule_falls_through_when_no_recipient_matches :: bool where
  "to_rule_falls_through_when_no_recipient_matches \<longleftrightarrow>
     resolves [test_route (Some ''ops@chimney'') None ''!ops:example.org'']
       [(routed_msg (Some ''app@server'') [''someone@chimney'', ''else@chimney''], DEFAULT)]"

definition from_rule_matches_sender :: bool where
  "from_rule_matches_sender \<longleftrightarrow>
     resolves [test_route None (Some ''nextcloud@server'') ''!nextcloud:example.org'']
       [(routed_msg (Some ''nextcloud@server'') [''whatever@chimney''], ''!nextcloud:example.org'')]"

definition from_rule_does_not_match_a_null_sender :: bool where
  "from_rule_does_not_match_a_null_sender \<longleftrightarrow>
     resolves [test_route None (Some ''root@server'') ''!ops:example.org'']
       [(routed_msg None [''alerts@chimney''], DEFAULT)]"

definition matching_is_case_insensitive_for_both_fields :: bool where
  "matching_is_case_insensitive_for_both_fields \<longleftrightarrow>
     resolves [test_route (Some ''Alerts@Chimney'') (Some ''Root@Server'') ''!ops:example.org'']
       [(routed_msg (Some ''root@SERVER'') [''ALERTS@chimney''], ''!ops:example.org'')]"

definition combined_rule_requires_both_to_and_from :: bool where
  "combined_rule_requires_both_to_and_from \<longleftrightarrow>
     resolves [test_route (Some ''ops@chimney'') (Some ''root@server'') ''!ops:example.org'']
       [(routed_msg (Some ''root@server'') [''ops@chimney''], ''!ops:example.org''),
        (routed_msg (Some ''other@server'') [''ops@chimney''], DEFAULT),
        (routed_msg (Some ''root@server'') [''other@chimney''], DEFAULT)]"

definition first_matching_rule_wins :: bool where
  "first_matching_rule_wins \<longleftrightarrow>
     resolves [test_route (Some ''ops@chimney'') None ''!first:example.org'',
               test_route (Some ''ops@chimney'') None ''!second:example.org'']
       [(routed_msg (Some ''app@server'') [''ops@chimney''], ''!first:example.org'')]"

definition earlier_specific_rule_beats_later_broad_rule :: bool where
  "earlier_specific_rule_beats_later_broad_rule \<longleftrightarrow>
     resolves [test_route (Some ''ops@chimney'') (Some ''root@server'') ''!urgent:example.org'',
               test_route (Some ''ops@chimney'') None ''!ops:example.org'']
       [(routed_msg (Some ''root@server'') [''ops@chimney''], ''!urgent:example.org''),
        (routed_msg (Some ''cron@server'') [''ops@chimney''], ''!ops:example.org'')]"

definition build_rejects_route_without_selectors :: bool where
  "build_rejects_route_without_selectors \<longleftrightarrow>
     rejected_with (build test_room DEFAULT [test_route None None ''!x:example.org'']) ''at least one of''"

definition build_treats_blank_selectors_as_unset :: bool where
  "build_treats_blank_selectors_as_unset \<longleftrightarrow>
     rejected_with (build test_room DEFAULT [test_route (Some ''   '') (Some []) ''!x:example.org'']) ''at least one of''"

definition build_rejects_malformed_route_room_id :: bool where
  "build_rejects_malformed_route_room_id \<longleftrightarrow>
     (let r = build test_room DEFAULT [test_route (Some ''ops@chimney'') None ''not-a-room''] in
      rejected_with r ''matrix.routes[0].room_id'' \<and> rejected_with r ''not-a-room'')"

definition build_rejects_malformed_default_room_id :: bool where
  "build_rejects_malformed_default_room_id \<longleftrightarrow> rejected_with (build test_room ''not-a-room'' []) ''matrix.room_id''"

definition blank_selectors_never_match_but_keep_a_set_selector :: bool where
  "blank_selectors_never_match_but_keep_a_set_selector \<longleftrightarrow>
     resolves [test_route (Some ''  '') (Some ''root@server'') ''!ops:example.org'']
       [(routed_msg (Some ''root@server'') [], ''!ops:example.org'')]"

lemma routing_tests_pass:
  empty_routes_always_resolve_to_default
  to_rule_matches_recipient
  to_rule_matches_any_of_multiple_recipients
  to_rule_falls_through_when_no_recipient_matches
  from_rule_matches_sender
  from_rule_does_not_match_a_null_sender
  matching_is_case_insensitive_for_both_fields
  combined_rule_requires_both_to_and_from
  first_matching_rule_wins
  earlier_specific_rule_beats_later_broad_rule
  build_rejects_route_without_selectors
  build_treats_blank_selectors_as_unset
  build_rejects_malformed_route_room_id
  build_rejects_malformed_default_room_id
  blank_selectors_never_match_but_keep_a_set_selector
  by code_simp+

end
