(* ===== verification/Conformance_Config.thy ===== *)
theory Conformance_Config
  imports Conformance_Text Configuration
begin

section \<open>The unit tests of the validation, run on the model\<close>

text \<open>
  The tests the repository keeps for the validation (end of \<^verbatim>\<open>src/config.rs\<close>), evaluated on
  \<open>Configuration\<close>. Their starting point is the shipped \<^verbatim>\<open>config.example.toml\<close>, which is given here
  as the value the deserializer makes of it. The stand-ins for the crates decide as those do on
  the inputs of the tests: a URL has a scheme, a user id starts with @ and has a server name, a
  room id starts with !, and an expression of a template is closed. Left out is the test that
  searches the text of the example file.
\<close>

definition test_ids :: "(string, string, string) identifiers" where
  "test_ids = \<lparr>
     parse_url = (\<lambda>v. if contains v ''://'' then Inr v else Inl ''relative URL without a base''),
     parse_user_id = (\<lambda>v. if starts_with v ''@'' \<and> contains v '':'' then Inr v
                          else Inl ''leading sigil is incorrect or missing''),
     parse_room = test_room\<rparr>"

definition test_minijinja :: "(string, string) minijinja" where
  "test_minijinja = \<lparr>
     add_template = (\<lambda>t. if contains t ''{{'' \<and> \<not> contains t ''}}'' then Inl ''syntax error'' else Inr t),
     get_template = Inr, render = (\<lambda>t c. Inr (ctx_body c))\<rparr>"

definition valid_config :: config where
  "valid_config =
     \<lparr>cfg_smtp = \<lparr>smtp_bind = ''127.0.0.1:2525'', max_message_size = 10485760, smtp_timeout = 30,
                  max_connections = 100, max_session_seconds = 300\<rparr>,
      cfg_matrix = \<lparr>homeserver = ''https://matrix.org'', user_id = ''@bot:example.com'',
                    device_name = ''chimney-post'', room_id = ''!roomid:example.com'',
                    store_path = ''/var/lib/chimney-post/matrix-store'',
                    require_e2ee = default_require_e2ee, message_template = default_message_template,
                    mx_routes = [],
                    credentials = \<lparr>password = Some ''${MATRIX_PASSWORD}'', access_token = None,
                                   device_id = Some ''chimney-post''\<rparr>\<rparr>,
      cfg_logging = \<lparr>log_level = ''info'', log_format = ''json''\<rparr>,
      cfg_queue = \<lparr>q_max_retries = 5, q_retry_backoff = 60, db_path = ''/var/lib/chimney-post/queue.db'',
                   q_max_len = 10000\<rparr>\<rparr>"

abbreviation validates :: "config \<Rightarrow> unit result" where
  "validates c \<equiv> validate test_ids test_minijinja c"

definition with_matrix :: "(matrix_config \<Rightarrow> matrix_config) \<Rightarrow> config" where
  "with_matrix f = valid_config\<lparr>cfg_matrix := f (cfg_matrix valid_config)\<rparr>"

subsection \<open>The tests\<close>

definition template_test_config :: config where
  "template_test_config =
     \<lparr>cfg_smtp = \<lparr>smtp_bind = ''127.0.0.1:2525'', max_message_size = 1024, smtp_timeout = 30,
                  max_connections = 100, max_session_seconds = 300\<rparr>,
      cfg_matrix = \<lparr>homeserver = ''https://example.org'', user_id = ''@bot:example.org'',
                    device_name = ''chimney-post'', room_id = ''!room:example.org'',
                    store_path = ''/tmp/matrix'', require_e2ee = True, message_template = ''{{ unclosed'',
                    mx_routes = [],
                    credentials = \<lparr>password = Some ''test'', access_token = None, device_id = None\<rparr>\<rparr>,
      cfg_logging = \<lparr>log_level = ''info'', log_format = ''json''\<rparr>,
      cfg_queue = \<lparr>q_max_retries = 5, q_retry_backoff = 60, db_path = ''/tmp/queue.db'', q_max_len = 0\<rparr>\<rparr>"

definition validate_rejects_invalid_template :: bool where
  "validate_rejects_invalid_template \<longleftrightarrow> rejected_with (validates template_test_config) ''template''"

definition validate_rejects_zero_retry_backoff :: bool where
  "validate_rejects_zero_retry_backoff \<longleftrightarrow>
     rejected_with (validates (valid_config\<lparr>cfg_queue := (cfg_queue valid_config)\<lparr>q_retry_backoff := 0\<rparr>\<rparr>)) ''retry_backoff''"

definition validate_rejects_route_without_to_or_from :: bool where
  "validate_rejects_route_without_to_or_from \<longleftrightarrow>
     rejected_with (validates (with_matrix (\<lambda>mx. mx\<lparr>mx_routes := [test_route None None ''!room:example.org'']\<rparr>))) ''at least one of''"

definition validate_treats_blank_to_or_from_as_unset :: bool where
  "validate_treats_blank_to_or_from_as_unset \<longleftrightarrow>
     rejected_with (validates (with_matrix (\<lambda>mx. mx\<lparr>mx_routes := [test_route (Some ''   '') (Some []) ''!room:example.org'']\<rparr>)))
       ''at least one of''"

definition validate_rejects_route_with_blank_room_id :: bool where
  "validate_rejects_route_with_blank_room_id \<longleftrightarrow>
     rejected_with (validates (with_matrix (\<lambda>mx. mx\<lparr>mx_routes := [test_route (Some ''alerts@chimney'') None ''  '']\<rparr>))) ''room_id''"

definition validate_accepts_well_formed_routes :: bool where
  "validate_accepts_well_formed_routes \<longleftrightarrow>
     is_ok (validates (with_matrix (\<lambda>mx. mx\<lparr>mx_routes :=
       [test_route (Some ''alerts@chimney'') None ''!alerts:example.org'',
        test_route None (Some ''nextcloud@server'') ''!nextcloud:example.org'']\<rparr>)))"

definition validate_rejects_invalid_default_room_id :: bool where
  "validate_rejects_invalid_default_room_id \<longleftrightarrow>
     rejected_with (validates (with_matrix (\<lambda>mx. mx\<lparr>room_id := ''not-a-room-id''\<rparr>))) ''matrix.room_id''"

definition validate_rejects_invalid_route_room_id :: bool where
  "validate_rejects_invalid_route_room_id \<longleftrightarrow>
     rejected_with (validates (with_matrix (\<lambda>mx. mx\<lparr>mx_routes := [test_route (Some ''alerts@chimney'') None ''not-a-room-id'']\<rparr>)))
       ''matrix.routes[0].room_id''"

definition validate_rejects_invalid_homeserver_url :: bool where
  "validate_rejects_invalid_homeserver_url \<longleftrightarrow>
     rejected_with (validates (with_matrix (\<lambda>mx. mx\<lparr>homeserver := ''not a url''\<rparr>))) ''matrix.homeserver''"

definition validate_rejects_invalid_user_id :: bool where
  "validate_rejects_invalid_user_id \<longleftrightarrow>
     rejected_with (validates (with_matrix (\<lambda>mx. mx\<lparr>user_id := ''not-a-user-id''\<rparr>))) ''matrix.user_id''"

definition example_config_parses_and_validates :: bool where
  "example_config_parses_and_validates \<longleftrightarrow> is_ok (validates valid_config)"

subsection \<open>They pass\<close>

text \<open>The listener and the queue of the example are fine; the tests change the rest.\<close>

lemma first_error_skip: "first_error (Inr () # rs) = first_error rs"
  by (simp add: first_error.simps)

lemma example_not_blank:
  "\<not> is_blank ''/var/lib/chimney-post/queue.db''" "\<not> is_blank ''/tmp/queue.db''"
  by code_simp+

lemma valid_smtp: "check_smtp (cfg_smtp valid_config) = Inr ()" "check_smtp (cfg_smtp template_test_config) = Inr ()"
  unfolding check_smtp_ok by (simp_all add: valid_config_def template_test_config_def parse_socket_addr_examples)

lemma valid_queue: "check_queue (cfg_queue valid_config) = Inr ()" "check_queue (cfg_queue template_test_config) = Inr ()"
  unfolding check_queue_ok by (simp_all add: valid_config_def template_test_config_def example_not_blank)

lemma rejected_account:
  "rejected_with (check_account test_ids (f (cfg_matrix valid_config))) x \<Longrightarrow> rejected_with (validates (with_matrix f)) x"
  by (auto simp: validate_def with_matrix_def valid_smtp valid_queue first_error.simps rejected_with_def split: sum.splits)

lemma cfg_matrix_example: "cfg_matrix valid_config =
    \<lparr>homeserver = ''https://matrix.org'', user_id = ''@bot:example.com'',
     device_name = ''chimney-post'', room_id = ''!roomid:example.com'',
     store_path = ''/var/lib/chimney-post/matrix-store'',
     require_e2ee = default_require_e2ee, message_template = default_message_template, mx_routes = [],
     credentials = \<lparr>password = Some ''${MATRIX_PASSWORD}'', access_token = None, device_id = Some ''chimney-post''\<rparr>\<rparr>"
  by (simp add: valid_config_def)

lemmas config_test_defs = validate_rejects_route_without_to_or_from_def validate_treats_blank_to_or_from_as_unset_def
  validate_rejects_route_with_blank_room_id_def validate_rejects_invalid_default_room_id_def
  validate_rejects_invalid_route_room_id_def validate_rejects_invalid_homeserver_url_def
  validate_rejects_invalid_user_id_def

lemma account_tests_pass:
  validate_rejects_route_without_to_or_from
  validate_treats_blank_to_or_from_as_unset
  validate_rejects_route_with_blank_room_id
  validate_rejects_invalid_default_room_id
  validate_rejects_invalid_route_room_id
  validate_rejects_invalid_homeserver_url
  validate_rejects_invalid_user_id
  unfolding config_test_defs by (rule rejected_account, simp only: cfg_matrix_example, code_simp)+

lemma backoff_test_passes: validate_rejects_zero_retry_backoff
proof -
  let ?q = "(cfg_queue valid_config)\<lparr>q_retry_backoff := 0\<rparr>"
  have "\<not> is_blank (db_path ?q)" by (simp add: valid_config_def example_not_blank)
  then have "check_queue ?q = Inl (Config (''queue.retry_backoff must be greater than zero (a zero backoff would '' @
      ''retry a failing message in a tight loop)''))"
    by (simp add: check_queue_def first_error.simps check_def)
  moreover have "contains (error_to_string (Config (''queue.retry_backoff must be greater than zero (a zero backoff would '' @
      ''retry a failing message in a tight loop)''))) ''retry_backoff''" by code_simp
  ultimately show ?thesis
    by (simp add: validate_rejects_zero_retry_backoff_def validate_def valid_smtp first_error.simps rejected_with_def)
qed

lemma template_test_passes: validate_rejects_invalid_template
proof -
  have a: "check_account test_ids (cfg_matrix template_test_config) = Inr ()"
    "check_credentials (credentials (cfg_matrix template_test_config)) = Inr ()"
    "rejected_with (check_template test_minijinja (message_template (cfg_matrix template_test_config))) ''template''"
    by (simp add: template_test_config_def, code_simp)+
  then show ?thesis
    by (auto simp: validate_rejects_invalid_template_def validate_def valid_smtp valid_queue first_error.simps
        rejected_with_def split: sum.splits)
qed

lemma accepting_tests_pass: validate_accepts_well_formed_routes example_config_parses_and_validates
proof -
  have t: "check_credentials (credentials (cfg_matrix valid_config)) = Inr ()"
    "check_template test_minijinja (message_template (cfg_matrix valid_config)) = Inr ()"
    by (simp only: cfg_matrix_example, code_simp)+
  have a: "check_account test_ids ((cfg_matrix valid_config)\<lparr>mx_routes :=
       [test_route (Some ''alerts@chimney'') None ''!alerts:example.org'',
        test_route None (Some ''nextcloud@server'') ''!nextcloud:example.org'']\<rparr>) = Inr ()"
    "check_account test_ids (cfg_matrix valid_config) = Inr ()"
    by (simp only: cfg_matrix_example, code_simp)+
  show validate_accepts_well_formed_routes
    using t a(1) by (simp add: validate_accepts_well_formed_routes_def with_matrix_def validate_def valid_smtp valid_queue
        first_error.simps)
  show example_config_parses_and_validates
    using t a(2) by (simp add: example_config_parses_and_validates_def validate_def valid_smtp valid_queue first_error.simps)
qed

end
