(* ===== verification/Conformance_Worker.thy ===== *)
theory Conformance_Worker
  imports Conformance_Store Worker_Run
begin

section \<open>The unit tests of the worker, run on the model\<close>

text \<open>
  The tests the repository keeps for the worker (end of \<^verbatim>\<open>src/queue/worker.rs\<close>), with their sink
  \<open>FakeSink\<close>. A test that spawns the worker, waits until the queue has the expected length and
  then sends the shutdown signal is the run of turns up to the first wait, a look at the queue,
  and the run with the flag set; each with a number of turns that the test does not use up.
\<close>

subsection \<open>The sink of the tests\<close>

record fake_sink =
  delivered :: "message list"
  fs_keys :: "string list"
  calls :: nat
  fail_first :: nat
  always_fail :: bool
  fail_if_body_contains :: "string option"

definition fake_default :: fake_sink where
  "fake_default = \<lparr>delivered = [], fs_keys = [], calls = 0, fail_first = 0, always_fail = False,
     fail_if_body_contains = None\<rparr>"

definition failing_first :: "nat \<Rightarrow> fake_sink" where
  "failing_first n = fake_default\<lparr>fail_first := n\<rparr>"

definition always_failing :: fake_sink where
  "always_failing = fake_default\<lparr>always_fail := True\<rparr>"

definition failing_bodies_containing :: "string \<Rightarrow> fake_sink" where
  "failing_bodies_containing pattern = fake_default\<lparr>fail_if_body_contains := Some pattern\<rparr>"

definition fake_deliver :: "message \<Rightarrow> string \<Rightarrow> fake_sink \<Rightarrow> unit result \<times> fake_sink" where
  "fake_deliver m key s =
     (let s = s\<lparr>calls := calls s + 1, fs_keys := fs_keys s @ [key]\<rparr> in
      if always_fail s then (Inl (Matrix ''forced failure''), s)
      else if (case fail_if_body_contains s of Some p \<Rightarrow> contains (msg_body m) p | None \<Rightarrow> False)
      then (Inl (Matrix ''forced failure''), s)
      else if 0 < fail_first s then (Inl (Matrix ''forced failure''), s\<lparr>fail_first := fail_first s - 1\<rparr>)
      else (Inr (), s\<lparr>delivered := delivered s @ [m]\<rparr>))"

definition worker_msg :: "string \<Rightarrow> message" where
  "worker_msg body = \<lparr>msg_from = Some ''s@x.com'', msg_to = [''r@y.com''], msg_subject = Some ''s'', msg_body = body\<rparr>"

text \<open>The saturating operations, computed on integers.\<close>

lemma saturating_mul_eval [code]: "saturating_mul a b = (if 2 ^ 64 \<le> uint a * uint b then - 1 else a * b)"
proof -
  have "2 ^ 64 \<le> unat a * unat b \<longleftrightarrow> (2 ^ 64 :: int) \<le> uint a * uint b"
    by (simp flip: of_nat_le_iff [where 'a = int])
  then show ?thesis by (simp only: saturating_mul_def)
qed

lemma saturating_pow_eval [code]: "saturating_pow a n = (if 2 ^ 64 \<le> uint a ^ n then - 1 else a ^ n)"
proof -
  have "2 ^ 64 \<le> unat a ^ n \<longleftrightarrow> (2 ^ 64 :: int) \<le> uint a ^ n"
    by (simp flip: of_nat_le_iff [where 'a = int])
  then show ?thesis by (simp only: saturating_pow_def)
qed

subsection \<open>Running the worker\<close>

fun until_idle ::
  "nat \<Rightarrow> (message \<Rightarrow> string \<Rightarrow> 's \<Rightarrow> unit result \<times> 's) \<Rightarrow> delivery_worker \<Rightarrow> message_store \<Rightarrow> 's \<Rightarrow>
   (message_store \<times> 's) option" where
  "until_idle 0 deliver w st snk = None"
| "until_idle (Suc fuel) deliver w st snk =
     (case run_iter deliver w False st snk of
        (Claiming, st', snk') \<Rightarrow> until_idle fuel deliver w st' snk'
      | (_, st', snk') \<Rightarrow> Some (st', snk'))"

definition enqueue_all_of :: "message list \<Rightarrow> message_store \<Rightarrow> message_store" where
  "enqueue_all_of ms store = fold (\<lambda>m st. snd (enqueue m st)) ms store"

definition handle_await ::
  "delivery_worker \<Rightarrow> message_store \<Rightarrow> fake_sink \<Rightarrow> (message_store \<Rightarrow> fake_sink \<Rightarrow> bool) \<Rightarrow> bool" where
  "handle_await w store snk k =
     (case drain 9 fake_deliver w store snk of None \<Rightarrow> False | Some (store, snk) \<Rightarrow> k store snk)"

text \<open>\<open>spawn_worker\<close>, \<open>wait_for_len\<close>, the signal, and the end of the task.\<close>

definition spawn_worker ::
  "message list \<Rightarrow> fake_sink \<Rightarrow> u32 \<Rightarrow> u64 \<Rightarrow> bool \<Rightarrow> usize \<Rightarrow> (message_store \<Rightarrow> fake_sink \<Rightarrow> bool) \<Rightarrow> bool" where
  "spawn_worker ms sink retries backoff shutdown_initial target k =
     opened open_in_memory (\<lambda>store.
       let store = enqueue_all_of ms store; w = \<lparr>max_retries = retries, retry_backoff = backoff\<rparr>
       in if shutdown_initial then handle_await w store sink k
          else
            (case until_idle 9 fake_deliver w store sink of
               None \<Rightarrow> False
             | Some (store, sink) \<Rightarrow> unwrap (len store) (\<lambda>n store. n = target \<and> handle_await w store sink k)))"

subsection \<open>The tests\<close>

definition backoff_grows_exponentially_and_caps :: bool where
  "backoff_grows_exponentially_and_caps \<longleftrightarrow>
     backoff_seconds 60 0 900 = 0 \<and> backoff_seconds 60 1 900 = 60 \<and> backoff_seconds 60 2 900 = 120 \<and>
     backoff_seconds 60 3 900 = 240 \<and> backoff_seconds 60 10 900 = 900 \<and> backoff_seconds 0 5 900 = 0"

definition delivers_and_removes_a_message :: bool where
  "delivers_and_removes_a_message \<longleftrightarrow>
     spawn_worker [worker_msg ''hello''] fake_default 5 60 False 0
       (\<lambda>store sink. map msg_body (delivered sink) = [''hello''])"

definition retries_until_delivery_succeeds :: bool where
  "retries_until_delivery_succeeds \<longleftrightarrow>
     spawn_worker [worker_msg ''flaky''] (failing_first 2) 5 0 False 0
       (\<lambda>store sink. calls sink = 3 \<and> map msg_body (delivered sink) = [''flaky''])"

definition dead_letters_message_after_exhausting_retries :: bool where
  "dead_letters_message_after_exhausting_retries \<longleftrightarrow>
     spawn_worker [worker_msg ''doomed''] always_failing 2 0 False 0
       (\<lambda>store sink. calls sink = 3 \<and> unwrap (dead_letter_len store) (\<lambda>n store. n = 1))"

definition a_failing_message_does_not_block_others :: bool where
  "a_failing_message_does_not_block_others \<longleftrightarrow>
     spawn_worker [worker_msg ''bad'', worker_msg ''good''] (failing_bodies_containing ''bad'') 5 1000 False 1
       (\<lambda>store sink. map msg_body (delivered sink) = [''good''] \<and>
          unwrap (len store) (\<lambda>n store. n = 1 \<and>
          unwrap (claim_next_ready (test_now + 2000) store) (\<lambda>remaining store.
            map_option (\<lambda>c. msg_body (sm_message c)) remaining = Some ''bad'')))"

definition graceful_drain_flushes_all_ready_messages :: bool where
  "graceful_drain_flushes_all_ready_messages \<longleftrightarrow>
     spawn_worker (map (\<lambda>i. worker_msg (''m'' @ nat_str i)) [0..<5]) fake_default 5 60 True 0
       (\<lambda>store sink. unwrap (len store) (\<lambda>n store. n = 0 \<and> length (delivered sink) = 5))"

definition shutdown_leaves_parked_messages_persisted :: bool where
  "shutdown_leaves_parked_messages_persisted \<longleftrightarrow>
     spawn_worker [worker_msg ''retry-me''] always_failing 5 1000 True 1
       (\<lambda>store sink. calls sink = 1 \<and> unwrap (len store) (\<lambda>n store. n = 1))"

definition reuses_a_stable_idempotency_key_across_retries :: bool where
  "reuses_a_stable_idempotency_key_across_retries \<longleftrightarrow>
     spawn_worker [worker_msg ''k''] (failing_first 1) 5 0 False 0
       (\<lambda>store sink. length (fs_keys sink) = 2 \<and> fs_keys sink ! 0 = fs_keys sink ! 1 \<and>
          fs_keys sink ! 0 = ''chimney-post-1'')"

definition distinct_messages_get_distinct_idempotency_keys :: bool where
  "distinct_messages_get_distinct_idempotency_keys \<longleftrightarrow>
     spawn_worker [worker_msg ''a'', worker_msg ''b''] fake_default 5 60 False 0
       (\<lambda>store sink. fs_keys sink = [''chimney-post-1'', ''chimney-post-2''])"

definition idle_worker_stops_on_shutdown :: bool where
  "idle_worker_stops_on_shutdown \<longleftrightarrow> spawn_worker [] fake_default 5 60 False 0 (\<lambda>store sink. True)"

text \<open>The connector of the test fails twice; it counts its calls beside the sink.\<close>

definition connect_third :: "nat \<times> fake_sink \<Rightarrow> unit result \<times> nat \<times> fake_sink" where
  "connect_third s =
     (if fst s < 2 then (Inl (Matrix ''connect not ready''), fst s + 1, snd s) else (Inr (), fst s + 1, snd s))"

definition deliver_connected :: "message \<Rightarrow> string \<Rightarrow> nat \<times> fake_sink \<Rightarrow> unit result \<times> nat \<times> fake_sink" where
  "deliver_connected m key s = (case fake_deliver m key (snd s) of (r, snk) \<Rightarrow> (r, fst s, snk))"

fun until_connected :: "nat \<Rightarrow> ('s \<Rightarrow> unit result \<times> 's) \<Rightarrow> 's \<Rightarrow> 's option" where
  "until_connected 0 connect s = None"
| "until_connected (Suc fuel) connect s =
     (case reconnect_iter connect False s of
        (Claiming, s') \<Rightarrow> Some s'
      | (_, s') \<Rightarrow> until_connected fuel connect s')"

definition run_with_reconnect_delivers_after_failed_connects :: bool where
  "run_with_reconnect_delivers_after_failed_connects \<longleftrightarrow>
     opened open_in_memory (\<lambda>store.
     unwrap (enqueue (worker_msg ''q'') store) (\<lambda>_ store.
       let w = \<lparr>max_retries = 5, retry_backoff = 60\<rparr> in
       case until_connected 9 connect_third (0, fake_default) of
         None \<Rightarrow> False
       | Some s \<Rightarrow>
           (case until_idle 9 deliver_connected w store s of
              None \<Rightarrow> False
            | Some (store, s) \<Rightarrow>
                unwrap (len store) (\<lambda>n store. n = 0 \<and>
                  (case drain 9 deliver_connected w store s of
                     None \<Rightarrow> False
                   | Some (store, s) \<Rightarrow> 3 \<le> fst s \<and> map msg_body (delivered (snd s)) = [''q''])))))"

definition run_with_reconnect_stops_on_shutdown_while_disconnected :: bool where
  "run_with_reconnect_stops_on_shutdown_while_disconnected \<longleftrightarrow>
     opened open_in_memory (\<lambda>store.
     unwrap (enqueue (worker_msg ''stuck'') store) (\<lambda>_ store.
       let never = (\<lambda>s. (Inl (Matrix ''never''), s)) in
       fst (reconnect_iter never False fake_default) = Reconnect_wait \<and>
       fst (reconnect_iter never True fake_default) = Stopped \<and>
       unwrap (len store) (\<lambda>n store. n = 1)))"

lemma worker_tests_pass:
  backoff_grows_exponentially_and_caps
  delivers_and_removes_a_message
  retries_until_delivery_succeeds
  dead_letters_message_after_exhausting_retries
  a_failing_message_does_not_block_others
  graceful_drain_flushes_all_ready_messages
  shutdown_leaves_parked_messages_persisted
  reuses_a_stable_idempotency_key_across_retries
  distinct_messages_get_distinct_idempotency_keys
  idle_worker_stops_on_shutdown
  run_with_reconnect_delivers_after_failed_connects
  run_with_reconnect_stops_on_shutdown_while_disconnected
  by code_simp+

end
