(* ===== verification/Conformance_Dialogue.thy ===== *)
theory Conformance_Dialogue
  imports Smtp_Client Conformance_Mail Conformance_Config Conformance_Worker Program
begin

section \<open>The integration tests, run on the model\<close>

text \<open>
  The tests of \<^verbatim>\<open>tests/integration_test.rs\<close>, which talk to a running server over a socket. Here
  the client's writes are the chunks of the connection's stream and the replies are what the
  session has written: a client of the tests waits for each reply, so what it reads is the same.
  A client that goes away ends the stream. The dialogues of whole mails are instances of
  \<open>Smtp_Client\<close>; the others are evaluated. The crates are those of the unit tests' fixtures.

  Left out are the tests about sockets and time: the refusal of a connection over the limit and
  the session that outlives its deadline (\<open>reject\<close> and \<open>expire\<close> of \<open>server_step\<close>).
\<close>

subsection \<open>The vocabulary of the tests\<close>

definition test_config :: "string \<Rightarrow> usize \<Rightarrow> config" where
  "test_config bind max_size =
     \<lparr>cfg_smtp = \<lparr>smtp_bind = bind, max_message_size = max_size, smtp_timeout = 5,
                  max_connections = 100, max_session_seconds = 300\<rparr>,
      cfg_matrix = \<lparr>homeserver = ''https://example.org'', user_id = ''@bot:example.org'',
                    device_name = ''chimney-post'', room_id = ''!room:example.org'',
                    store_path = ''/tmp/matrix'', require_e2ee = True, message_template = default_message_template,
                    mx_routes = [],
                    credentials = \<lparr>password = Some ''test'', access_token = None, device_id = None\<rparr>\<rparr>,
      cfg_logging = \<lparr>log_level = ''info'', log_format = ''pretty''\<rparr>,
      cfg_queue = \<lparr>q_max_retries = 5, q_retry_backoff = 60, db_path = '':memory:'', q_max_len = 0\<rparr>\<rparr>"

definition reader_of :: "bytes list \<Rightarrow> buf_reader" where
  "reader_of writes = \<lparr>rd_buf = [], rd_events = map Chunk writes\<rparr>"

text \<open>A fresh server, one connection, and what the client then checks: the replies and the store.\<close>

definition start_test_server :: "config \<Rightarrow> message_store result" where
  "start_test_server cfg = open_with_max_len (memory_env empty_database) '':memory:'' (q_max_len (cfg_queue cfg))"

definition connection :: "config \<Rightarrow> bytes list \<Rightarrow> message_store \<Rightarrow> string list \<times> message_store" where
  "connection cfg writes st =
     (case handle_connection test_mailparse test_email (cfg_smtp cfg) (reader_of writes) [] st of
        (_, s, st1) \<Rightarrow> (s_out s, st1))"

definition on_server :: "config \<Rightarrow> bytes list \<Rightarrow> (string list \<Rightarrow> message_store \<Rightarrow> bool) \<Rightarrow> bool" where
  "on_server cfg writes k = opened (start_test_server cfg) (\<lambda>st. case connection cfg writes st of (out, st1) \<Rightarrow> k out st1)"

definition submit_message :: "string \<Rightarrow> bytes list" where
  "submit_message body =
     [wire ''MAIL FROM:<a@b.com>'', wire ''RCPT TO:<c@d.com>'', wire ''DATA'',
      ''Subject: '' @ body @ crlf @ crlf @ body @ crlf @ ''.'' @ crlf]"

definition test_store :: "usize \<Rightarrow> message_store" where
  "test_store n = \<lparr>conn = empty_database, notify = False, max_len = n, sql_faults = [], clock = replicate 60 (Some 7)\<rparr>"

lemma server_opens:
  "start_test_server cfg = Inr (test_store (q_max_len (cfg_queue cfg)))"
  by (simp add: start_test_server_def open_with_max_len_def memory_env_def test_store_def create_parent_def test_now_def)

text \<open>The connection a test makes.\<close>

abbreviation connected :: "config \<Rightarrow> bytes list \<Rightarrow> unit result \<times> session \<times> message_store" where
  "connected cfg writes \<equiv> handle_connection test_mailparse test_email (cfg_smtp cfg) (reader_of writes) []
     (test_store (q_max_len (cfg_queue cfg)))"

lemma on_server_iff: "on_server cfg writes k \<longleftrightarrow> k (s_out (fst (snd (connected cfg writes)))) (snd (snd (connected cfg writes)))"
  by (simp add: on_server_def server_opens opened_def connection_def split: prod.split)

subsection \<open>Refused commands\<close>

definition smtp_returns_502_on_unknown_command :: bool where
  "smtp_returns_502_on_unknown_command \<longleftrightarrow>
     on_server (test_config ''127.0.0.1:0'' 10240) [wire ''BOGUSCOMMAND arg'', wire ''QUIT'']
       (\<lambda>resp _. starts_with (resp ! 1) ''502'')"

definition smtp_rejects_malformed_mail_from :: bool where
  "smtp_rejects_malformed_mail_from \<longleftrightarrow>
     on_server (test_config ''127.0.0.1:0'' 10240)
       [wire ''MAIL FROMAGE:<a@b.com>'', wire ''MAIL FROM <a@b.com>'', wire ''QUIT'']
       (\<lambda>resp _. (starts_with (resp ! 1) ''501'' \<or> starts_with (resp ! 1) ''502'') \<and> starts_with (resp ! 2) ''501'')"

definition smtp_rejects_empty_rcpt_to :: bool where
  "smtp_rejects_empty_rcpt_to \<longleftrightarrow>
     on_server (test_config ''127.0.0.1:0'' 10240) [wire ''MAIL FROM:<a@b.com>'', wire ''RCPT TO:<>'', wire ''QUIT'']
       (\<lambda>resp _. starts_with (resp ! 2) ''501'')"

definition smtp_accepts_null_sender :: bool where
  "smtp_accepts_null_sender \<longleftrightarrow>
     on_server (test_config ''127.0.0.1:0'' 10240) [wire ''MAIL FROM:<>'', wire ''QUIT'']
       (\<lambda>resp _. starts_with (resp ! 1) ''250'')"

definition smtp_returns_503_on_data_before_mail_from :: bool where
  "smtp_returns_503_on_data_before_mail_from \<longleftrightarrow>
     on_server (test_config ''127.0.0.1:0'' 10240) [wire ''DATA'', wire ''QUIT'']
       (\<lambda>resp _. starts_with (resp ! 1) ''503'')"

lemma refusals:
  "s_out (fst (snd (handle_connection mp test_email cfg (reader_of [wire ''BOGUSCOMMAND arg'', wire ''QUIT'']) [] st))) =
     map (\<lambda>x. x @ crlf) [''220 chimney-post ESMTP'', ''502 Command not implemented'', ''221 Bye'']"
  "s_out (fst (snd (handle_connection mp test_email cfg
       (reader_of [wire ''MAIL FROMAGE:<a@b.com>'', wire ''MAIL FROM <a@b.com>'', wire ''QUIT'']) [] st))) =
     map (\<lambda>x. x @ crlf) [''220 chimney-post ESMTP'', ''501 Syntax error in MAIL FROM'', ''501 Syntax error in MAIL FROM'', ''221 Bye'']"
  "s_out (fst (snd (handle_connection mp test_email cfg
       (reader_of [wire ''MAIL FROM:<a@b.com>'', wire ''RCPT TO:<>'', wire ''QUIT'']) [] st))) =
     map (\<lambda>x. x @ crlf) [''220 chimney-post ESMTP'', ''250 OK'', ''501 Syntax error in RCPT TO'', ''221 Bye'']"
  "s_out (fst (snd (handle_connection mp test_email cfg (reader_of [wire ''MAIL FROM:<>'', wire ''QUIT'']) [] st))) =
     map (\<lambda>x. x @ crlf) [''220 chimney-post ESMTP'', ''250 OK'', ''221 Bye'']"
  "s_out (fst (snd (handle_connection mp test_email cfg (reader_of [wire ''DATA'', wire ''QUIT'']) [] st))) =
     map (\<lambda>x. x @ crlf) [''220 chimney-post ESMTP'', ''503 Bad sequence of commands'', ''221 Bye'']"
  by code_simp+

lemma refusal_tests_pass:
  smtp_returns_502_on_unknown_command
  smtp_rejects_malformed_mail_from
  smtp_rejects_empty_rcpt_to
  smtp_accepts_null_sender
  smtp_returns_503_on_data_before_mail_from
  by (simp_all add: smtp_returns_502_on_unknown_command_def smtp_rejects_malformed_mail_from_def
      smtp_rejects_empty_rcpt_to_def smtp_accepts_null_sender_def smtp_returns_503_on_data_before_mail_from_def
      on_server_iff refusals starts_with_def)

subsection \<open>Configuration and binding\<close>

definition config_rejects_both_credentials :: bool where
  "config_rejects_both_credentials \<longleftrightarrow>
     rejected_with (validates ((test_config ''127.0.0.1:2525'' 1024)\<lparr>cfg_matrix :=
       (cfg_matrix (test_config ''127.0.0.1:2525'' 1024))\<lparr>credentials :=
         \<lparr>password = Some ''pass'', access_token = Some ''token'', device_id = Some ''dev''\<rparr>\<rparr>\<rparr>)) ''not both''"

text \<open>The socket is the operating system's: it grants every address.\<close>

definition bind_smtp_rejects_an_invalid_address :: bool where
  "bind_smtp_rejects_an_invalid_address \<longleftrightarrow>
     \<not> is_ok (bind_smtp (\<lambda>_. Inr ()) (test_config ''not-a-socket-address'' 1024))"

definition bind_smtp_succeeds_on_a_valid_address :: bool where
  "bind_smtp_succeeds_on_a_valid_address \<longleftrightarrow> is_ok (bind_smtp (\<lambda>_. Inr ()) (test_config ''127.0.0.1:0'' 1024))"

lemma addresses:
  "parse_socket_addr ''127.0.0.1:0'' = Some (V4 [127, 0, 0, 1], 0)" "parse_socket_addr ''not-a-socket-address'' = None"
  by (simp_all add: socket_addr_defs)

lemma binding_tests_pass: bind_smtp_rejects_an_invalid_address bind_smtp_succeeds_on_a_valid_address
  by (simp_all add: bind_smtp_rejects_an_invalid_address_def bind_smtp_succeeds_on_a_valid_address_def
      bind_smtp_def test_config_def addresses)

lemma both_credentials_test_passes: config_rejects_both_credentials
proof -
  let ?c = "test_config ''127.0.0.1:2525'' 1024"
  let ?both = "\<lparr>password = Some ''pass'', access_token = Some ''token'', device_id = Some ''dev''\<rparr>"
  have s: "check_smtp (cfg_smtp ?c) = Inr ()"
    unfolding check_smtp_ok by (simp add: test_config_def parse_socket_addr_examples)
  have "\<not> is_blank '':memory:''" by code_simp
  then have q: "check_queue (cfg_queue ?c) = Inr ()" unfolding check_queue_ok by (simp add: test_config_def)
  have a: "check_account test_ids ((cfg_matrix ?c)\<lparr>credentials := ?both\<rparr>) = Inr ()"
    by (simp add: test_config_def, code_simp)
  have "rejected_with (check_credentials ?both) ''not both''" by code_simp
  with s q a show ?thesis
    by (auto simp: config_rejects_both_credentials_def validate_def first_error.simps rejected_with_def split: sum.splits)
qed

subsection \<open>Whole messages\<close>

definition smtp_returns_451_when_queue_is_full :: bool where
  "smtp_returns_451_when_queue_is_full \<longleftrightarrow>
     (let cfg = test_config ''127.0.0.1:0'' 10240
      in on_server (cfg\<lparr>cfg_queue := (cfg_queue cfg)\<lparr>q_max_len := 1\<rparr>\<rparr>) (submit_message ''one'' @ submit_message ''two'')
        (\<lambda>resp _. starts_with (resp ! 4) ''250'' \<and> starts_with (resp ! 8) ''451''))"

definition submitted :: "string \<Rightarrow> mail" where
  "submitted body = \<lparr>ml_from = ''a@b.com'', ml_to = [''c@d.com''], ml_lines = [''Subject: '' @ body @ crlf, crlf, body @ crlf]\<rparr>"

lemma submit_message_bytes:
  "\<not> starts_with (body @ crlf) ''.'' \<Longrightarrow> concat (submit_message body) = mail_bytes (submitted body)"
  by (simp add: submit_message_def mail_bytes_def submitted_def path_line_def wire_def stuff_def) (simp add: starts_with_def)

lemma stream_of_writes: "stream_of (reader_of ws) = concat ws" "[] \<notin> set ws \<Longrightarrow> healthy (reader_of ws)"
  by (auto simp: stream_of_def reader_of_def healthy_def o_def)

lemma submitted_sendable:
  "sendable test_email (cfg_smtp (test_config b 10240)) (submitted ''one'')"
  "sendable test_email (cfg_smtp (test_config b 10240)) (submitted ''two'')"
  "sendable test_email (cfg_smtp (test_config b 10240)) (submitted ''survive me'')"
proof -
  have *: "mailbox ''a@b.com'' \<and> test_email ''a@b.com''" "mailbox ''c@d.com'' \<and> test_email ''c@d.com''" by code_simp+
  show "sendable test_email (cfg_smtp (test_config b 10240)) (submitted ''one'')"
    "sendable test_email (cfg_smtp (test_config b 10240)) (submitted ''two'')"
    "sendable test_email (cfg_smtp (test_config b 10240)) (submitted ''survive me'')"
    using * by (simp_all add: sendable_def submitted_def test_config_def is_line_def)
qed

lemma big_enough: "max_message_size (cfg_smtp (test_config b 10240)) + 4 \<le> usize_max"
  by (simp add: test_config_def usize_max_def)

text \<open>What a test sees of a client that sends whole mails: \<open>submit_all\<close> tells.\<close>

lemma on_server_mails:
  assumes "cfg_smtp cfg = cfg_smtp (test_config b 10240)" and "concat ws = concat (map mail_bytes ms)" and "[] \<notin> set ws"
    and "\<forall>m\<in>set ms. sendable test_email (cfg_smtp cfg) m"
    and "k (map (\<lambda>x. x @ crlf) (''220 chimney-post ESMTP'' # fst (submit_all test_mailparse ms (test_store (q_max_len (cfg_queue cfg))))))
      (snd (submit_all test_mailparse ms (test_store (q_max_len (cfg_queue cfg)))))"
  shows "on_server cfg ws k"
proof -
  have sz: "max_message_size (cfg_smtp cfg) + 4 \<le> usize_max" using big_enough [of b] assms(1) by simp
  have w: "stream_of (reader_of ws) = concat (map mail_bytes ms)" using assms(2) by (simp add: stream_of_writes)
  from submitted_then_gone [OF stream_of_writes(2) [OF assms(3)] w assms(4) sz, of test_mailparse] assms(5)
  show ?thesis unfolding on_server_iff by (metis fst_conv snd_conv)
qed

lemma on_server_client:
  assumes "cfg = test_config b 10240" and "concat ws = client_bytes ''test'' [m]" and "[] \<notin> set ws"
    and "sendable test_email (cfg_smtp cfg) m"
    and "\<And>size. k (map (\<lambda>x. x @ crlf) ([''220 chimney-post ESMTP'', ''250-chimney-post'' @ crlf @ ''250 SIZE '' @ size] @
      fst (submit_all test_mailparse [m] (test_store 0)) @ [''221 Bye''])) (snd (submit_all test_mailparse [m] (test_store 0)))"
  shows "on_server cfg ws k"
proof -
  have sz: "max_message_size (cfg_smtp cfg) + 4 \<le> usize_max" using big_enough assms(1) by simp
  have w: "stream_of (reader_of ws) = client_bytes ''test'' [m] @ []" using assms(2) by (simp add: stream_of_writes)
  have t: "command_text (''EHLO '' @ ''test'')" by code_simp
  have m: "\<forall>m\<in>set [m]. sendable test_email (cfg_smtp cfg) m" using assms(4) by simp
  have q: "q_max_len (cfg_queue cfg) = 0" by (simp add: assms(1) test_config_def)
  from client_dialogue [OF stream_of_writes(2) [OF assms(3)] w t m sz, of test_mailparse "test_store 0"] assms(5)
  show ?thesis unfolding on_server_iff q by (metis fst_conv snd_conv)
qed

lemma queue_full_test_passes: smtp_returns_451_when_queue_is_full
proof -
  let ?ms = "[submitted ''one'', submitted ''two'']"
  have "\<not> starts_with (''one'' @ crlf) ''.''" "\<not> starts_with (''two'' @ crlf) ''.''" by (simp_all add: starts_with_def)
  then have w: "concat (submit_message ''one'' @ submit_message ''two'') = concat (map mail_bytes ?ms)"
    using submit_message_bytes by simp
  have "fst (submit_all test_mailparse ?ms (test_store 1)) =
      [ok_reply, ok_reply, go_ahead, ok_reply, ok_reply, ok_reply, go_ahead,
       ''451 Requested action aborted: local error in processing'']" by code_simp
  then show ?thesis unfolding smtp_returns_451_when_queue_is_full_def Let_def
    by (intro on_server_mails [OF _ w]) (auto simp: submitted_sendable submit_message_def wire_def ok_reply_def starts_with_def)
qed

text \<open>A session of the client of RFC 5321; the message is then claimed from the store.\<close>

definition smtp_full_session_delivers_message :: bool where
  "smtp_full_session_delivers_message \<longleftrightarrow>
     on_server (test_config ''127.0.0.1:0'' 10240)
       [wire ''EHLO test'', wire ''MAIL FROM:<sender@example.com>'', wire ''RCPT TO:<recipient@example.com>'', wire ''DATA'',
        ''Subject: Test'' @ crlf @ crlf @ ''Hello world'' @ crlf @ ''.'' @ crlf, wire ''QUIT'']
       (\<lambda>resp store.
         starts_with (resp ! 0) ''220'' \<and> contains (resp ! 1) ''250'' \<and> contains (resp ! 1) ''SIZE'' \<and>
         starts_with (resp ! 2) ''250'' \<and> starts_with (resp ! 3) ''250'' \<and> starts_with (resp ! 4) ''354'' \<and>
         starts_with (resp ! 5) ''250'' \<and> starts_with (resp ! 6) ''221'' \<and>
         unwrap (claim_next_ready test_now store) (\<lambda>stored _.
           case stored of
             None \<Rightarrow> False
           | Some sm \<Rightarrow> msg_from (sm_message sm) = Some ''sender@example.com'' \<and>
               msg_to (sm_message sm) = [''recipient@example.com''] \<and> msg_subject (sm_message sm) = Some ''Test'' \<and>
               contains (msg_body (sm_message sm)) ''Hello world''))"

lemma ehlo_reply:
  "contains ((''250-chimney-post'' @ crlf @ ''250 SIZE '' @ x) @ crlf) ''250''"
  "contains ((''250-chimney-post'' @ crlf @ ''250 SIZE '' @ x) @ crlf) ''SIZE''"
  by code_simp+

lemma full_session_test_passes: smtp_full_session_delivers_message
proof -
  let ?m = "\<lparr>ml_from = ''sender@example.com'', ml_to = [''recipient@example.com''],
    ml_lines = [''Subject: Test'' @ crlf, crlf, ''Hello world'' @ crlf]\<rparr>"
  have "mailbox ''sender@example.com'' \<and> test_email ''sender@example.com''"
    "mailbox ''recipient@example.com'' \<and> test_email ''recipient@example.com''" by code_simp+
  then have m: "sendable test_email (cfg_smtp (test_config ''127.0.0.1:0'' 10240)) ?m"
    by (simp add: sendable_def test_config_def is_line_def)
  have out: "fst (submit_all test_mailparse [?m] (test_store 0)) = [ok_reply, ok_reply, go_ahead, ok_reply]" by code_simp
  have claim: "unwrap (claim_next_ready test_now (snd (submit_all test_mailparse [?m] (test_store 0)))) (\<lambda>stored _.
      case stored of
        None \<Rightarrow> False
      | Some sm \<Rightarrow> msg_from (sm_message sm) = Some ''sender@example.com'' \<and>
          msg_to (sm_message sm) = [''recipient@example.com''] \<and> msg_subject (sm_message sm) = Some ''Test'' \<and>
          contains (msg_body (sm_message sm)) ''Hello world'')" by code_simp
  show ?thesis unfolding smtp_full_session_delivers_message_def
  proof (rule on_server_client [OF refl _ _ m], goal_cases)
    case 1
    show ?case by (simp add: client_bytes_def mail_bytes_def path_line_def wire_def stuff_def starts_with_def)
  next
    case 2
    show ?case by (simp add: wire_def)
  next
    case (3 size)
    show ?case unfolding out using claim ehlo_reply [of size] by (simp add: ok_reply_def go_ahead_def starts_with_def)
  qed
qed

definition record_body :: "message \<Rightarrow> string \<Rightarrow> string list \<Rightarrow> unit result \<times> string list" where
  "record_body m key bodies = (Inr (), bodies @ [msg_body m])"

definition message_survives_crash_and_is_redelivered_on_restart :: bool where
  "message_survives_crash_and_is_redelivered_on_restart \<longleftrightarrow>
     (let w = \<lparr>max_retries = 5, retry_backoff = 0\<rparr>
      in on_server (test_config ''127.0.0.1:0'' 10240) (submit_message ''survive me'')
        (\<lambda>resp store. starts_with (resp ! 4) ''250'' \<and>
          unwrap (len store) (\<lambda>n store. n = 1 \<and>
          opened (open_with_max_len (memory_env (conn store)) '':memory:'' 0) (\<lambda>store2.
          unwrap (len store2) (\<lambda>n store2. n = 1 \<and>
            (case until_idle 9 record_body w store2 [] of
               None \<Rightarrow> False
             | Some (store3, sink) \<Rightarrow> unwrap (len store3) (\<lambda>n store3. n = 0 \<and>
                 (case drain 9 record_body w store3 sink of
                    None \<Rightarrow> False
                  | Some (_, bodies) \<Rightarrow> length bodies = 1 \<and> contains (bodies ! 0) ''survive me''))))))))"

lemma crash_test_passes: message_survives_crash_and_is_redelivered_on_restart
proof -
  let ?ms = "[submitted ''survive me'']" and ?w = "\<lparr>max_retries = 5, retry_backoff = 0\<rparr>"
  have "\<not> starts_with (''survive me'' @ crlf) ''.''" by (simp add: starts_with_def)
  then have w: "concat (submit_message ''survive me'') = concat (map mail_bytes ?ms)" using submit_message_bytes by simp
  have out: "fst (submit_all test_mailparse ?ms (test_store 0)) = [ok_reply, ok_reply, go_ahead, ok_reply]" by code_simp
  have after: "unwrap (len (snd (submit_all test_mailparse ?ms (test_store 0)))) (\<lambda>n store. n = 1 \<and>
      opened (open_with_max_len (memory_env (conn store)) '':memory:'' 0) (\<lambda>store2.
      unwrap (len store2) (\<lambda>n store2. n = 1 \<and>
        (case until_idle 9 record_body ?w store2 [] of
           None \<Rightarrow> False
         | Some (store3, sink) \<Rightarrow> unwrap (len store3) (\<lambda>n store3. n = 0 \<and>
             (case drain 9 record_body ?w store3 sink of
                None \<Rightarrow> False
              | Some (_, bodies) \<Rightarrow> length bodies = 1 \<and> contains (bodies ! 0) ''survive me''))))))" by code_simp
  have q: "q_max_len (cfg_queue (test_config ''127.0.0.1:0'' 10240)) = 0" by (simp add: test_config_def)
  show ?thesis unfolding message_survives_crash_and_is_redelivered_on_restart_def Let_def
  proof (rule on_server_mails [OF refl w], goal_cases)
    case 3
    show ?case unfolding q out using after by (simp add: ok_reply_def starts_with_def)
  qed (simp_all add: submitted_sendable submit_message_def wire_def)
qed

definition multipart_message :: "string list" where
  "multipart_message =
     [''Subject: Email setting test'',
      ''MIME-Version: 1.0'',
      ''Content-Type: multipart/alternative; boundary=ZkhUrnZN'',
      [],
      ''--ZkhUrnZN'',
      ''Content-Type: text/plain; charset=utf-8'',
      ''Content-Transfer-Encoding: quoted-printable'',
      [],
      ''If you received this email, the email configuration ='',
      ''seems to be correct.'',
      ''--ZkhUrnZN'',
      ''Content-Type: text/html; charset=utf-8'',
      ''Content-Transfer-Encoding: quoted-printable'',
      [],
      ''<html><body><p style=3D'' @ [CHR 0x22] @ ''color:#fff'' @ [CHR 0x22] @ ''>markup</p></body></html>'',
      ''--ZkhUrnZN--'']"

lemma ascii_valid: "list_all (\<lambda>c. \<not> digit7 c) s \<Longrightarrow> utf8_valid s"
proof (induction s)
  case (Cons c s)
  then have "byte c < 0x80" by (cases c) (simp add: of_char_Char of_bool_def)
  with Cons show ?case by (simp add: utf8_head_def)
qed simp

lemma multipart_valid: "utf8_valid (mail_of multipart_message)"
  by (rule ascii_valid) code_simp

definition smtp_queues_a_multipart_message_as_readable_text :: bool where
  "smtp_queues_a_multipart_message_as_readable_text \<longleftrightarrow>
     on_server (test_config ''127.0.0.1:0'' 10240)
       [wire ''EHLO test'', wire ''MAIL FROM:<nextcloud@mail.example.org>'', wire ''RCPT TO:<alerts@chimney>'', wire ''DATA'',
        mail_of (multipart_message @ [''.'']), wire ''QUIT'']
       (\<lambda>resp store. starts_with (resp ! 5) ''250'' \<and>
         unwrap (claim_next_ready test_now store) (\<lambda>stored _.
           case stored of
             None \<Rightarrow> False
           | Some sm \<Rightarrow> msg_subject (sm_message sm) = Some ''Email setting test'' \<and>
               msg_body (sm_message sm) = ''If you received this email, the email configuration seems to be correct.''))"

lemma multipart_test_passes: smtp_queues_a_multipart_message_as_readable_text
proof -
  let ?m = "\<lparr>ml_from = ''nextcloud@mail.example.org'', ml_to = [''alerts@chimney''],
    ml_lines = map (\<lambda>l. l @ crlf) multipart_message\<rparr>"
  have "mailbox ''nextcloud@mail.example.org'' \<and> test_email ''nextcloud@mail.example.org''"
    "mailbox ''alerts@chimney'' \<and> test_email ''alerts@chimney''" by code_simp+
  then have m: "sendable test_email (cfg_smtp (test_config ''127.0.0.1:0'' 10240)) ?m"
    by (simp add: sendable_def test_config_def is_line_def multipart_message_def)
  have "parse test_mailparse (mail_of multipart_message) = Some \<lparr>mime_subject = Some ''Email setting test'',
      mime_body = ''If you received this email, the email configuration seems to be correct.''\<rparr>"
    by (subst parse_mail_of) code_simp+
  then have p: "mail_message test_mailparse ?m = \<lparr>msg_from = Some ''nextcloud@mail.example.org'', msg_to = [''alerts@chimney''],
      msg_subject = Some ''Email setting test'',
      msg_body = ''If you received this email, the email configuration seems to be correct.''\<rparr>"
    using from_utf8_lossy_id [OF multipart_valid] by (simp add: mail_message_def parse_data_def mail_of_def)
  have "fst (enqueue (mail_message test_mailparse ?m) (test_store 0)) = Inr 1" unfolding p by code_simp
  then have out: "fst (submit_all test_mailparse [?m] (test_store 0)) = [ok_reply, ok_reply, go_ahead, ok_reply]"
    and st: "snd (submit_all test_mailparse [?m] (test_store 0)) = snd (enqueue (mail_message test_mailparse ?m) (test_store 0))"
    by (auto split: prod.split)
  have claim: "unwrap (claim_next_ready test_now (snd (enqueue (mail_message test_mailparse ?m) (test_store 0)))) (\<lambda>stored _.
      case stored of
        None \<Rightarrow> False
      | Some sm \<Rightarrow> msg_subject (sm_message sm) = Some ''Email setting test'' \<and>
          msg_body (sm_message sm) = ''If you received this email, the email configuration seems to be correct.'')"
    unfolding p by code_simp
  show ?thesis unfolding smtp_queues_a_multipart_message_as_readable_text_def
  proof (rule on_server_client [OF refl _ _ m], goal_cases)
    case 1
    show ?case by (simp add: client_bytes_def mail_bytes_def path_line_def wire_def stuff_def starts_with_def
        mail_of_def multipart_message_def)
  next
    case 2
    show ?case by (simp add: wire_def mail_of_def)
  next
    case 3
    show ?case unfolding out st using claim by (simp add: ok_reply_def starts_with_def)
  qed
qed

subsection \<open>Broken and oversized input\<close>

definition smtp_discards_truncated_data_on_premature_disconnect :: bool where
  "smtp_discards_truncated_data_on_premature_disconnect \<longleftrightarrow>
     on_server (test_config ''127.0.0.1:0'' 10240)
       [wire ''MAIL FROM:<a@b.com>'', wire ''RCPT TO:<c@d.com>'', wire ''DATA'', ''Subject: partial'' @ crlf @ crlf @ ''half a mess'']
       (\<lambda>_ store. unwrap (len store) (\<lambda>n _. n = 0))"

lemma truncated_test_passes: smtp_discards_truncated_data_on_premature_disconnect
proof -
  let ?cfg = "test_config ''127.0.0.1:0'' 10240"
  let ?ws = "[wire ''MAIL FROM:<a@b.com>'', wire ''RCPT TO:<c@d.com>'', wire ''DATA'', ''Subject: partial'' @ crlf @ crlf @ ''half a mess'']"
  have h: "healthy (reader_of ?ws)" by (rule stream_of_writes(2)) (simp add: wire_def)
  from greeted [OF this refl] obtain s where s: "connected ?cfg ?ws =
      connection_loop test_mailparse test_email (cfg_smtp ?cfg) s (test_store (q_max_len (cfg_queue ?cfg)))"
    "healthy (s_reader s)" "stream_of (s_reader s) = concat ?ws"
    by (fastforce simp: at_turn_def stream_of_writes)
  have "endless (concat ?ws)" by code_simp
  with s(2,3) connection_loop_endless [of test_mailparse test_email "cfg_smtp ?cfg" s]
  have "snd (snd (connected ?cfg ?ws)) = test_store (q_max_len (cfg_queue ?cfg))"
    unfolding s(1) by (metis prod.collapse)
  moreover have "q_max_len (cfg_queue ?cfg) = 0" by (simp add: test_config_def)
  moreover have "unwrap (len (test_store 0)) (\<lambda>n _. n = 0)" by code_simp
  ultimately show ?thesis
    unfolding smtp_discards_truncated_data_on_premature_disconnect_def on_server_iff by simp
qed

text \<open>A chunk without a line feed that is longer than the limit is an error, and stays in the buffer.\<close>

lemma long_chunk:
  assumes "LF \<notin> set c" and "c \<noteq> []" and "mx < length c"
  shows "read_line_limited_bytes \<lparr>rd_buf = [], rd_events = Chunk c # evs\<rparr> [] mx =
     (Done (Inl SmtpLineTooLong), [], \<lparr>rd_buf = c, rd_events = evs\<rparr>)"
proof -
  have "position (\<lambda>b. b = LF) c = None" using assms(1) by (auto simp: position_None)
  with assms(2,3) show ?thesis
    unfolding read_line_limited_bytes_def by (subst read_line_loop.simps) (simp add: fill_buf_def Let_def)
qed

definition smtp_returns_500_on_oversized_command_line :: bool where
  "smtp_returns_500_on_oversized_command_line \<longleftrightarrow>
     on_server (test_config ''127.0.0.1:0'' 10240) [replicate 5000 (CHR ''A'')] (\<lambda>resp _. starts_with (resp ! 1) ''500'')"

lemma long_command_test_passes: smtp_returns_500_on_oversized_command_line
proof -
  let ?cfg = "test_config ''127.0.0.1:0'' 10240" and ?c = "replicate 5000 (CHR ''A'')"
  have "read_line_limited_bytes (reader_of [?c]) [] MAX_COMMAND_LINE_BYTES =
      (Done (Inl SmtpLineTooLong), [], \<lparr>rd_buf = ?c, rd_events = []\<rparr>)"
    unfolding reader_of_def list.map by (rule long_chunk) (simp_all add: MAX_COMMAND_LINE_BYTES_def)
  then have r: "read_line_limited (reader_of [?c]) [] MAX_COMMAND_LINE_BYTES =
      (Done (Inl SmtpLineTooLong), [], \<lparr>rd_buf = ?c, rd_events = []\<rparr>)" by (simp add: read_line_limited_def)
  have "s_out (fst (snd (connected ?cfg [?c]))) = map (\<lambda>x. x @ crlf) [''220 chimney-post ESMTP'', ''500 Line too long'']"
    by (simp add: handle_connection_def reply_def write_all_def new_session_def connection_loop.simps session_turn_def r
        del: replicate.simps)
  then show ?thesis
    unfolding smtp_returns_500_on_oversized_command_line_def on_server_iff by (simp add: starts_with_def)
qed

lemma refused_block:
  assumes "at_turn s (path_line ''MAIL FROM'' ''a@b.com'' @ path_line ''RCPT TO'' ''c@d.com'' @ wire ''DATA'' @ block) out None []"
    and "max_message_size cfg + 4 < length (first_line block)" and "max_message_size cfg + 4 \<le> usize_max"
  shows "\<exists>x. s_out (fst (snd (connection_loop mp test_email cfg s st))) =
    map (\<lambda>x. x @ crlf) (out @ [ok_reply, ok_reply, go_ahead, ''552 Message size exceeded'']) @ x"
proof -
  have a: "mailbox ''a@b.com''" "test_email ''a@b.com''" "mailbox ''c@d.com''" "test_email ''c@d.com''" by code_simp+
  from turn_mail_from [OF assms(1) a(1), of test_email mp cfg st] a(2) obtain s1 where
    s1: "session_turn mp test_email cfg s st = (Continue, s1, st)"
      "at_turn s1 (path_line ''RCPT TO'' ''c@d.com'' @ wire ''DATA'' @ block) (out @ [ok_reply]) (Some ''a@b.com'') []" by blast
  from turn_rcpt_to [where v = test_email, OF s1(2) a(3) _ a(4), of mp cfg st] obtain s2 where
    s2: "session_turn mp test_email cfg s1 st = (Continue, s2, st)"
      "at_turn s2 (wire ''DATA'' @ block) ((out @ [ok_reply]) @ [ok_reply]) (Some ''a@b.com'') [''c@d.com'']" by auto
  from turn_data_oversized [OF s2(2) _ assms(2,3), of mp test_email st] obtain s3 where
    s3: "session_turn mp test_email cfg s2 st = (Continue, s3, st)"
      "s_out s3 = map (\<lambda>x. x @ crlf) (((out @ [ok_reply]) @ [ok_reply]) @ [go_ahead, ''552 Message size exceeded''])" by blast
  have "connection_loop mp test_email cfg s st = connection_loop mp test_email cfg s3 st"
    using loop_turn [OF s1(1)] loop_turn [OF s2(1)] loop_turn [OF s3(1)] by simp
  moreover obtain q s' st' where "connection_loop mp test_email cfg s3 st = (q, s', st')" by (metis prod_cases3)
  moreover from loop_replies_kept [OF this] obtain x where "s_out s' = s_out s3 @ x" by blast
  ultimately show ?thesis using s3(2) by simp
qed

definition smtp_returns_552_on_oversized_message :: bool where
  "smtp_returns_552_on_oversized_message \<longleftrightarrow>
     on_server (test_config ''127.0.0.1:0'' 32)
       [wire ''EHLO test'', wire ''MAIL FROM:<a@b.com>'', wire ''RCPT TO:<c@d.com>'', wire ''DATA'',
        ''Subject: This is a very long subject line that exceeds the tiny limit'' @ crlf @ ''.'' @ crlf]
       (\<lambda>resp _. starts_with (resp ! 5) ''552'')"

definition smtp_returns_552_on_oversized_data_line_without_newline :: bool where
  "smtp_returns_552_on_oversized_data_line_without_newline \<longleftrightarrow>
     on_server (test_config ''127.0.0.1:0'' 64)
       [wire ''MAIL FROM:<a@b.com>'', wire ''RCPT TO:<c@d.com>'', wire ''DATA'', replicate 4000 (CHR ''X'')]
       (\<lambda>resp _. starts_with (resp ! 4) ''552'')"

lemma oversized_line_test_passes: smtp_returns_552_on_oversized_data_line_without_newline
proof -
  let ?cfg = "test_config ''127.0.0.1:0'' 64" and ?x = "replicate 4000 (CHR ''X'')"
  let ?ws = "[wire ''MAIL FROM:<a@b.com>'', wire ''RCPT TO:<c@d.com>'', wire ''DATA'', ?x]"
  have h: "healthy (reader_of ?ws)" by (rule stream_of_writes(2)) (simp add: wire_def)
  have w: "stream_of (reader_of ?ws) =
      path_line ''MAIL FROM'' ''a@b.com'' @ path_line ''RCPT TO'' ''c@d.com'' @ wire ''DATA'' @ ?x"
    by (simp add: stream_of_writes path_line_def)
  have "position (\<lambda>b. b = LF) ?x = None" by (auto simp: position_None simp del: replicate.simps)
  then have "length (first_line ?x) = 4000" by (simp add: first_line_def)
  then have sz: "max_message_size (cfg_smtp ?cfg) + 4 < length (first_line ?x)" "max_message_size (cfg_smtp ?cfg) + 4 \<le> usize_max"
    by (simp_all add: test_config_def usize_max_def)
  from greeted [OF h w] obtain s where s: "connected ?cfg ?ws =
      connection_loop test_mailparse test_email (cfg_smtp ?cfg) s (test_store (q_max_len (cfg_queue ?cfg)))"
    "at_turn s (path_line ''MAIL FROM'' ''a@b.com'' @ path_line ''RCPT TO'' ''c@d.com'' @ wire ''DATA'' @ ?x)
      [''220 chimney-post ESMTP''] None []" by blast
  from refused_block [OF s(2) sz, of test_mailparse "test_store (q_max_len (cfg_queue ?cfg))"] show ?thesis
    unfolding smtp_returns_552_on_oversized_data_line_without_newline_def on_server_iff s(1)
    by (auto simp: starts_with_def)
qed

lemma oversized_message_test_passes: smtp_returns_552_on_oversized_message
proof -
  let ?cfg = "test_config ''127.0.0.1:0'' 32"
  let ?block = "''Subject: This is a very long subject line that exceeds the tiny limit'' @ crlf @ ''.'' @ crlf"
  let ?mail = "path_line ''MAIL FROM'' ''a@b.com'' @ path_line ''RCPT TO'' ''c@d.com'' @ wire ''DATA'' @ ?block"
  let ?ws = "[wire ''EHLO test'', wire ''MAIL FROM:<a@b.com>'', wire ''RCPT TO:<c@d.com>'', wire ''DATA'', ?block]"
  let ?st = "test_store (q_max_len (cfg_queue ?cfg))"
  have h: "healthy (reader_of ?ws)" by (rule stream_of_writes(2)) (simp add: wire_def)
  have w: "stream_of (reader_of ?ws) = wire (''EHLO '' @ ''test'') @ ?mail" by (simp add: stream_of_writes path_line_def)
  have t: "command_text (''EHLO '' @ ''test'')" by code_simp
  have sz: "max_message_size (cfg_smtp ?cfg) + 4 < length (first_line ?block)" "max_message_size (cfg_smtp ?cfg) + 4 \<le> usize_max"
    by (simp_all add: first_line_def test_config_def usize_max_def)
  from greeted [OF h w] obtain s where s: "connected ?cfg ?ws =
      connection_loop test_mailparse test_email (cfg_smtp ?cfg) s ?st"
    "at_turn s (wire (''EHLO '' @ ''test'') @ ?mail) [''220 chimney-post ESMTP''] None []" by blast
  from turn_ehlo [OF s(2) t, of test_mailparse test_email "cfg_smtp ?cfg" ?st] obtain s1 where
    s1: "session_turn test_mailparse test_email (cfg_smtp ?cfg) s ?st = (Continue, s1, ?st)"
    "at_turn s1 ?mail ([''220 chimney-post ESMTP''] @
       [''250-chimney-post'' @ crlf @ ''250 SIZE '' @ nat_str (max_message_size (cfg_smtp ?cfg))]) None []" by blast
  from refused_block [OF s1(2) sz, of test_mailparse ?st] show ?thesis
    unfolding smtp_returns_552_on_oversized_message_def on_server_iff s(1) loop_turn [OF s1(1)]
    by (auto simp: starts_with_def)
qed

end
