(* ===== verification/Spec2Isabelle.thy ===== *)
theory Spec2Isabelle
  imports Recovery Conformance_Dialogue
begin

text \<open>
  A verification library for chimney-post, a relay that accepts mail over SMTP, keeps it in a
  persistent queue and forwards it to Matrix rooms.

  \<^bold>\<open>The program.\<close> \<open>main\<close> loads and validates the configuration, opens the queue, binds the SMTP
  listener, reports readiness, and runs three tasks over the shared store until a signal: the
  listener with a task per connection, the delivery worker with the Matrix client, and the
  monitor. A session stores a message before it replies 250; the store wakes the worker by a
  permit; the worker claims the earliest due row, sends it under a transaction id made of the
  row id, and removes, reschedules or dead-letters the row.

  \<^bold>\<open>Theories and sources.\<close>
  \<^item> \<open>Prelude\<close>, \<open>Rust_Text\<close>: the machine integers (\<open>u32\<close>, \<open>u64\<close> as words; \<open>i64\<close> as \<open>int\<close> with its
    range and \<open>wrap_i64\<close>; \<open>usize\<close> as \<open>nat\<close> with the saturating operations written out), lists,
    and the functions of Rust's \<open>str\<close>, \<open>char\<close> and UTF-8 decoding the sources use. Text is a list
    of bytes (\<open>string\<close>), so lengths and indices are Rust's.
  \<^item> \<open>Errors\<close>: \<^verbatim>\<open>src/error.rs\<close>. A fallible function returns \<open>chimney_error + 'a\<close>.
  \<^item> \<open>Interfaces\<close>: the contracts between the parts, as locales: \<open>step_invariant\<close> (state
    machines) and its extension \<open>simulation\<close> (refinement between them), \<open>durable_queue\<close> (what
    sessions and worker rely on in the store), \<open>delivery_sink\<close> (the trait \<open>MessageSink\<close>), and in
    \<open>Worker_Run\<close> its extension \<open>worker_env\<close>.
  \<^item> \<open>Store\<close>: \<^verbatim>\<open>src/queue/store.rs\<close>. The two tables and their counters, one definition per SQL
    statement and per method; storage failures and clock readings come from lists in the
    state. It interprets \<open>durable_queue\<close>.
  \<^item> \<open>Worker\<close>, \<open>Delivery\<close>: \<^verbatim>\<open>src/queue/worker.rs\<close>. \<open>run_iter\<close> is one undisturbed turn of
    \<open>DeliveryWorker::run\<close>, \<open>task_step\<close> the turn in its interleavable steps with the connect loop,
    \<open>worker_step\<close> the task among arriving mail, shutdown, failures and crashes.
  \<^item> \<open>Relay\<close>: the specification, a step relation on what becomes of messages. \<open>Worker_Run\<close> shows that
    \<open>worker_step\<close> refines it, for every sink that keeps \<open>worker_env\<close>.
  \<^item> \<open>Smtp_Reader\<close>, \<open>Smtp_Server\<close>, \<open>Smtp_Session\<close>, \<open>Smtp_Listener\<close>: \<^verbatim>\<open>src/smtp/server.rs\<close>. The bounded
    line and block readers over a stream cut into chunks that may stall or fail; a turn of a
    session for every command; the whole connection; the listener with its permits and the
    deadline of its sessions (\<open>server_step\<close>). \<open>Smtp_Client\<close>: the same from the client's side, a
    specification of the dialogue in terms of mails, and that the session implements it.
  \<^item> \<open>Html\<close>, \<open>Mime\<close>, \<open>Parser\<close>: \<^verbatim>\<open>src/smtp/mime.rs\<close> and \<^verbatim>\<open>src/smtp/parser.rs\<close>.
  \<^item> \<open>Settings\<close>, \<open>Configuration\<close>: \<^verbatim>\<open>src/config.rs\<close>; \<open>Routing\<close>: \<^verbatim>\<open>src/matrix/routing.rs\<close>; \<open>Formatter\<close>:
    \<^verbatim>\<open>src/matrix/formatter.rs\<close>; \<open>Matrix_Client\<close>: \<^verbatim>\<open>src/matrix/client.rs\<close>.
  \<^item> \<open>Program\<close>: \<^verbatim>\<open>src/main.rs\<close>. It interprets \<open>worker_env\<close> on the Matrix client.
  \<^item> \<open>System\<close>: the composition. A state is the worker with the shared store, the sessions and
    the permits; a step is a step of one part, the signal, a failure, or the death and restart
    of the process. It interprets \<open>simulation\<close>: the system refines the relay.
  \<^item> \<open>Recovery\<close>: what the system can always do: deliver the whole queue after a restart,
    and so bring a mail from a client to its room.
  \<^item> \<open>Conformance_Store\<close>, \<open>Conformance_Worker\<close>, \<open>Conformance_Text\<close>, \<open>Conformance_Config\<close>,
    \<open>Conformance_Mail\<close>: the unit tests of the repository, translated one by one and evaluated on
    the model, which passes them. Where a test goes through a crate, a fixture stands for it.
    \<open>Conformance_Dialogue\<close>: the integration tests, on whole connections.

  \<^bold>\<open>What is shown.\<close> \<open>Store\<close>: enqueueing refines the insertion of a fresh key, the capacity, claiming
  the earliest due row, atomic dead-lettering, the round trip of a message, and that queued
  rows stay until released. \<open>Worker\<close>, \<open>Delivery\<close>: the backoff formula over all words, the outcome
  of a delivery on every branch, bounded attempts, termination of the drain and what it leaves,
  delivery of everything due when nothing is broken, and what happens when only writes fail. The readers:
  independence of chunking, the round trip of a dot-stuffed block, completeness and size of
  what is returned on any connection (\<open>consumes\<close>), bounded memory. Sessions and listener: what is queued and when, the
  connection limit, that a connection is a run of the listener, that a client that keeps to the
  protocol is served in full, and what an oversized block does. Text: the plain-text
  preference, attachments, the HTML reduction, the raw split. Configuration, routing and client: exactness of the validation,
  first match, fail-fast connecting, and what may be deleted. \<open>Recovery\<close>: from every reachable
  state a restart with everything working empties the queue by delivering it, and a mail handed
  in before the crash arrives with it. This theory: the composed system refines the relay, from which it has that no mail is lost and that transaction ids
  identify messages; wake-ups, the typing of the tables, and where mail goes in every
  reachable state; and the properties that join the start of the program with its components.

  \<^bold>\<open>Bounds and fuel.\<close> Every loop of the program that ends is a total function: the readers and the
  session by the bytes and events left in the stream, the text loops by the text left. The
  loop of the worker does not end by itself; \<open>drain\<close> and \<open>turns\<close> run it with a number of turns,
  and \<open>drain_terminates\<close> shows that the attempts left in the queue plus one are enough for the
  drain. A stream whose events are used up has ended. An empty list of failures is a storage
  that works; an empty list of clock readings is a clock that reads 0.

  \<^bold>\<open>Parameters.\<close> The code the program calls and does not contain is an argument of the definitions:
  the mail parser (\<open>mailparse\<close>), the address check (the \<open>validator\<close> crate), the template engine
  (\<open>minijinja\<close>), the parsers of TOML, URLs and Matrix identifiers (\<open>identifiers\<close>), the Matrix SDK
  with the file system (\<open>sdk\<close>, functions on a state of the environment), the log filter and the
  socket. Nothing is assumed of them unless a theorem says so; the examples in each theory
  instantiate them with concrete functions.

  \<^bold>\<open>Not modelled.\<close> Log lines and the async runtime itself: tasks are interleaved between the
  accesses to the shared store. A method of the store holds the connection lock for its whole
  duration and is one step. A turn of a session has at most one such access, \<open>enqueue\<close>; it is
  one step, or is split where \<open>enqueue\<close> awaits the insert, with the session's deadline possible
  in between (an insert that the deadline leaves behind in the blocking pool is committed
  before the session is dropped). The worker's turn is split at each access, and the monitor's
  two counts are taken together. A crash is one of the process: what the database has
  committed is there afterwards. Timeouts are events of the environment, not measured time.
  The \<^verbatim>\<open>mod.rs\<close> and \<^verbatim>\<open>lib.rs\<close> files declare modules. Three unit tests are left
  out (the text of the example file, directories on disk, a poisoned mutex), and two integration
  tests (a refused connection, a deadline).
  \<open>str::to_uppercase\<close> is exact for the comparisons with ASCII words the code makes (see
  \<open>Rust_Text\<close>).
\<close>

section \<open>Properties of the whole program\<close>

text \<open>
  C2. No mail is lost: from the moment a session has stored a message, whatever steps the
  sessions, the worker, the monitor and the environment take in whatever order, storage
  failures, send failures, crashes and restarts included, the message is queued under its id,
  or its send was acknowledged by the home server under the transaction id made of its id, or
  it is a dead letter. And it is addressed: no message without a checked recipient is stored.
\<close>

theorem no_mail_lost:
  assumes "reach (system_init cfg) (system_step mp v sdk j ids cfg) s"
    and "(i, m) \<in> set (w_accepted (sy_worker s))" and "(system_step mp v sdk j ids cfg)\<^sup>*\<^sup>* s t"
  shows "(queued (w_store (sy_worker t)) i = Some m \<or>
      (idempotency_key i, m) \<in> set (mx_log (w_sink (sy_worker t))) \<or>
      m \<in> set (buried (w_store (sy_worker t)))) \<and> addressed v m"
proof -
  have "relay_inv (addressed v) (relay_view t)" by (rule reach_relay_inv [OF reach_rtranclp [OF assms(3,1)]])
  moreover have "(i, m) \<in> rl_accepted (relay_view t)"
    using assms(2) accepted_kept [OF assms(3)] by (auto simp: relay_view_def relay_of_def)
  ultimately have "addressed v m \<and> settled (relay_view t) i m" unfolding relay_inv_def by blast
  then show ?thesis by (auto simp: settled_def relay_view_def relay_of_def queued_entry)
qed

theorem no_mail_lost_witness:
  "\<exists>s t. ex_reach s \<and> queued (w_store (sy_worker s)) 1 = Some ex_message \<and>
     t = restarted ex_mail_config (w_store (sy_worker s)) (w_sink (sy_worker s)) s \<and>
     (queued (w_store (sy_worker t)) 1 = Some ex_message \<or>
      (idempotency_key 1, ex_message) \<in> set (mx_log (w_sink (sy_worker t))) \<or>
      ex_message \<in> set (buried (w_store (sy_worker t)))) \<and> addressed ex_valid ex_message"
proof -
  from ex_queued_reached obtain s where s: "ex_reach s" "(1, ex_message) \<in> set (w_accepted (sy_worker s))"
    "queued (w_store (sy_worker s)) 1 = Some ex_message" by blast
  let ?t = "restarted ex_mail_config (w_store (sy_worker s)) (w_sink (sy_worker s)) s"
  have "ex_step\<^sup>*\<^sup>* s ?t" by (rule r_into_rtranclp) (rule system_step.die)
  from no_mail_lost [OF s(1,2) this] s(1,3) show ?thesis by blast
qed

text \<open>
  C1. The program refines its specification: whatever the sessions, the worker, the monitor and
  the environment do, in whatever order, what becomes of the messages is a run of the relay of
  \<open>Relay\<close>. A message is taken in addressed and under a fresh id, is sent only under the key of
  its id, leaves the queue only when a send was taken over or, for the dead letters, when its
  attempts have used up \<open>max_retries\<close>, and its count of attempts goes up by one at a time,
  across failures, crashes and restarts.
\<close>

theorem system_refines_relay:
  assumes "reach (system_init cfg) (system_step mp v sdk j ids cfg) s"
    and "(system_step mp v sdk j ids cfg)\<^sup>*\<^sup>* s t"
  shows "(relay_step (addressed v) (max_retries (worker_of cfg)))\<^sup>*\<^sup>* (relay_view s) (relay_view t)"
  by (rule system.sim_run [OF assms(2) system.reach_inv [OF assms(1)]])

theorem system_refines_relay_witness:
  "(relay_step (addressed ex_valid) (max_retries (worker_of ex_mail_config)))\<^sup>*\<^sup>*
     \<lparr>rl_pending = [1 \<mapsto> \<lparr>sm_id = 1, sm_message = ex_message, sm_attempts = 0\<rparr>], rl_sent = {}, rl_tried = {}, rl_dead = [],
      rl_issued = {1}, rl_accepted = {}\<rparr>
     \<lparr>rl_pending = Map.empty, rl_sent = {(idempotency_key 1, ex_message)}, rl_tried = {(idempotency_key 1, ex_message)}, rl_dead = [],
      rl_issued = {1}, rl_accepted = {}\<rparr>"
proof -
  have e: "entry ex_store1 = [1 \<mapsto> \<lparr>sm_id = 1, sm_message = ex_message, sm_attempts = 0\<rparr>]"
    "entry ex_delivered = Map.empty"
    by (simp_all add: entry_def rows_def fun_eq_iff ex_delivered_def ex_store1_def)
  have "relay_view (ex_system ex_store1 Claiming [] (Some ex_client) []) =
      \<lparr>rl_pending = entry ex_store1, rl_sent = {}, rl_tried = {}, rl_dead = [], rl_issued = {1}, rl_accepted = {}\<rparr>"
    "relay_view ex_sent = \<lparr>rl_pending = entry ex_delivered, rl_sent = {(idempotency_key 1, ex_message)}, rl_tried = {(idempotency_key 1, ex_message)}, rl_dead = [],
      rl_issued = {1}, rl_accepted = {}\<rparr>"
    by (simp_all add: relay_view_def relay_of_def ex_sent_def ex_world_def buried_def issued_def ex_delivered_def
        ex_store1_def empty_database_def)
  with system_refines_relay [OF ex_connected_reached ex_sends] show ?thesis by (simp add: e)
qed

text \<open>
  C3. An acknowledgement is backed by the database: in every reachable state, the turn of a
  session that writes the reply 250 to a block of mail has, before the reply, stored exactly
  one new message, and it is addressed; it never acknowledges more than that one.
\<close>

theorem acknowledged_is_stored:
  assumes "reach (system_init cfg) (system_step mp v sdk j ids cfg) s"
    and "k < length (sy_sessions s)"
    and "session_turn mp v (cfg_smtp cfg) (sy_sessions s ! k) (w_store (sy_worker s)) = (r, s', st')"
    and "accepted (s_out (sy_sessions s ! k)) < accepted (s_out s')"
  shows "\<exists>i m. stored_rows (w_store (sy_worker s)) st' = [(i, m)] \<and> addressed v m \<and>
    accepted (s_out s') = Suc (accepted (s_out (sy_sessions s ! k)))"
proof -
  have inv: "system_inv v ids cfg s" by (rule system.reach_inv [OF assms(1)])
  then have "store_inv (w_store (sy_worker s))" by (rule system_store_inv)
  moreover have "sess_inv v (sy_sessions s ! k)"
    using inv assms(2) by (simp add: system_inv_def server_inv_def)
  ultimately show ?thesis by (rule turn_records [OF assms(3) _ _ assms(4)])
qed

theorem acknowledged_is_stored_witness:
  "\<exists>s i m. ex_reach s \<and> sy_sessions s = [ex_block_session] \<and>
     stored_rows (w_store (sy_worker s)) ex_store1 = [(i, m)] \<and> addressed ex_valid m"
proof -
  from ex_block_reached obtain s where s: "ex_reach s" "sy_sessions s = [ex_block_session]"
    "w_store (sy_worker s) = ex_store" by blast
  have cfg: "cfg_smtp ex_mail_config = ex_smtp_config" by (simp add: ex_mail_config_def)
  have 0: "sy_sessions s ! 0 = ex_block_session" "0 < length (sy_sessions s)" using s(2) by simp_all
  have "\<exists>i m. stored_rows (w_store (sy_worker s)) ex_store1 = [(i, m)] \<and> addressed ex_valid m \<and>
      accepted (map (\<lambda>x. x @ crlf) [''220 chimney-post ESMTP'', ok_reply, ok_reply, ok_reply, go_ahead, ok_reply]) =
        Suc (accepted (s_out (sy_sessions s ! 0)))"
    using acknowledged_is_stored [OF s(1) 0(2), of Continue] ex_block_turn
    unfolding cfg 0(1) s(3)
    by (simp add: ex_block_session_def ex_session_def ok_reply_def go_ahead_def)
  with s show ?thesis by blast
qed

text \<open>
  C5. No wake-up is lost but by a deadline: in every reachable state in which the worker sleeps
  with no permit waiting, every message in the queue was not due when it fell asleep, and the
  sleep was either cut to five seconds by a storage error or ends no later than the message is
  due (in the 64-bit arithmetic of the code). The only other messages are those stored since
  by a session that has yet to signal the worker, or that its deadline cut off before it could.
\<close>

theorem no_wakeup_lost:
  assumes "reach (system_init cfg) (system_step mp v sdk j ids cfg) s"
    and "w_phase (sy_worker s) = Sleeping t n" and "\<not> notify (w_store (sy_worker s))"
    and "r \<in> set (outbox (conn (w_store (sy_worker s))))"
  shows "t < next_attempt_at r \<and>
      (n = STORAGE_ERROR_BACKOFF \<or> (\<exists>at. t < at \<and> at \<le> next_attempt_at r \<and> n = nat (max (wrap_i64 (at - t)) 0))) \<or>
    ob_id r \<in> sy_missed s \<inter> (fst ` set (sy_posting s) \<union> sy_cut s)"
proof -
  have "awake (sy_missed s) (sy_worker s)" "sy_missed s \<subseteq> fst ` set (sy_posting s) \<union> sy_cut s"
    using system.reach_inv [OF assms(1)] by (simp_all add: system_inv_def unposted_front)
  with assms(2-4) show ?thesis by (auto simp: awake_def not_due_def sleep_ok_def)
qed

theorem no_wakeup_lost_witness:
  "0 < next_attempt_at (rescheduled 1 10 ex_row) \<and>
    (10 = STORAGE_ERROR_BACKOFF \<or>
     (\<exists>at. 0 < at \<and> at \<le> next_attempt_at (rescheduled 1 10 ex_row) \<and> 10 = nat (max (wrap_i64 (at - 0)) 0)))"
  using no_wakeup_lost [OF ex_waiting_reached, of 0 10 "rescheduled 1 10 ex_row"]
  by (simp add: ex_world_def ex_waiting_def ex_unnotified_def)

text \<open>
  C6. The deadline does lose one: a session whose deadline passes while it stores its message
  leaves the message in the queue, due at once, with the worker asleep for the whole idle time of
  an hour, no permit, and no session left that would signal it.
\<close>

theorem deadline_loses_wakeup:
  "\<exists>s. ex_reach s \<and> w_phase (sy_worker s) = Sleeping 7 3600 \<and> \<not> notify (w_store (sy_worker s)) \<and>
     sy_sessions s = [] \<and> sy_posting s = [] \<and> (1, ex_message) \<in> set (w_accepted (sy_worker s)) \<and>
     queued (w_store (sy_worker s)) 1 = Some ex_message \<and>
     map next_attempt_at (outbox (conn (w_store (sy_worker s)))) = [0]"
proof -
  have q: "queued ex_uncalled 1 = Some ex_message"
    using ex_queued(1) same_conn [of ex_uncalled ex_store1] by (simp add: ex_uncalled_def)
  from ex_served [OF ex_idle_reached ex_cut_run] obtain s where s: "ex_reach s"
    "front s = ex_front 2 [] [] {1} ex_uncalled" "w_phase (sy_worker s) = Sleeping 7 3600"
    "\<And>i m. queued ex_uncalled i = Some m \<Longrightarrow> (i, m) \<in> set (w_accepted (sy_worker s))"
    by (auto simp: ex_front_def IDLE_SLEEP_def)
  then have f: "sy_sessions s = []" "sy_posting s = []" "w_store (sy_worker s) = ex_uncalled"
    by (simp_all add: front_def ex_front_def)
  show ?thesis
    by (rule exI [of _ s]) (use s f q in \<open>simp add: ex_uncalled_def ex_store1_def ex_row_def\<close>)
qed

text \<open>
  C4. Transaction ids identify messages: whatever was resent after lost responses, failed
  removals or crashes, two sends the home server was asked for under the same transaction id,
  answered or not, carried the same message, so that its deduplication never drops a different
  one; and every transaction id is made of an id the database has issued.
\<close>

theorem transaction_ids_identify:
  assumes "reach (system_init cfg) (system_step mp v sdk j ids cfg) s"
    and "(k, m) \<in> set (mx_tried (w_sink (sy_worker s)))"
  shows "(\<exists>i. k = idempotency_key i \<and> i \<in> issued (w_store (sy_worker s)) \<and>
      queued (w_store (sy_worker s)) i \<in> {None, Some m}) \<and>
    (\<forall>m'. (k, m') \<in> set (mx_tried (w_sink (sy_worker s))) \<longrightarrow> m' = m)"
proof -
  have keyed: "keyed (relay_view s)" using reach_relay_inv [OF assms(1)] by (simp add: relay_inv_def)
  have k: "(k, m) \<in> rl_tried (relay_view s)" using assms(2) by (simp add: relay_view_def relay_of_def)
  with keyed obtain i where "k = idempotency_key i" "i \<in> rl_issued (relay_view s)"
    "rl_pending (relay_view s) i = None \<or> map_option sm_message (rl_pending (relay_view s) i) = Some m"
    unfolding keyed_def by blast
  moreover have "m' = m" if "(k, m') \<in> rl_tried (relay_view s)" for m'
    using keyed k that unfolding keyed_def by blast
  ultimately show ?thesis by (auto simp: relay_view_def relay_of_def queued_entry)
qed

theorem transaction_ids_identify_witness:
  "\<exists>i. idempotency_key 1 = idempotency_key i \<and> i \<in> issued ex_delivered"
  using transaction_ids_identify [OF ex_asleep_reached, of "idempotency_key 1" ex_message]
  by (auto simp: ex_asleep_def ex_world_def)

text \<open>
  C9. Mail goes where the configuration says: in every reachable state, whatever client the
  worker uses, a message is sent only as the rendering of the configured template, to the room
  the first matching configured route names, and with \<open>require_e2ee\<close> only after that room was
  seen to be encrypted; otherwise nothing is sent and the attempt fails.
\<close>

theorem mail_goes_where_configured:
  assumes "reach (system_init cfg) (system_step mp v sdk j ids cfg) s"
    and "mx_client (w_sink (sy_worker s)) = Some c"
  shows "\<exists>router. router_from_config (parse_room ids) (cfg_matrix cfg) = Inr router \<and>
    (\<forall>m key env.
      (\<exists>e env'. \<forall>f. send_message (sdk\<lparr>sdk_send := f\<rparr>) j c m key env = (Inl e, env')) \<or>
      (\<exists>formatted h env0 env1.
        format_message j m (message_template (cfg_matrix cfg)) = Inr formatted \<and>
        sdk_get_room sdk (mc_client c) (resolve router m) env0 = Some h \<and>
        (require_e2ee (cfg_matrix cfg) \<longrightarrow> sdk_encryption_state sdk h env1 = Encrypted) \<and>
        (\<forall>f. send_message (sdk\<lparr>sdk_send := f\<rparr>) j c m key env =
           map_err (\<lambda>e. Matrix (''Matrix send failed: '' @ e)) (f h formatted key env1))))"
proof -
  have "as_configured ids cfg c"
    using system.reach_inv [OF assms(1)] assms(2) by (simp add: system_inv_def client_inv_def)
  then show ?thesis
    using send_cases [of sdk j c] by (intro exI [of _ "mc_router c"]) (simp add: as_configured_def)
qed

theorem mail_goes_where_configured_witness:
  "\<exists>router. router_from_config (parse_room ex_ids) (cfg_matrix ex_mail_config) = Inr router"
  using mail_goes_where_configured [OF ex_asleep_reached, of ex_client] by (auto simp: ex_asleep_def ex_world_def)

text \<open>
  C28. The tables stay well typed: in every reachable state, whatever database the process was
  started on and however often it crashed, every queued row has an id of its own that the column
  and the \<open>i64\<close> of the code hold, a due time that fits an \<open>i64\<close> although it is computed from a
  64-bit backoff, and a count of attempts that the cast to \<open>u32\<close> in \<open>row_to_stored\<close> reads back
  without loss.
\<close>

theorem rows_well_typed:
  assumes "reach (system_init cfg) (system_step mp v sdk j ids cfg) s"
    and "r \<in> set (outbox (conn (w_store (sy_worker s))))"
  shows "rows (conn (w_store (sy_worker s))) (ob_id r) = Some r \<and>
    1 \<le> ob_id r \<and> is_i64 (ob_id r) \<and> is_i64 (next_attempt_at r) \<and>
    sm_id (row_to_stored r) = ob_id r \<and> uint (sm_attempts (row_to_stored r)) = ob_attempts r"
proof -
  have "store_inv (w_store (sy_worker s))" by (rule system_store_inv [OF system.reach_inv [OF assms(1)]])
  with assms(2) rows_member [OF this assms(2)] show ?thesis
    by (auto simp: db_inv_def row_to_stored_def is_i64_def i64_max_def uint_word_of_int)
qed

theorem rows_well_typed_witness:
  "is_i64 (next_attempt_at (rescheduled 1 10 ex_row)) \<and>
    uint (sm_attempts (row_to_stored (rescheduled 1 10 ex_row))) = 1"
  using rows_well_typed [OF ex_waiting_reached, of "rescheduled 1 10 ex_row"]
  by (simp add: ex_world_def ex_waiting_def ex_unnotified_def rescheduled_def)

text \<open>
  The worker never gives up by itself: in every reachable state in which its task has
  returned, the shutdown signal was received.
\<close>

lemma worker_stops_on_signal:
  assumes "reach (system_init cfg) (system_step mp v sdk j ids cfg) s"
    and "w_phase (sy_worker s) = Stopped"
  shows "w_shutdown (sy_worker s)"
  using system.reach_inv [OF assms(1)] assms(2) by (simp add: system_inv_def)

lemma worker_stops_on_signal_witness:
  "\<exists>s. ex_reach s \<and> w_phase (sy_worker s) = Stopped \<and> w_shutdown (sy_worker s)"
proof -
  let ?s = "ex_system ex_store Connecting [] None []"
  let ?t = "?s\<lparr>sy_worker := (sy_worker ?s)\<lparr>w_shutdown := True\<rparr>\<rparr>"
  let ?w = "(sy_worker ?t)\<lparr>w_phase := Stopped, w_sink := w_sink (sy_worker ?t)\<rparr>"
  have "task_step (connect_closure ex_open_sdk ex_ids ex_mail_config) (deliver ex_open_sdk ex_minijinja)
      (worker_of ex_mail_config) (sy_worker ?t) ?w"
    by (rule task_step.connect) (simp_all add: ex_world_def reconnect_iter_def)
  then have "ex_step ?t (working ?w ?t)" by (rule system_step.work)
  moreover have "sy_missed ?t = {}" by (simp add: ex_world_def)
  ultimately have 2: "ex_step ?t (?t\<lparr>sy_worker := ?w\<rparr>)" by (simp only: working_clear)
  have 1: "ex_step ?s ?t" by (rule system_step.signal)
  have "ex_reach ?s" by (rule reach.start, rule ex_system_init) simp
  from this 1 have "ex_reach ?t" by (rule reach.move)
  from this 2 have r: "ex_reach (?t\<lparr>sy_worker := ?w\<rparr>)" by (rule reach.move)
  have p: "w_phase (sy_worker (?t\<lparr>sy_worker := ?w\<rparr>)) = Stopped" by simp
  from worker_stops_on_signal [OF r p] r p show ?thesis by blast
qed

text \<open>
  A connection handled to its end with no other in between is a run of the listener, from
  taking a permit to giving it back, with the same effect on the store.
\<close>

lemma connection_is_run:
  assumes "0 < sv_permits sv" and "handle_connection mp v cfg r faults (sv_store sv) = (res, s', st')"
  shows "(server_step mp v cfg)\<^sup>*\<^sup>* sv (sv\<lparr>sv_store := st'\<rparr>)"
  by (rule handle_connection_run [OF assms])

lemma connection_is_run_witness:
  "(server_step ex_plain ex_valid ex_smtp_config)\<^sup>*\<^sup>* (server_start ex_smtp_config ex_store)
     ((server_start ex_smtp_config ex_store)\<lparr>sv_store := ex_store1\<rparr>)"
  by (rule connection_is_run)
    (use ex_dialogue_run in \<open>simp_all add: ex_connection_def server_start_def ex_smtp_config_def\<close>)

text \<open>
  A validated configuration never makes the worker retry a failing message in a tight loop:
  the wait after every failed attempt (a count of 1 or more) is between 1 and 900 seconds.
\<close>

lemma retries_are_paced:
  assumes "validate ids j cfg = Inr ()" and "attempt \<noteq> 0"
  shows "0 < unat (backoff_seconds (retry_backoff (worker_of cfg)) attempt MAX_BACKOFF_SECONDS) \<and>
    unat (backoff_seconds (retry_backoff (worker_of cfg)) attempt MAX_BACKOFF_SECONDS) \<le> 900"
proof -
  have b: "q_retry_backoff (cfg_queue cfg) \<noteq> 0" using assms(1) by (simp add: validate_ok check_queue_ok)
  have "unat MAX_BACKOFF_SECONDS = 900" by (simp add: MAX_BACKOFF_SECONDS_def)
  with b assms(2) unat_backoff [of attempt "q_retry_backoff (cfg_queue cfg)" MAX_BACKOFF_SECONDS]
  show ?thesis by (simp add: worker_of_def unat_gt_0)
qed

lemma retries_are_paced_witness:
  "0 < unat (backoff_seconds (retry_backoff (worker_of (ex_login_config None))) 4294967295 MAX_BACKOFF_SECONDS)"
  using retries_are_paced [OF ex_login_config_valid [of None], of 4294967295] by simp

text \<open>
  C33. Start-up leads into the system: when \<open>main\<close> gets through its start-up, the configuration it
  loaded was validated, the store is the database at the configured path with the configured
  limit, the directory of which was there or was created, and, for a well-formed database,
  what \<open>main\<close> spawns is an initial state of the composed system, so that every property of its
  reachable states holds of the process.
\<close>

theorem startup_leads_to_system:
  assumes "fst (main_start (load_default toml ids j read_file vars) env_filter env tcp_bind) = Inr (cfg, st, addr)"
    and "\<And>db. se_open env (db_path (cfg_queue cfg)) = Inr db \<Longrightarrow> db_inv db"
  shows "validate ids j cfg = Inr () \<and>
    se_open env (db_path (cfg_queue cfg)) = Inr (conn st) \<and> create_parent env (db_path (cfg_queue cfg)) = None \<and>
    max_len st = q_max_len (cfg_queue cfg) \<and>
    reach (system_init cfg) (system_step mp v sdk j ids cfg) (spawned cfg st w)"
proof -
  from assms(1) have l: "load_default toml ids j read_file vars = Inr cfg"
    and o: "open_with_max_len env (db_path (cfg_queue cfg)) (q_max_len (cfg_queue cfg)) = Inr st"
    by (auto simp: main_start_def split: sum.splits)
  from o have s: "se_open env (db_path (cfg_queue cfg)) = Inr (conn st)"
    "create_parent env (db_path (cfg_queue cfg)) = None" "max_len st = q_max_len (cfg_queue cfg)"
    by (auto simp: open_with_max_len_def split: option.splits sum.splits)
  have "reach (system_init cfg) (system_step mp v sdk j ids cfg) (spawned cfg st w)"
    by (rule reach.start, rule spawned_init) (rule assms(2) [OF s(1)])
  with s load_default_valid [OF l] show ?thesis by simp
qed

text \<open>A start with an empty database on which everything succeeds.\<close>

definition ex_storage_env :: storage_env where
  "ex_storage_env = \<lparr>se_task = None, se_mkdir = \<lambda>_. None, se_open = \<lambda>_. Inr empty_database, se_schema = None,
     se_faults = [], se_clock = []\<rparr>"

abbreviation ex_load :: "config result" where
  "ex_load \<equiv> load_default (\<lambda>_ _. Inr (ex_login_config None)) ex_ids ex_minijinja Inr (\<lambda>_. None)"

lemma ex_started:
  "main_start ex_load (\<lambda>_. Inr ()) ex_storage_env (\<lambda>_. Inr ()) =
     (Inr (ex_login_config None,
        \<lparr>conn = empty_database, notify = False, max_len = q_max_len (cfg_queue (ex_login_config None)),
          sql_faults = [], clock = []\<rparr>, (V4 [127, 0, 0, 1], 2525)),
      [Ready, Status ''accepting mail; connecting to Matrix''])"
proof -
  have "apply_env_overrides (\<lambda>_. None) (ex_login_config None) = Inr (ex_login_config None)"
    by (simp add: apply_env_overrides_def override_credentials_def from_env_def ex_login_matrix)
  then have l: "ex_load = Inr (ex_login_config None)"
    by (simp add: load_default_def load_from_path_def ex_login_config_valid)
  show ?thesis
    unfolding l main_start_def using parse_socket_addr_examples(1)
    by (simp add: init_tracing_def open_with_max_len_def create_parent_def bind_smtp_def ex_storage_env_def split: option.split)
      (simp add: ex_login_config_def ex_config_def)
qed

theorem startup_leads_to_system_witness:
  "\<exists>cfg st. fst (main_start ex_load (\<lambda>_. Inr ()) ex_storage_env (\<lambda>_. Inr ())) = Inr (cfg, st, (V4 [127, 0, 0, 1], 2525)) \<and>
     validate ex_ids ex_minijinja cfg = Inr () \<and> conn st = empty_database \<and>
     reach (system_init cfg) (system_step ex_plain ex_valid ex_open_sdk ex_minijinja ex_ids cfg) (spawned cfg st [])"
proof -
  have 1: "fst (main_start ex_load (\<lambda>_. Inr ()) ex_storage_env (\<lambda>_. Inr ())) = Inr (ex_login_config None,
      \<lparr>conn = empty_database, notify = False, max_len = q_max_len (cfg_queue (ex_login_config None)),
        sql_faults = [], clock = []\<rparr>, (V4 [127, 0, 0, 1], 2525))" by (simp add: ex_started)
  from startup_leads_to_system [OF 1, of ex_plain ex_valid ex_open_sdk "[]"] 1 show ?thesis
    by (auto simp: ex_storage_env_def)
qed

text \<open>
  C40. Readiness means that mail is taken. When \<open>main\<close> has sent the ready notification, the log
  filter was accepted, the listener is bound to the configured address, and in the system
  that \<open>main\<close> spawns over the opened store there is a permit for a connection: every client
  that keeps to the protocol can be served to the end from there, with a positive reply to
  each command and each of its mails stored in its turn (or answered 451 when the store does
  not take it). Matrix has no part in it: this holds for every home server, one that never
  answers included.
\<close>

theorem ready_means_served:
  fixes sdk :: "('s, 'url, 'user, 'room, 'client, 'handle) sdk"
  assumes "Ready \<in> set (snd (main_start (load_default toml ids j read_file vars) env_filter env tcp_bind))"
    and "\<forall>path db. se_open env path = Inr db \<longrightarrow> db_inv db"
  shows "\<exists>cfg st addr.
    fst (main_start (load_default toml ids j read_file vars) env_filter env tcp_bind) = Inr (cfg, st, addr) \<and>
    env_filter (log_level (cfg_logging cfg)) = Inr () \<and>
    parse_socket_addr (smtp_bind (cfg_smtp cfg)) = Some addr \<and> tcp_bind addr = Inr () \<and>
    (\<forall>r host ms rest. healthy r \<and> stream_of r = client_bytes host ms @ rest \<and> command_text (''EHLO '' @ host) \<and>
       (\<forall>m\<in>set ms. sendable v (cfg_smtp cfg) m) \<and> max_message_size (cfg_smtp cfg) + 4 \<le> usize_max \<longrightarrow>
       (\<exists>s' t. handle_connection mp v (cfg_smtp cfg) r [] st = (Inr (), s', snd (submit_all mp ms st)) \<and>
          s_out s' = map (\<lambda>x. x @ crlf)
            ([''220 chimney-post ESMTP'',
              ''250-chimney-post'' @ crlf @ ''250 SIZE '' @ nat_str (max_message_size (cfg_smtp cfg))] @
             fst (submit_all mp ms st) @ [''221 Bye'']) \<and>
          (system_step mp v sdk j ids cfg)\<^sup>*\<^sup>* (spawned cfg st w) t \<and>
          w_store (sy_worker t) = snd (submit_all mp ms st)))"
proof -
  let ?start = "main_start (load_default toml ids j read_file vars) env_filter env tcp_bind"
  from assms(1) obtain cfg st addr where c:
    "fst ?start = Inr (cfg, st, addr)" "env_filter (log_level (cfg_logging cfg)) = Inr ()"
    "open_with_max_len env (db_path (cfg_queue cfg)) (q_max_len (cfg_queue cfg)) = Inr st"
    "parse_socket_addr (smtp_bind (cfg_smtp cfg)) = Some addr" "tcp_bind addr = Inr ()"
    by (auto simp: main_start_def init_tracing_def bind_smtp_def split: sum.splits option.splits)
  have "se_open env (db_path (cfg_queue cfg)) = Inr (conn st)"
    using c(3) by (auto simp: open_with_max_len_def split: option.splits sum.splits)
  then have inv: "store_inv st" using assms(2) by blast
  have start: "reach (system_init cfg) (system_step mp v sdk j ids cfg) (spawned cfg st w)"
    by (rule reach.start, rule spawned_init, rule inv)
  have s: "0 < sy_permits (spawned cfg st w)" "\<not> w_shutdown (sy_worker (spawned cfg st w))"
    "w_store (sy_worker (spawned cfg st w)) = st"
    by (simp_all add: spawned_def server_start_def Let_def)
  have "\<exists>s' t. handle_connection mp v (cfg_smtp cfg) r [] st = (Inr (), s', snd (submit_all mp ms st)) \<and>
      s_out s' = map (\<lambda>x. x @ crlf)
        ([''220 chimney-post ESMTP'',
          ''250-chimney-post'' @ crlf @ ''250 SIZE '' @ nat_str (max_message_size (cfg_smtp cfg))] @
         fst (submit_all mp ms st) @ [''221 Bye'']) \<and>
      (system_step mp v sdk j ids cfg)\<^sup>*\<^sup>* (spawned cfg st w) t \<and> w_store (sy_worker t) = snd (submit_all mp ms st)"
    if d: "healthy r" "stream_of r = client_bytes host ms @ rest" "command_text (''EHLO '' @ host)"
      "\<forall>m\<in>set ms. sendable v (cfg_smtp cfg) m" "max_message_size (cfg_smtp cfg) + 4 \<le> usize_max" for r host ms rest
  proof -
    from client_dialogue [OF d, of mp st] obtain s' where
      h: "handle_connection mp v (cfg_smtp cfg) r [] st = (Inr (), s', snd (submit_all mp ms st))"
      "s_out s' = map (\<lambda>x. x @ crlf)
        ([''220 chimney-post ESMTP'',
          ''250-chimney-post'' @ crlf @ ''250 SIZE '' @ nat_str (max_message_size (cfg_smtp cfg))] @
         fst (submit_all mp ms st) @ [''221 Bye''])" by blast
    from connection_served [OF start s(1,2), unfolded s(3), OF h(1)] h show ?thesis by blast
  qed
  with c show ?thesis by blast
qed

theorem ready_means_served_witness:
  "\<exists>cfg st addr s' t. fst (main_start ex_load (\<lambda>_. Inr ()) ex_storage_env (\<lambda>_. Inr ())) = Inr (cfg, st, addr) \<and>
     handle_connection ex_plain ex_valid (cfg_smtp cfg) ex_client_reader [] st =
       (Inr (), s', snd (submit_all ex_plain [ex_letter] st)) \<and>
     (system_step ex_plain ex_valid ex_open_sdk ex_minijinja ex_ids cfg)\<^sup>*\<^sup>* (spawned cfg st []) t \<and>
     w_store (sy_worker t) = snd (submit_all ex_plain [ex_letter] st)"
proof -
  have 1: "Ready \<in> set (snd (main_start ex_load (\<lambda>_. Inr ()) ex_storage_env (\<lambda>_. Inr ())))" by (simp add: ex_started)
  have 2: "\<forall>path db. se_open ex_storage_env path = Inr db \<longrightarrow> db_inv db"
    using ex_inv(1) by (simp add: ex_storage_env_def ex_store_def)
  from ready_means_served [where v = ex_valid and mp = ex_plain and sdk = ex_open_sdk and w = "[]", OF 1 2]
  obtain cfg st addr where c: "fst (main_start ex_load (\<lambda>_. Inr ()) ex_storage_env (\<lambda>_. Inr ())) = Inr (cfg, st, addr)"
    and k: "\<forall>r host ms rest. healthy r \<and> stream_of r = client_bytes host ms @ rest \<and> command_text (''EHLO '' @ host) \<and>
       (\<forall>m\<in>set ms. sendable ex_valid (cfg_smtp cfg) m) \<and> max_message_size (cfg_smtp cfg) + 4 \<le> usize_max \<longrightarrow>
       (\<exists>s' t. handle_connection ex_plain ex_valid (cfg_smtp cfg) r [] st = (Inr (), s', snd (submit_all ex_plain ms st)) \<and>
         s_out s' = map (\<lambda>x. x @ crlf)
            ([''220 chimney-post ESMTP'',
              ''250-chimney-post'' @ crlf @ ''250 SIZE '' @ nat_str (max_message_size (cfg_smtp cfg))] @
             fst (submit_all ex_plain ms st) @ [''221 Bye'']) \<and>
         (system_step ex_plain ex_valid ex_open_sdk ex_minijinja ex_ids cfg)\<^sup>*\<^sup>* (spawned cfg st []) t \<and>
         w_store (sy_worker t) = snd (submit_all ex_plain ms st))"
    by blast
  from c have cfg: "cfg = ex_login_config None" by (simp add: ex_started)
  have "max_message_size (cfg_smtp cfg) = 100" by (simp add: cfg ex_login_config_def ex_config_def)
  moreover from this have "sendable ex_valid (cfg_smtp cfg) ex_letter"
    using ex_client(2) by (simp add: sendable_def ex_smtp_config_def)
  ultimately have "\<exists>s' t. handle_connection ex_plain ex_valid (cfg_smtp cfg) ex_client_reader [] st =
         (Inr (), s', snd (submit_all ex_plain [ex_letter] st)) \<and>
       (system_step ex_plain ex_valid ex_open_sdk ex_minijinja ex_ids cfg)\<^sup>*\<^sup>* (spawned cfg st []) t \<and>
       w_store (sy_worker t) = snd (submit_all ex_plain [ex_letter] st)"
    using k [THEN spec, THEN spec, THEN spec, THEN spec, of ex_client_reader "''h''" "[ex_letter]" "[]"] ex_client(3-5)
    by (simp add: usize_max_def del: submit_all.simps) blast
  with c show ?thesis by blast
qed

end
